(* ===== verification/RB_Prelude.thy ===== *)
theory RB_Prelude
  imports Main "HOL-Library.Word" "HOL-Library.Signed_Division"
begin

text \<open>
  What the components share: the faults of C as values, a result type that stops at the first
  fault, C's signed \<open>int\<close> with its overflow, and the character and number routines of the C
  library that the sources call (\<open>isspace\<close>, \<open>strcasecmp\<close>, \<open>strstr\<close>, \<open>atoi\<close>, the \<open>%d\<close> and \<open>%s\<close>
  conversions of \<open>sprintf\<close> and \<open>sscanf\<close>), in the C locale.
\<close>

named_theorems fault_simps \<open>equations and rules of the fault result type\<close>
named_theorems cstr_simps \<open>facts on the modelled C string routines\<close>

section \<open>Faults and results\<close>

text \<open>
  A C operation that has undefined behaviour, or never returns, gives \<open>Inl\<close> of a fault;
  every other outcome is \<open>Inr\<close> of its value.
\<close>

datatype fault =
    Null_deref        \<comment> \<open>a NULL pointer is dereferenced or passed where the library reads it\<close>
  | Dangling          \<comment> \<open>an address that is not allocated is accessed or freed\<close>
  | Diverges          \<comment> \<open>a loop that never ends\<close>
  | Signed_overflow   \<comment> \<open>signed arithmetic or a conversion to \<open>int\<close> leaves the range\<close>
  | Div_by_zero
  | Uninit_read       \<comment> \<open>an object is read before anything is written to it\<close>
  | Buffer_overflow   \<comment> \<open>a write past the end of an object\<close>
  | Over_read         \<comment> \<open>a read past the memory the model knows of\<close>
  | Assert_fail
  | Blocks            \<comment> \<open>a system call waits for something that never comes\<close>

type_synonym 'a res = "fault + 'a"

definition rbind :: "'a res \<Rightarrow> ('a \<Rightarrow> 'b res) \<Rightarrow> 'b res" where
  "rbind m f = (case m of Inl e \<Rightarrow> Inl e | Inr x \<Rightarrow> f x)"

lemma rbind_Inl [simp, fault_simps]: "rbind (Inl e) f = Inl e"
  by (simp add: rbind_def)

lemma rbind_Inr [simp, fault_simps]: "rbind (Inr x) f = f x"
  by (simp add: rbind_def)

lemma rbind_eq_Inr [fault_simps]:
  "rbind m f = Inr y \<longleftrightarrow> (\<exists>x. m = Inr x \<and> f x = Inr y)"
  by (cases m) auto

lemma rbind_eq_Inl [fault_simps]:
  "rbind m f = Inl e \<longleftrightarrow> m = Inl e \<or> (\<exists>x. m = Inr x \<and> f x = Inl e)"
  by (cases m) auto

lemma rbind_assoc [fault_simps]: "rbind (rbind m f) g = rbind m (\<lambda>x. rbind (f x) g)"
  by (cases m) auto

lemma rbind_cong [fundef_cong]:
  "m = m' \<Longrightarrow> (\<And>x. m' = Inr x \<Longrightarrow> f x = f' x) \<Longrightarrow> rbind m f = rbind m' f'"
  by (cases m') auto

text \<open>A pointer that is used: NULL is a fault.\<close>

definition nonnull :: "'a option \<Rightarrow> 'a res" where
  "nonnull p = (case p of None \<Rightarrow> Inl Null_deref | Some a \<Rightarrow> Inr a)"

lemma nonnull_simps [simp, fault_simps]:
  "nonnull None = Inl Null_deref" "nonnull (Some a) = Inr a"
  by (simp_all add: nonnull_def)

text \<open>An object that is read: not yet written is a fault.\<close>

definition initialised :: "'a option \<Rightarrow> 'a res" where
  "initialised p = (case p of None \<Rightarrow> Inl Uninit_read | Some a \<Rightarrow> Inr a)"

lemma initialised_simps [simp, fault_simps]:
  "initialised None = Inl Uninit_read" "initialised (Some a) = Inr a"
  by (simp_all add: initialised_def)

section \<open>The type int\<close>

definition INT_MAX :: int where "INT_MAX = 2147483647"
definition INT_MIN :: int where "INT_MIN = - 2147483648"

definition int_range :: "int \<Rightarrow> bool" where
  "int_range i \<longleftrightarrow> INT_MIN \<le> i \<and> i \<le> INT_MAX"

definition c_int :: "int \<Rightarrow> int res" where
  "c_int i = (if int_range i then Inr i else Inl Signed_overflow)"

text \<open>Division truncates towards zero; a zero divisor and \<open>INT_MIN / -1\<close> are faults.\<close>

definition c_div :: "int \<Rightarrow> int \<Rightarrow> int res" where
  "c_div a b = (if b = 0 then Inl Div_by_zero else c_int (a sdiv b))"

lemma int_range_simps: "int_range i \<longleftrightarrow> - 2147483648 \<le> i \<and> i \<le> 2147483647"
  by (simp add: int_range_def INT_MIN_def INT_MAX_def)

lemma c_int_Inr [fault_simps]: "c_int i = Inr j \<longleftrightarrow> j = i \<and> int_range i"
  by (auto simp: c_int_def)

lemma c_int_in_range [simp]: "int_range i \<Longrightarrow> c_int i = Inr i"
  by (simp add: c_int_def)

lemma sdiv_nonneg: "0 \<le> (a::int) \<Longrightarrow> 0 < b \<Longrightarrow> a sdiv b = a div b"
  by (cases "a = 0") (auto simp: signed_divide_int_def sgn_if)

lemma c_div_pos [fault_simps]:
  "0 \<le> a \<Longrightarrow> 0 < b \<Longrightarrow> int_range a \<Longrightarrow> c_div a b = Inr (a div b)"
  using zdiv_mono2 [of a 1 b] pos_imp_zdiv_nonneg_iff [of b a]
  by (auto simp: c_div_def sdiv_nonneg int_range_simps intro!: c_int_in_range)

lemma c_div_zero [simp]: "c_div a 0 = Inl Div_by_zero"
  by (simp add: c_div_def)

section \<open>Lists\<close>

text \<open>The element of a list at an index, and a list changed there, as the loops use them.\<close>

lemma takeWhile_hd_stop: "\<not> P c \<Longrightarrow> takeWhile P (c # cs) = []"
  by simp

lemma takeWhile_append_stop:
  "\<forall>x \<in> set xs. P x \<Longrightarrow> ys = [] \<or> \<not> P (hd ys) \<Longrightarrow> takeWhile P (xs @ ys) = xs"
  by (induction xs; cases ys) auto

lemma dropWhile_append_stop:
  "\<forall>x \<in> set xs. P x \<Longrightarrow> ys = [] \<or> \<not> P (hd ys) \<Longrightarrow> dropWhile P (xs @ ys) = ys"
  by (induction xs; cases ys) auto

lemma dropWhile_id_hd: "xs = [] \<or> \<not> P (hd xs) \<Longrightarrow> dropWhile P xs = xs"
  by (cases xs) auto

lemma hd_dropWhile_or: "dropWhile P xs = [] \<or> \<not> P (hd (dropWhile P xs))"
  using hd_dropWhile by blast

end
