(* ===== verification/Link.thy ===== *)
theory Link
  imports RB_Prelude
begin

text \<open>
  The singly linked list of \<open>src/lib/link.c\<close>, on an explicit heap: every link is a cell with the
  fields of \<open>struct link\<close>, pointers are addresses or NULL (\<open>None\<close>), and each function reads,
  writes, allocates and frees cells in the order of the C code. The relation \<open>link_rep\<close> ties a
  head to the sequence of the stored pointers; every operation is proved against it, with what
  it leaves untouched. The locale \<open>policy_queue\<close> is the interface a user of such a list relies
  on (first come first served, or a stack); it is interpreted on the operations of \<open>link.c\<close>.
\<close>

section \<open>Cells and the heap\<close>

type_synonym addr = nat
type_synonym ptr = "addr option"

record link =
  link_num :: int
  link_ptr :: ptr
  link_next :: ptr

text \<open>
  \<open>fresh\<close> is above every address in use, and \<open>room\<close> is how many cells \<open>calloc\<close> can still
  give before it returns NULL.
\<close>

record link_heap =
  cells :: "addr \<rightharpoonup> link"
  fresh :: addr
  room :: nat

definition zero_link :: link where
  "zero_link = \<lparr>link_num = 0, link_ptr = None, link_next = None\<rparr>"

definition calloc_link :: "link_heap \<Rightarrow> ptr \<times> link_heap" where
  "calloc_link h =
     (if room h = 0 then (None, h)
      else (Some (fresh h),
            h\<lparr>cells := (cells h)(fresh h \<mapsto> zero_link), fresh := Suc (fresh h), room := room h - 1\<rparr>))"

definition free_link :: "link_heap \<Rightarrow> addr \<Rightarrow> link_heap res" where
  "free_link h a =
     (if cells h a = None then Inl Dangling
      else Inr (h\<lparr>cells := (cells h)(a := None), room := Suc (room h)\<rparr>))"

definition load :: "link_heap \<Rightarrow> addr \<Rightarrow> link res" where
  "load h a = (case cells h a of None \<Rightarrow> Inl Dangling | Some l \<Rightarrow> Inr l)"

definition modify :: "link_heap \<Rightarrow> addr \<Rightarrow> (link \<Rightarrow> link) \<Rightarrow> link_heap res" where
  "modify h a f = rbind (load h a) (\<lambda>l. Inr (h\<lparr>cells := (cells h)(a \<mapsto> f l)\<rparr>))"

text \<open>\<open>head->num++\<close> and \<open>head->num--\<close>.\<close>

definition num_add :: "link_heap \<Rightarrow> addr \<Rightarrow> int \<Rightarrow> link_heap res" where
  "num_add h a d =
     rbind (load h a) (\<lambda>l. rbind (c_int (link_num l + d)) (\<lambda>n. modify h a (link_num_update (\<lambda>_. n))))"

section \<open>The operations\<close>

text \<open>\<open>LINK_NUM_ENT\<close>.\<close>

definition LINK_NUM_ENT :: "link_heap \<Rightarrow> ptr \<Rightarrow> int res" where
  "LINK_NUM_ENT h L = rbind (nonnull L) (\<lambda>a. rbind (load h a) (\<lambda>l. Inr (link_num l)))"

definition link_make :: "link_heap \<Rightarrow> ptr \<times> link_heap" where
  "link_make h = calloc_link h"

definition link_push :: "link_heap \<Rightarrow> ptr \<Rightarrow> ptr \<Rightarrow> (int \<times> link_heap) res" where
  "link_push h head val =
     (case head of
        None \<Rightarrow> Inr (-1, h)
      | Some hp \<Rightarrow>
          (case calloc_link h of
             (None, h1) \<Rightarrow> Inr (-1, h1)
           | (Some el, h1) \<Rightarrow>
               rbind (modify h1 el (link_ptr_update (\<lambda>_. val))) (\<lambda>h2.
               rbind (load h2 hp) (\<lambda>l.
               rbind (modify h2 el (link_next_update (\<lambda>_. link_next l))) (\<lambda>h3.
               rbind (modify h3 hp (link_next_update (\<lambda>_. Some el))) (\<lambda>h4.
               rbind (num_add h4 hp 1) (\<lambda>h5. Inr (0, h5))))))))"

definition link_pop :: "link_heap \<Rightarrow> ptr \<Rightarrow> (ptr \<times> link_heap) res" where
  "link_pop h head =
     (case head of
        None \<Rightarrow> Inr (None, h)
      | Some hp \<Rightarrow>
          rbind (load h hp) (\<lambda>l.
            (case link_next l of
               None \<Rightarrow> Inr (None, h)
             | Some p \<Rightarrow>
                 rbind (load h p) (\<lambda>lp.
                 rbind (modify h hp (link_next_update (\<lambda>_. link_next lp))) (\<lambda>h1.
                 rbind (free_link h1 p) (\<lambda>h2.
                 rbind (num_add h2 hp (-1)) (\<lambda>h3. Inr (link_ptr lp, h3))))))))"

text \<open>
  The loop \<open>for (p = head; p->next != NULL; p = p->next) ;\<close>. A walk that visits more cells than
  there are addresses in use has entered a cycle and does not end: with fuel above \<open>fresh\<close>,
  running out is \<open>Diverges\<close>.
\<close>

fun last_link :: "nat \<Rightarrow> link_heap \<Rightarrow> addr \<Rightarrow> addr res" where
  "last_link 0 h p = Inl Diverges"
| "last_link (Suc n) h p =
     rbind (load h p) (\<lambda>l. (case link_next l of None \<Rightarrow> Inr p | Some q \<Rightarrow> last_link n h q))"

definition link_enque :: "link_heap \<Rightarrow> ptr \<Rightarrow> ptr \<Rightarrow> (int \<times> link_heap) res" where
  "link_enque h head val =
     (case head of
        None \<Rightarrow> Inr (-1, h)
      | Some hp \<Rightarrow>
          (case calloc_link h of
             (None, h1) \<Rightarrow> Inr (-1, h1)
           | (Some p2, h1) \<Rightarrow>
               rbind (modify h1 p2 (link_ptr_update (\<lambda>_. val))) (\<lambda>h2.
               rbind (last_link (Suc (fresh h2)) h2 hp) (\<lambda>p.
               rbind (load h2 p) (\<lambda>lp.
               rbind (modify h2 p2 (link_next_update (\<lambda>_. link_next lp))) (\<lambda>h3.
               rbind (modify h3 p (link_next_update (\<lambda>_. Some p2))) (\<lambda>h4.
               rbind (num_add h4 hp 1) (\<lambda>h5. Inr (0, h5)))))))))"

text \<open>The loop of \<open>link_deque\<close>: the last link and the one before it.\<close>

fun last_two :: "nat \<Rightarrow> link_heap \<Rightarrow> addr \<Rightarrow> addr \<Rightarrow> (addr \<times> addr) res" where
  "last_two 0 h p2 p = Inl Diverges"
| "last_two (Suc n) h p2 p =
     rbind (load h p) (\<lambda>l. (case link_next l of None \<Rightarrow> Inr (p2, p) | Some q \<Rightarrow> last_two n h p q))"

definition link_deque :: "link_heap \<Rightarrow> ptr \<Rightarrow> (ptr \<times> link_heap) res" where
  "link_deque h head =
     (case head of
        None \<Rightarrow> Inr (None, h)
      | Some hp \<Rightarrow>
          rbind (load h hp) (\<lambda>l.
            (case link_next l of
               None \<Rightarrow> Inr (None, h)
             | Some p0 \<Rightarrow>
                 rbind (last_two (Suc (fresh h)) h hp p0) (\<lambda>(p2, p).
                 rbind (load h p) (\<lambda>lp.
                 rbind (modify h p2 (link_next_update (\<lambda>_. link_next lp))) (\<lambda>h1.
                 rbind (free_link h1 p) (\<lambda>h2.
                 rbind (num_add h2 hp (-1)) (\<lambda>h3. Inr (link_ptr lp, h3)))))))))"

text \<open>\<open>link_find\<close> and \<open>link_rm\<close> read \<open>head->next\<close> without a NULL check.\<close>

fun find_from :: "nat \<Rightarrow> link_heap \<Rightarrow> ptr \<Rightarrow> ptr \<Rightarrow> ptr res" where
  "find_from 0 h p el = Inl Diverges"
| "find_from (Suc n) h p el =
     (case p of
        None \<Rightarrow> Inr None
      | Some a \<Rightarrow>
          rbind (load h a) (\<lambda>l. if link_ptr l = el then Inr (link_ptr l) else find_from n h (link_next l) el))"

definition link_find :: "link_heap \<Rightarrow> ptr \<Rightarrow> ptr \<Rightarrow> ptr res" where
  "link_find h head el =
     rbind (nonnull head) (\<lambda>hp. rbind (load h hp) (\<lambda>l. find_from (Suc (fresh h)) h (link_next l) el))"

fun rm_from :: "nat \<Rightarrow> link_heap \<Rightarrow> addr \<Rightarrow> addr \<Rightarrow> ptr \<Rightarrow> ptr \<Rightarrow> (ptr \<times> link_heap) res" where
  "rm_from 0 h hp t p val = Inl Diverges"
| "rm_from (Suc n) h hp t p val =
     (case p of
        None \<Rightarrow> Inr (None, h)
      | Some a \<Rightarrow>
          rbind (load h a) (\<lambda>l.
            if link_ptr l = val
            then rbind (modify h t (link_next_update (\<lambda>_. link_next l))) (\<lambda>h1.
                 rbind (free_link h1 a) (\<lambda>h2.
                 rbind (num_add h2 hp (-1)) (\<lambda>h3. Inr (link_ptr l, h3))))
            else rm_from n h hp a (link_next l) val))"

definition link_rm :: "link_heap \<Rightarrow> ptr \<Rightarrow> ptr \<Rightarrow> (ptr \<times> link_heap) res" where
  "link_rm h head val =
     rbind (nonnull head) (\<lambda>hp. rbind (load h hp) (\<lambda>l.
       rm_from (Suc (fresh h)) h hp hp (link_next l) val))"

text \<open>
  \<open>link_free\<close>: \<open>while (link_pop(head)) head->num--;\<close> stops at the first NULL that \<open>link_pop\<close>
  returns, which is a stored NULL as well as the end of the list.
\<close>

fun free_loop :: "nat \<Rightarrow> link_heap \<Rightarrow> addr \<Rightarrow> link_heap res" where
  "free_loop 0 h hp = Inl Diverges"
| "free_loop (Suc n) h hp =
     rbind (link_pop h (Some hp)) (\<lambda>(t, h1).
       (case t of None \<Rightarrow> Inr h1 | Some _ \<Rightarrow> rbind (num_add h1 hp (-1)) (\<lambda>h2. free_loop n h2 hp)))"

definition link_free :: "link_heap \<Rightarrow> ptr \<Rightarrow> link_heap res" where
  "link_free h head =
     (case head of
        None \<Rightarrow> Inr h
      | Some hp \<Rightarrow> rbind (free_loop (Suc (fresh h)) h hp) (\<lambda>h1. free_link h1 hp))"

declare last_link.simps [simp del] last_two.simps [simp del] find_from.simps [simp del]
  rm_from.simps [simp del] free_loop.simps [simp del]

section \<open>From cells to sequences\<close>

text \<open>
  \<open>seg m p as xs q\<close>: from \<open>p\<close>, the links at the addresses \<open>as\<close> hold the pointers \<open>xs\<close>, and the
  last one's \<open>next\<close> is \<open>q\<close>.
\<close>

fun seg :: "(addr \<rightharpoonup> link) \<Rightarrow> ptr \<Rightarrow> addr list \<Rightarrow> ptr list \<Rightarrow> ptr \<Rightarrow> bool" where
  "seg m p [] xs q = (p = q \<and> xs = [])"
| "seg m p (a # as) xs q =
     (p = Some a \<and> (\<exists>l ys. m a = Some l \<and> xs = link_ptr l # ys \<and> seg m (link_next l) as ys q))"

text \<open>
  The head at \<open>hp\<close> owns the links at \<open>as\<close>, which hold \<open>xs\<close>; its own \<open>ptr\<close> is NULL and its \<open>num\<close>
  counts them. \<open>heap_ok\<close> says that new addresses are new.
\<close>

definition link_rep :: "link_heap \<Rightarrow> addr \<Rightarrow> addr list \<Rightarrow> ptr list \<Rightarrow> bool" where
  "link_rep h hp as xs \<longleftrightarrow>
     distinct (hp # as) \<and> seg (cells h) (Some hp) (hp # as) (None # xs) None \<and>
     (\<exists>l. cells h hp = Some l \<and> link_num l = int (length xs))"

definition heap_ok :: "link_heap \<Rightarrow> bool" where
  "heap_ok h \<longleftrightarrow> dom (cells h) \<subseteq> {..<fresh h}"

text \<open>What an operation on one list leaves alone: every other cell in use.\<close>

definition same_outside :: "addr set \<Rightarrow> link_heap \<Rightarrow> link_heap \<Rightarrow> bool" where
  "same_outside A h h' \<longleftrightarrow> (\<forall>a \<in> dom (cells h) - A. cells h' a = cells h a) \<and> fresh h \<le> fresh h'"

lemma seg_append [simp]:
  "seg m p (as @ bs) xs q \<longleftrightarrow>
     (\<exists>r ys zs. xs = ys @ zs \<and> seg m p as ys r \<and> seg m r bs zs q)"
  by (induction as arbitrary: p xs) (auto, metis append_Cons, blast)

lemma seg_length: "seg m p as xs q \<Longrightarrow> length xs = length as"
  by (induction as arbitrary: p xs) auto

lemma seg_dom: "seg m p as xs q \<Longrightarrow> set as \<subseteq> dom m"
  by (induction as arbitrary: p xs) auto

lemma seg_cong:
  "seg m p as xs q \<Longrightarrow> (\<And>a. a \<in> set as \<Longrightarrow> m' a = m a) \<Longrightarrow> seg m' p as xs q"
  by (induction as arbitrary: p xs) auto

lemma seg_upd_other [simp]: "a \<notin> set as \<Longrightarrow> seg (m(a := v)) p as xs q = seg m p as xs q"
  by (induction as arbitrary: p xs) auto

text \<open>The count of a cell is not part of the chain.\<close>

lemma seg_upd_num:
  "m a = Some l \<Longrightarrow> link_ptr l' = link_ptr l \<Longrightarrow> link_next l' = link_next l \<Longrightarrow>
   seg (m(a \<mapsto> l')) p as xs q = seg m p as xs q"
  by (induction as arbitrary: p xs) auto

lemma seg_first: "seg m (Some a) as xs None \<Longrightarrow> \<exists>bs. as = a # bs"
  by (cases as) auto

lemma link_rep_dom: "link_rep h hp as xs \<Longrightarrow> insert hp (set as) \<subseteq> dom (cells h)"
  unfolding link_rep_def using seg_dom by fastforce

lemma link_rep_length: "link_rep h hp as xs \<Longrightarrow> length as = length xs"
  unfolding link_rep_def using seg_length by fastforce

text \<open>The frame rule: a list none of whose cells changed is still the same list.\<close>

lemma link_rep_frame:
  assumes "link_rep h hp as xs" "same_outside A h h'" "insert hp (set as) \<inter> A = {}"
  shows "link_rep h' hp as xs"
proof -
  have same: "a \<in> insert hp (set as) \<Longrightarrow> cells h' a = cells h a" for a
    using link_rep_dom [OF assms(1)] assms(2,3) unfolding same_outside_def by blast
  have "seg (cells h') (Some hp) (hp # as) (None # xs) None"
    by (rule seg_cong [of "cells h"]) (use assms(1) same in \<open>auto simp: link_rep_def\<close>)
  then show ?thesis using assms(1) same [of hp] by (simp add: link_rep_def)
qed

text \<open>Distinct addresses in use are at most \<open>fresh\<close> many: the fuel of the walks is enough.\<close>

lemma addresses_bound:
  assumes "heap_ok h" "set as \<subseteq> dom (cells h)" "distinct as"
  shows "length as \<le> fresh h"
proof -
  have "card (set as) \<le> card {..<fresh h}"
    using assms(1,2) by (intro card_mono) (auto simp: heap_ok_def)
  then show ?thesis using assms(3) by (simp add: distinct_card)
qed

lemma link_rep_bound:
  "heap_ok h \<Longrightarrow> link_rep h hp as xs \<Longrightarrow> Suc (length as) \<le> fresh h"
  using addresses_bound [of h "hp # as"] link_rep_dom [of h hp as xs]
  by (simp add: link_rep_def)

lemma heap_ok_fresh [simp]: "heap_ok h \<Longrightarrow> cells h (fresh h) = None"
  by (auto simp: heap_ok_def)

lemma load_Some [simp]: "cells h a = Some l \<Longrightarrow> load h a = Inr l"
  by (simp add: load_def)

lemma modify_Some [simp]:
  "cells h a = Some l \<Longrightarrow> modify h a f = Inr (h\<lparr>cells := (cells h)(a \<mapsto> f l)\<rparr>)"
  by (simp add: modify_def)

lemma num_add_Some [simp]:
  "cells h a = Some l \<Longrightarrow> int_range (link_num l + d) \<Longrightarrow>
   num_add h a d = Inr (h\<lparr>cells := (cells h)(a \<mapsto> l\<lparr>link_num := link_num l + d\<rparr>)\<rparr>)"
  by (simp add: num_add_def)

lemma free_link_Some [simp]:
  "cells h a = Some l \<Longrightarrow>
   free_link h a = Inr (h\<lparr>cells := (cells h)(a := None), room := Suc (room h)\<rparr>)"
  by (simp add: free_link_def)

section \<open>Each operation on the sequence\<close>

lemma link_make_rep:
  assumes "heap_ok h" "0 < room h"
  shows "\<exists>h'. link_make h = (Some (fresh h), h') \<and> link_rep h' (fresh h) [] [] \<and> heap_ok h' \<and>
    room h' = room h - 1 \<and> same_outside {} h h'"
  using assms
  by (auto simp: link_make_def calloc_link_def link_rep_def heap_ok_def same_outside_def
      zero_link_def)

lemma link_push_rep:
  assumes "heap_ok h" "link_rep h hp as xs" "0 < room h" "int (length xs) < INT_MAX"
  shows "\<exists>h'. link_push h (Some hp) v = Inr (0, h') \<and> link_rep h' hp (fresh h # as) (v # xs) \<and>
    heap_ok h' \<and> room h' = room h - 1 \<and> same_outside {hp} h h'"
proof -
  let ?n = "fresh h"
  from assms(2) obtain l where l: "cells h hp = Some l" "link_ptr l = None"
    "link_num l = int (length xs)" "seg (cells h) (link_next l) as xs None" "distinct (hp # as)"
    by (auto simp: link_rep_def)
  have new: "?n \<noteq> hp" "?n \<notin> set as"
    using link_rep_dom [OF assms(2)] assms(1) by (auto simp: heap_ok_def)
  have "int_range (link_num l + 1)" using assms(4) l(3) by (simp add: int_range_def INT_MIN_def)
  with l new assms(3) show ?thesis
    using assms(1)
    by (auto simp: link_push_def calloc_link_def zero_link_def link_rep_def heap_ok_def
        same_outside_def)
qed

lemma link_pop_empty: "link_rep h hp [] [] \<Longrightarrow> link_pop h (Some hp) = Inr (None, h)"
  by (auto simp: link_pop_def link_rep_def)

lemma link_pop_rep:
  assumes "heap_ok h" "link_rep h hp (a # as) (x # xs)" "int (length xs) < INT_MAX"
  shows "\<exists>h'. link_pop h (Some hp) = Inr (x, h') \<and> link_rep h' hp as xs \<and> heap_ok h' \<and>
    room h' = Suc (room h) \<and> cells h' a = None \<and> same_outside {hp, a} h h'"
proof -
  from assms(2) obtain l where l: "cells h hp = Some l" "link_ptr l = None"
    "link_num l = 1 + int (length xs)" "distinct (hp # a # as)"
    and sg: "seg (cells h) (link_next l) (a # as) (x # xs) None"
    by (auto simp: link_rep_def)
  from sg obtain la where la: "link_next l = Some a" "cells h a = Some la" "link_ptr la = x"
    "seg (cells h) (link_next la) as xs None"
    by auto
  have "int_range (link_num l - 1)" using assms(3) l(3) by (simp add: int_range_def INT_MIN_def)
  with l la show ?thesis
    using assms(1) by (auto simp: link_pop_def link_rep_def heap_ok_def same_outside_def)
qed

text \<open>The walk to the last link.\<close>

lemma last_link_seg:
  "seg (cells h) (Some a) (a # as) ys None \<Longrightarrow> length as < n \<Longrightarrow>
   last_link n h a = Inr (last (a # as))"
proof (induction as arbitrary: a ys n)
  case Nil
  then show ?case by (cases n) (auto simp: last_link.simps)
next
  case (Cons b as)
  then obtain m where n: "n = Suc m" by (cases n) auto
  from Cons.prems obtain l ys' where "cells h a = Some l" "link_next l = Some b"
    "seg (cells h) (Some b) (b # as) ys' None"
    by auto
  with Cons.IH Cons.prems(2) n show ?case by (simp add: last_link.simps)
qed

text \<open>Linking a new cell behind the last one.\<close>

lemma seg_snoc:
  assumes "seg m p (as @ [b]) xs None" "m b = Some l" "distinct (as @ [b])" "c \<notin> set (as @ [b])"
  shows "seg (m(c \<mapsto> \<lparr>link_num = n, link_ptr = v, link_next = None\<rparr>,
                b \<mapsto> l\<lparr>link_next := Some c\<rparr>)) p (as @ [b, c]) (xs @ [v]) None"
  using assms by auto

lemma link_enque_rep:
  assumes "heap_ok h" "link_rep h hp as xs" "0 < room h" "int (length xs) < INT_MAX"
  shows "\<exists>h'. link_enque h (Some hp) v = Inr (0, h') \<and> link_rep h' hp (as @ [fresh h]) (xs @ [v]) \<and>
    heap_ok h' \<and> room h' = room h - 1 \<and> same_outside (insert hp (set as)) h h'"
proof -
  let ?n = "fresh h" and ?new = "\<lparr>link_num = 0, link_ptr = v, link_next = None\<rparr>"
  define h1 where "h1 = h\<lparr>cells := (cells h)(?n \<mapsto> zero_link), fresh := Suc ?n, room := room h - 1\<rparr>"
  define h2 where "h2 = h1\<lparr>cells := (cells h1)(?n \<mapsto> ?new)\<rparr>"
  have h2: "cells h2 = (cells h)(?n \<mapsto> ?new)" "fresh h2 = Suc ?n" "room h2 = room h - 1"
    by (simp_all add: h2_def h1_def)
  have calloc: "calloc_link h = (Some ?n, h1)" "modify h1 ?n (link_ptr_update (\<lambda>_. v)) = Inr h2"
    using assms(3) by (simp_all add: calloc_link_def h1_def h2_def zero_link_def)
  obtain bs b where all: "hp # as = bs @ [b]" by (metis list.distinct(1) rev_exhaust)
  then have b: "b = last (hp # as)" by simp
  have sets: "set (bs @ [b]) = insert hp (set as)" by (metis all list.simps(15))
  have new: "?n \<notin> insert hp (set as)" "?n \<notin> set (bs @ [b])"
    using link_rep_dom [OF assms(2)] assms(1) unfolding sets by (auto simp: heap_ok_def)
  have d: "distinct (bs @ [b])" and sg: "seg (cells h) (Some hp) (bs @ [b]) (None # xs) None"
    using assms(2) [unfolded link_rep_def, THEN conjunct1]
      assms(2) [unfolded link_rep_def, THEN conjunct2, THEN conjunct1]
    by (simp_all only: flip: all)
  from sg obtain lb where lb: "cells h b = Some lb" "link_next lb = None" by auto
  from new(2) have bn: "b \<noteq> ?n" by simp
  have last: "last_link (Suc (fresh h2)) h2 hp = Inr b"
    unfolding b
    by (rule last_link_seg [of _ _ _ "None # xs"])
      (use assms(1,2) new link_rep_bound [OF assms(1,2)] in \<open>auto simp: link_rep_def h2\<close>)
  let ?m = "(cells h)(?n \<mapsto> ?new, b \<mapsto> lb\<lparr>link_next := Some ?n\<rparr>)"
  have sg2: "seg ?m (Some hp) (hp # as @ [?n]) (None # xs @ [v]) None"
    using seg_snoc [OF sg lb(1) d new(2), of 0 v] all
    by (metis append_Cons append_assoc append_Nil)
  then obtain l2 where l2: "?m hp = Some l2" "link_ptr l2 = None" by auto
  have n2: "link_num l2 = int (length xs)"
    using assms(2) l2(1) lb(1) new(1) by (auto simp: link_rep_def split: if_splits)
  then have range: "int_range (link_num l2 + 1)"
    using assms(4) by (simp add: int_range_def INT_MIN_def)
  have m: "?m = (cells h2)(b \<mapsto> lb\<lparr>link_next := Some ?n\<rparr>)" "cells h2 b = Some lb"
    "cells h2 ?n = Some ?new"
    using bn lb(1) by (simp_all add: h2)
  let ?h' = "h2\<lparr>cells := ?m(hp \<mapsto> l2\<lparr>link_num := link_num l2 + 1\<rparr>)\<rparr>"
  have run: "link_enque h (Some hp) v = Inr (0, ?h')"
    using last lb(2) bn l2(1) range m(2,3) unfolding m(1)
    by (simp add: link_enque_def calloc fun_upd_idem)
  have "link_rep ?h' hp (as @ [?n]) (xs @ [v])"
    using sg2 assms(2) new n2
    by (simp add: link_rep_def seg_upd_num [where m = ?m and a = hp, OF l2(1)] del: seg.simps seg_append)
  moreover have "heap_ok ?h'" "same_outside (insert hp (set as)) h ?h'"
    using assms(1) lb(1) link_rep_dom [OF assms(2)] sets
    by (auto simp: heap_ok_def same_outside_def h2)
  ultimately show ?thesis using run assms(3) h2 by (intro exI [of _ ?h']) simp
qed

text \<open>Cutting a cell \<open>c\<close> out behind \<open>b\<close>, as \<open>link_pop\<close>, \<open>link_deque\<close> and \<open>link_rm\<close> do.\<close>

lemma seg_unlink:
  "seg m p (bs @ b # c # cs) (ys @ x # zs) q \<Longrightarrow> length ys = Suc (length bs) \<Longrightarrow>
   m b = Some lb \<Longrightarrow> m c = Some lc \<Longrightarrow> distinct (bs @ b # c # cs) \<Longrightarrow>
   link_ptr lc = x \<and>
   seg (m(b \<mapsto> lb\<lparr>link_next := link_next lc\<rparr>, c := None)) p (bs @ b # cs) (ys @ zs) q"
proof (induction bs arbitrary: p ys)
  case Nil
  then obtain y where y: "ys = [y]" by (cases ys) auto
  with Nil show ?case by (auto intro: seg_cong)
next
  case (Cons a bs)
  then obtain y ys' where ys: "ys = y # ys'" by (cases ys) auto
  from Cons.prems(1) ys obtain l where l: "p = Some a" "m a = Some l" "y = link_ptr l"
    "seg m (link_next l) (bs @ b # c # cs) (ys' @ x # zs) q"
    by (auto simp del: seg_append)
  then have "link_ptr lc = x \<and> seg (m(b \<mapsto> lb\<lparr>link_next := link_next lc\<rparr>, c := None))
      (link_next l) (bs @ b # cs) (ys' @ zs) q"
    using Cons.prems ys by (intro Cons.IH) auto
  with l Cons.prems(5) ys show ?case by (auto intro: seg_cong simp del: seg_append)
qed

lemma link_rep_unlink:
  assumes "heap_ok h" "link_rep h hp (as @ a # as') (xs @ x # xs')" "length as = length xs"
    and la: "cells h a = Some la" and range: "int (length (xs @ xs')) < INT_MAX"
  shows "\<exists>h'. rbind (modify h (last (hp # as)) (link_next_update (\<lambda>_. link_next la)))
       (\<lambda>h1. rbind (free_link h1 a) (\<lambda>h2. rbind (num_add h2 hp (-1)) (\<lambda>h3. Inr (r, h3)))) = Inr (r, h') \<and>
     link_ptr la = x \<and> link_rep h' hp (as @ as') (xs @ xs') \<and> heap_ok h' \<and>
     room h' = Suc (room h) \<and> cells h' a = None \<and>
     same_outside (insert hp (set (as @ [a]))) h h'"
proof -
  obtain bs b where all: "hp # as = bs @ [b]" by (metis list.distinct(1) rev_exhaust)
  then have b: "last (hp # as) = b" and cat: "hp # as @ xs = bs @ b # xs" for xs
    by simp (metis all append_Cons append_Nil append_assoc)
  have len: "length as = length bs" using arg_cong [OF all, of length] by simp
  have sets: "insert hp (set as) = set (bs @ [b])" by (metis all list.simps(15))
  have dist: "distinct (bs @ b # a # as')"
    and sg: "seg (cells h) (Some hp) (bs @ b # a # as') ((None # xs) @ x # xs') None"
    using assms(2) [unfolded link_rep_def] by (simp_all only: cat append_Cons)
  from sg obtain lb where lb: "cells h b = Some lb" by auto
  let ?m = "(cells h)(b \<mapsto> lb\<lparr>link_next := link_next la\<rparr>, a := None)"
  from seg_unlink [OF sg _ lb la dist] have sg2: "link_ptr la = x"
    "seg ?m (Some hp) (hp # as @ as') (None # xs @ xs') None"
    using assms(3) len by (simp_all only: cat) simp_all
  from sg2(2) obtain l2 where l2: "?m hp = Some l2" by auto
  have "b \<noteq> a" "hp \<noteq> a" using dist assms(2) by (auto simp: link_rep_def)
  then have n2: "link_num l2 = 1 + int (length (xs @ xs'))"
    using assms(2) l2 lb by (auto simp: link_rep_def split: if_splits)
  then have "int_range (link_num l2 - 1)" using range by (simp add: int_range_def INT_MIN_def)
  let ?h' = "h\<lparr>cells := ?m(hp \<mapsto> l2\<lparr>link_num := link_num l2 - 1\<rparr>), room := Suc (room h)\<rparr>"
  have "rbind (modify h b (link_next_update (\<lambda>_. link_next la)))
       (\<lambda>h1. rbind (free_link h1 a) (\<lambda>h2. rbind (num_add h2 hp (-1)) (\<lambda>h3. Inr (r, h3)))) = Inr (r, ?h')"
    using lb la \<open>b \<noteq> a\<close> l2 \<open>int_range (link_num l2 - 1)\<close> by (simp split: if_splits)
  moreover have "link_rep ?h' hp (as @ as') (xs @ xs')"
    using sg2(2) assms(2) n2
    by (simp add: link_rep_def seg_upd_num [where m = ?m and a = hp, OF l2] del: seg.simps seg_append)
  moreover have "heap_ok ?h'" "same_outside (insert hp (set (as @ [a]))) h ?h'"
    using assms(1) lb link_rep_dom [OF assms(2)] sets by (auto simp: heap_ok_def same_outside_def)
  ultimately show ?thesis using sg2(1) \<open>hp \<noteq> a\<close> unfolding b by (intro exI [of _ ?h']) simp
qed

lemma last_two_seg:
  "seg (cells h) (Some a) (a # as) ys None \<Longrightarrow> length as < n \<Longrightarrow>
   last_two n h p2 a = Inr (last (p2 # butlast (a # as)), last (a # as))"
proof (induction as arbitrary: a p2 ys n)
  case Nil
  then show ?case by (cases n) (auto simp: last_two.simps)
next
  case (Cons b as)
  then obtain m where n: "n = Suc m" by (cases n) auto
  from Cons.prems obtain l ys' where "cells h a = Some l" "link_next l = Some b"
    "seg (cells h) (Some b) (b # as) ys' None"
    by auto
  with Cons.IH [of b ys' m a] Cons.prems(2) n show ?case by (simp add: last_two.simps)
qed

lemma link_deque_empty: "link_rep h hp [] [] \<Longrightarrow> link_deque h (Some hp) = Inr (None, h)"
  by (auto simp: link_deque_def link_rep_def)

lemma link_deque_rep:
  assumes "heap_ok h" "link_rep h hp (as @ [a]) (xs @ [x])" "int (length xs) < INT_MAX"
  shows "\<exists>h'. link_deque h (Some hp) = Inr (x, h') \<and> link_rep h' hp as xs \<and> heap_ok h' \<and>
    room h' = Suc (room h) \<and> cells h' a = None \<and> same_outside (insert hp (set (as @ [a]))) h h'"
proof -
  obtain p ps where p: "as @ [a] = p # ps" by (cases as) auto
  from assms(2) obtain l where l: "cells h hp = Some l"
    "seg (cells h) (link_next l) (as @ [a]) (xs @ [x]) None"
    by (auto simp: link_rep_def simp del: seg_append)
  with p have nx: "link_next l = Some p" by (auto simp del: seg_append)
  have "length ps < Suc (fresh h)"
    using link_rep_bound [OF assms(1,2)] p by (metis Suc_leD length_Cons less_Suc_eq_le)
  then have two: "last_two (Suc (fresh h)) h hp p = Inr (last (hp # as), a)"
    using last_two_seg [of h p ps "xs @ [x]" "Suc (fresh h)" hp] l(2) nx p
    by (metis butlast_snoc last_snoc)
  from l(2) obtain la where la: "cells h a = Some la" by auto
  have "length as = length xs" using link_rep_length [OF assms(2)] by simp
  with link_rep_unlink [OF assms(1) _ _ la, of hp as "[]" xs x "[]" x] assms(2,3)
  obtain h' where h': "rbind (modify h (last (hp # as)) (link_next_update (\<lambda>_. link_next la)))
       (\<lambda>h1. rbind (free_link h1 a) (\<lambda>h2. rbind (num_add h2 hp (-1)) (\<lambda>h3. Inr (x, h3)))) = Inr (x, h')"
    "link_ptr la = x" "link_rep h' hp as xs" "heap_ok h'" "room h' = Suc (room h)"
    "cells h' a = None" "same_outside (insert hp (set (as @ [a]))) h h'"
    by auto
  have "link_deque h (Some hp) = Inr (x, h')"
    using l(1) nx two la h'(1,2) by (simp add: link_deque_def del: last.simps)
  with h' show ?thesis by blast
qed

lemma find_from_seg:
  "seg (cells h) p as xs None \<Longrightarrow> length as < n \<Longrightarrow>
   find_from n h p el = Inr (if el \<in> set xs then el else None)"
proof (induction as arbitrary: p xs n)
  case Nil
  then show ?case by (cases n) (auto simp: find_from.simps)
next
  case (Cons a as)
  then obtain m where n: "n = Suc m" by (cases n) auto
  from Cons.prems obtain l ys where "p = Some a" "cells h a = Some l" "xs = link_ptr l # ys"
    "seg (cells h) (link_next l) as ys None"
    by auto
  with Cons.IH Cons.prems(2) n show ?case by (simp add: find_from.simps)
qed

lemma link_find_rep:
  assumes "heap_ok h" "link_rep h hp as xs"
  shows "link_find h (Some hp) el = Inr (if el \<in> set xs then el else None)"
proof -
  from assms(2) obtain l where l: "cells h hp = Some l" "seg (cells h) (link_next l) as xs None"
    by (auto simp: link_rep_def)
  then show ?thesis
    using find_from_seg [OF l(2)] link_rep_bound [OF assms] by (simp add: link_find_def)
qed

text \<open>\<open>link_rm\<close> goes to the first link that holds the pointer.\<close>

lemma rm_from_split:
  "seg (cells h) p (as @ a # as') (xs @ x # xs') None \<Longrightarrow> length as = length xs \<Longrightarrow>
   x \<notin> set xs \<Longrightarrow> length as < n \<Longrightarrow> cells h a = Some la \<Longrightarrow>
   rm_from n h hp t p x =
     rbind (modify h (last (t # as)) (link_next_update (\<lambda>_. link_next la))) (\<lambda>h1.
     rbind (free_link h1 a) (\<lambda>h2. rbind (num_add h2 hp (-1)) (\<lambda>h3. Inr (link_ptr la, h3))))"
proof (induction as arbitrary: t p xs n)
  case Nil
  then show ?case by (cases n) (auto simp: rm_from.simps)
next
  case (Cons b as)
  then obtain m y ys where n: "n = Suc m" "xs = y # ys" by (cases n; cases xs) auto
  from Cons.prems n obtain l where l: "p = Some b" "cells h b = Some l" "y = link_ptr l"
    "seg (cells h) (link_next l) (as @ a # as') (ys @ x # xs') None"
    by (auto simp del: seg_append)
  with Cons.IH [OF l(4), of m b] Cons.prems n show ?case by (auto simp: rm_from.simps)
qed

lemma rm_from_absent:
  "seg (cells h) p as xs None \<Longrightarrow> x \<notin> set xs \<Longrightarrow> length as < n \<Longrightarrow>
   rm_from n h hp t p x = Inr (None, h)"
proof (induction as arbitrary: t p xs n)
  case Nil
  then show ?case by (cases n) (auto simp: rm_from.simps)
next
  case (Cons a as)
  then obtain m where n: "n = Suc m" by (cases n) auto
  from Cons.prems obtain l ys where "p = Some a" "cells h a = Some l" "xs = link_ptr l # ys"
    "seg (cells h) (link_next l) as ys None"
    by auto
  with Cons.IH Cons.prems(2,3) n show ?case by (auto simp: rm_from.simps)
qed

lemma link_rm_absent:
  assumes "heap_ok h" "link_rep h hp as xs" "x \<notin> set xs"
  shows "link_rm h (Some hp) x = Inr (None, h)"
proof -
  from assms(2) obtain l where l: "cells h hp = Some l" "seg (cells h) (link_next l) as xs None"
    by (auto simp: link_rep_def)
  then show ?thesis
    using rm_from_absent [OF l(2) assms(3)] link_rep_bound [OF assms(1,2)]
    by (simp add: link_rm_def)
qed

lemma link_rm_rep:
  assumes "heap_ok h" "link_rep h hp (as @ a # as') (xs @ x # xs')" "length as = length xs"
    and "x \<notin> set xs" "int (length (xs @ xs')) < INT_MAX"
  shows "\<exists>h'. link_rm h (Some hp) x = Inr (x, h') \<and> link_rep h' hp (as @ as') (xs @ xs') \<and>
    heap_ok h' \<and> room h' = Suc (room h) \<and> cells h' a = None \<and>
    same_outside (insert hp (set (as @ [a]))) h h'"
proof -
  from assms(2) obtain l where l: "cells h hp = Some l"
    "seg (cells h) (link_next l) (as @ a # as') (xs @ x # xs') None"
    by (auto simp: link_rep_def simp del: seg_append)
  from seg_dom [OF l(2)] obtain la where la: "cells h a = Some la" by auto
  have "length as < Suc (fresh h)" using link_rep_bound [OF assms(1,2)] by simp
  with link_rep_unlink [OF assms(1,2,3) la assms(5), of x]
    rm_from_split [OF l(2) assms(3,4) _ la, of "Suc (fresh h)" hp hp]
  show ?thesis by (auto simp: link_rm_def l(1))
qed

section \<open>Freeing a list\<close>

text \<open>
  The chain alone, without the count: \<open>link_free\<close> decrements \<open>num\<close> twice per link (once in
  \<open>link_pop\<close>, once in its own loop), so only the chain survives its iterations.
\<close>

definition chain_rep :: "link_heap \<Rightarrow> addr \<Rightarrow> addr list \<Rightarrow> ptr list \<Rightarrow> bool" where
  "chain_rep h hp as xs \<longleftrightarrow> distinct (hp # as) \<and> seg (cells h) (Some hp) (hp # as) (None # xs) None"

lemma link_rep_chain: "link_rep h hp as xs \<Longrightarrow> chain_rep h hp as xs"
  by (simp add: link_rep_def chain_rep_def)

lemma link_pop_chain:
  assumes "chain_rep h hp (a # as) (x # xs)" "cells h hp = Some l" "int_range (link_num l - 1)"
  shows "\<exists>h'. link_pop h (Some hp) = Inr (x, h') \<and> chain_rep h' hp as xs \<and>
     (\<exists>l'. cells h' hp = Some l' \<and> link_num l' = link_num l - 1) \<and>
     cells h' a = None \<and> (\<forall>b. b \<notin> {hp, a} \<longrightarrow> cells h' b = cells h b)"
proof -
  from assms(1,2) have l: "link_ptr l = None" "hp \<noteq> a" "hp \<notin> set as" "a \<notin> set as" "distinct as"
    and sg: "seg (cells h) (link_next l) (a # as) (x # xs) None"
    by (auto simp: chain_rep_def)
  from sg obtain la where la: "link_next l = Some a" "cells h a = Some la" "link_ptr la = x"
    "seg (cells h) (link_next la) as xs None"
    by auto
  with l assms(2,3) show ?thesis by (auto simp: link_pop_def chain_rep_def)
qed

lemma link_pop_chain_empty: "chain_rep h hp [] [] \<Longrightarrow> link_pop h (Some hp) = Inr (None, h)"
  by (auto simp: link_pop_def chain_rep_def)

text \<open>
  The loop frees the links up to the first stored NULL, that link included; the links after it
  stay allocated.
\<close>

lemma free_loop_chain:
  assumes "chain_rep h hp as xs" "None \<notin> set ys" "xs = ys \<or> (\<exists>zs. xs = ys @ None # zs)"
    and "cells h hp = Some l" "link_num l \<le> INT_MAX" "INT_MIN + 2 * int (length xs) \<le> link_num l"
    and "length as < n"
  shows "\<exists>h'. free_loop n h hp = Inr h' \<and> hp \<in> dom (cells h') \<and>
     (\<forall>b \<in> set (take (Suc (length ys)) as). cells h' b = None) \<and>
     (\<forall>b. b \<notin> insert hp (set (take (Suc (length ys)) as)) \<longrightarrow> cells h' b = cells h b)"
  using assms
proof (induction ys arbitrary: h as xs l n)
  case (Nil h as xs l n)
  then obtain m where n: "n = Suc m" by (cases n) auto
  show ?case
  proof (cases "xs = []")
    case True
    with Nil.prems have "as = []" using seg_length by (fastforce simp: chain_rep_def)
    with True Nil.prems n show ?thesis
      by (auto simp: free_loop.simps link_pop_chain_empty)
  next
    case False
    with Nil.prems obtain zs where xs: "xs = None # zs" by auto
    with Nil.prems(1) obtain a as' where as: "as = a # as'"
      by (cases as) (auto simp: chain_rep_def)
    have "int_range (link_num l - 1)" using Nil.prems(5,6) xs by (simp add: int_range_def)
    from link_pop_chain [OF _ Nil.prems(4) this] Nil.prems(1) xs as
    obtain h' where "link_pop h (Some hp) = Inr (None, h')" "hp \<in> dom (cells h')"
      "cells h' a = None" "\<forall>b. b \<notin> {hp, a} \<longrightarrow> cells h' b = cells h b"
      by blast
    with n as show ?thesis by (auto simp: free_loop.simps)
  qed
next
  case (Cons y ys h as xs l n)
  then obtain m v zs where n: "n = Suc m" and y: "y = Some v" and xs: "xs = Some v # zs"
    by (cases n; cases y) auto
  with Cons.prems(1) obtain a as' where as: "as = a # as'"
    by (cases as) (auto simp: chain_rep_def)
  have range: "int_range (link_num l - 1)" "int_range (link_num l - 2)"
    using Cons.prems(5,6) xs by (simp_all add: int_range_def)
  from link_pop_chain [OF _ Cons.prems(4) range(1)] Cons.prems(1) xs as
  obtain h1 l1 where h1: "link_pop h (Some hp) = Inr (Some v, h1)" "chain_rep h1 hp as' zs"
    "cells h1 hp = Some l1" "link_num l1 = link_num l - 1" "cells h1 a = None"
    "\<forall>b. b \<notin> {hp, a} \<longrightarrow> cells h1 b = cells h b"
    by blast
  let ?l2 = "l1\<lparr>link_num := link_num l1 - 1\<rparr>"
  let ?h2 = "h1\<lparr>cells := (cells h1)(hp \<mapsto> ?l2)\<rparr>"
  have "chain_rep ?h2 hp as' zs"
    using h1(2) by (simp add: chain_rep_def seg_upd_num [where m = "cells h1" and a = hp, OF h1(3)]
        del: seg.simps)
  then have "\<exists>h'. free_loop m ?h2 hp = Inr h' \<and> hp \<in> dom (cells h') \<and>
     (\<forall>b \<in> set (take (Suc (length ys)) as'). cells h' b = None) \<and>
     (\<forall>b. b \<notin> insert hp (set (take (Suc (length ys)) as')) \<longrightarrow> cells h' b = cells ?h2 b)"
    by (rule Cons.IH [of ?h2 as' zs ?l2 m]) (use Cons.prems xs as n h1(4) in auto)
  then obtain h' where h': "free_loop m ?h2 hp = Inr h'" "hp \<in> dom (cells h')"
     "\<forall>b \<in> set (take (Suc (length ys)) as'). cells h' b = None"
     "\<forall>b. b \<notin> insert hp (set (take (Suc (length ys)) as')) \<longrightarrow> cells h' b = cells ?h2 b"
    by blast
  have "free_loop n h hp = Inr h'"
    using h1 range(2) h'(1) n by (simp add: free_loop.simps)
  moreover have "a \<noteq> hp" "a \<notin> set as'" using Cons.prems(1) as by (auto simp: chain_rep_def)
  moreover have "cells h' a = None"
    using h'(4) h1(5) \<open>a \<noteq> hp\<close> \<open>a \<notin> set as'\<close> by (auto dest: in_set_takeD)
  ultimately show ?case using h' h1(6) as by (intro exI [of _ h']) auto
qed

lemma link_free_rep:
  assumes "heap_ok h" "link_rep h hp as xs" "None \<notin> set ys" "xs = ys \<or> (\<exists>zs. xs = ys @ None # zs)"
    and "int (length xs) \<le> INT_MAX"
  shows "\<exists>h'. link_free h (Some hp) = Inr h' \<and>
     cells h' = cells h |` (- insert hp (set (take (Suc (length ys)) as)))"
proof -
  from assms(2) obtain l where l: "cells h hp = Some l" "link_num l = int (length xs)"
    by (auto simp: link_rep_def)
  have "INT_MIN + 2 * int (length xs) \<le> link_num l" "link_num l \<le> INT_MAX"
    using assms(5) l(2) by (simp_all add: INT_MIN_def INT_MAX_def)
  moreover have "length as < Suc (fresh h)" using link_rep_bound [OF assms(1,2)] by simp
  ultimately obtain h1 where h1: "free_loop (Suc (fresh h)) h hp = Inr h1" "hp \<in> dom (cells h1)"
     "\<forall>b \<in> set (take (Suc (length ys)) as). cells h1 b = None"
     "\<forall>b. b \<notin> insert hp (set (take (Suc (length ys)) as)) \<longrightarrow> cells h1 b = cells h b"
    using free_loop_chain [OF link_rep_chain [OF assms(2)] assms(3,4) l(1)] by blast
  from h1(2) obtain l1 where l1: "cells h1 hp = Some l1" by auto
  have "(cells h1)(hp := None) = cells h |` (- insert hp (set (take (Suc (length ys)) as)))"
    using h1(3,4) by (auto simp: restrict_map_def fun_eq_iff)
  then show ?thesis using h1(1) l1 by (simp add: link_free_def)
qed

section \<open>The interface: a queue with two insertions\<close>

text \<open>
  What the users of a list rely on: one insertion at the end, one at the front, and taking the
  first element. An empty list gives \<open>None\<close>.
\<close>

locale policy_queue =
  fixes rep :: "'q \<Rightarrow> 'a list \<Rightarrow> bool"
    and admits :: "'q \<Rightarrow> 'a list \<Rightarrow> bool"
    and at_end :: "'q \<Rightarrow> 'a \<Rightarrow> 'q res"
    and at_front :: "'q \<Rightarrow> 'a \<Rightarrow> 'q res"
    and take_first :: "'q \<Rightarrow> ('a option \<times> 'q) res"
  assumes at_end_law: "rep q xs \<Longrightarrow> admits q (x # zs) \<Longrightarrow>
      \<exists>q'. at_end q x = Inr q' \<and> rep q' (xs @ [x]) \<and> admits q' zs"
    and at_front_law: "rep q xs \<Longrightarrow> admits q (x # zs) \<Longrightarrow>
      \<exists>q'. at_front q x = Inr q' \<and> rep q' (x # xs) \<and> admits q' zs"
    and take_empty_law: "rep q [] \<Longrightarrow> \<exists>q'. take_first q = Inr (None, q') \<and> rep q' []"
    and take_first_law: "rep q (x # xs) \<Longrightarrow> \<exists>q'. take_first q = Inr (Some x, q') \<and> rep q' xs"

text \<open>Inserting the elements of a list one after the other, and taking \<open>n\<close> elements.\<close>

fun insert_all :: "('q \<Rightarrow> 'a \<Rightarrow> 'q res) \<Rightarrow> 'q \<Rightarrow> 'a list \<Rightarrow> 'q res" where
  "insert_all ins q [] = Inr q"
| "insert_all ins q (x # xs) = rbind (ins q x) (\<lambda>q'. insert_all ins q' xs)"

fun take_many :: "('q \<Rightarrow> ('a option \<times> 'q) res) \<Rightarrow> 'q \<Rightarrow> nat \<Rightarrow> ('a option list \<times> 'q) res" where
  "take_many tk q 0 = Inr ([], q)"
| "take_many tk q (Suc n) =
     rbind (tk q) (\<lambda>(x, q'). rbind (take_many tk q' n) (\<lambda>(xs, q''). Inr (x # xs, q'')))"

context policy_queue begin

lemma insert_all_end:
  "rep q xs \<Longrightarrow> admits q ys \<Longrightarrow> \<exists>q'. insert_all at_end q ys = Inr q' \<and> rep q' (xs @ ys)"
proof (induction ys arbitrary: q xs)
  case (Cons y ys)
  from at_end_law [OF Cons.prems] obtain q1 where q1: "at_end q y = Inr q1"
    "rep q1 (xs @ [y])" "admits q1 ys" by blast
  from Cons.IH [OF q1(2,3)] q1(1) show ?case by simp
qed simp

lemma insert_all_front:
  "rep q xs \<Longrightarrow> admits q ys \<Longrightarrow> \<exists>q'. insert_all at_front q ys = Inr q' \<and> rep q' (rev ys @ xs)"
proof (induction ys arbitrary: q xs)
  case (Cons y ys)
  from at_front_law [OF Cons.prems] obtain q1 where q1: "at_front q y = Inr q1"
    "rep q1 (y # xs)" "admits q1 ys" by blast
  from Cons.IH [OF q1(2,3)] q1(1) show ?case by simp
qed simp

lemma take_all:
  "rep q xs \<Longrightarrow> \<exists>q'. take_many take_first q (length xs) = Inr (map Some xs, q') \<and> rep q' []"
proof (induction xs arbitrary: q)
  case (Cons x xs)
  from take_first_law [OF Cons.prems] obtain q1 where q1: "take_first q = Inr (Some x, q1)" "rep q1 xs"
    by blast
  from Cons.IH [OF q1(2)] q1(1) show ?case by auto
qed simp

text \<open>First come first served, and the stack.\<close>

lemma fcfs:
  assumes "rep q []" "admits q xs"
  shows "\<exists>q'. rbind (insert_all at_end q xs) (\<lambda>q1. take_many take_first q1 (length xs)) =
    Inr (map Some xs, q') \<and> rep q' []"
  using insert_all_end [OF assms] take_all by fastforce

lemma stack:
  assumes "rep q []" "admits q xs"
  shows "\<exists>q'. rbind (insert_all at_front q xs) (\<lambda>q1. take_many take_first q1 (length xs)) =
    Inr (map Some (rev xs), q') \<and> rep q' []"
proof -
  from insert_all_front [OF assms] obtain q1 where "insert_all at_front q xs = Inr q1" "rep q1 (rev xs)"
    by auto
  with take_all [of q1 "rev xs"] show ?thesis by simp
qed

end

section \<open>The interface on link.c\<close>

text \<open>
  A list is a heap and the address of its head; its elements are the non-NULL pointers stored.
  The heap must have room for the elements and the count must stay in \<open>int\<close>.
\<close>

definition lq_rep :: "link_heap \<times> addr \<Rightarrow> addr list \<Rightarrow> bool" where
  "lq_rep q xs \<longleftrightarrow> heap_ok (fst q) \<and> int (length xs) \<le> INT_MAX \<and>
     (\<exists>as. link_rep (fst q) (snd q) as (map Some xs))"

definition lq_admits :: "link_heap \<times> addr \<Rightarrow> addr list \<Rightarrow> bool" where
  "lq_admits q xs \<longleftrightarrow> length xs \<le> room (fst q) \<and>
     (\<exists>l. cells (fst q) (snd q) = Some l \<and> link_num l + int (length xs) \<le> INT_MAX)"

definition lq_enque :: "link_heap \<times> addr \<Rightarrow> addr \<Rightarrow> (link_heap \<times> addr) res" where
  "lq_enque q x = rbind (link_enque (fst q) (Some (snd q)) (Some x)) (\<lambda>(r, h). Inr (h, snd q))"

definition lq_push :: "link_heap \<times> addr \<Rightarrow> addr \<Rightarrow> (link_heap \<times> addr) res" where
  "lq_push q x = rbind (link_push (fst q) (Some (snd q)) (Some x)) (\<lambda>(r, h). Inr (h, snd q))"

definition lq_pop :: "link_heap \<times> addr \<Rightarrow> (ptr \<times> link_heap \<times> addr) res" where
  "lq_pop q = rbind (link_pop (fst q) (Some (snd q))) (\<lambda>(x, h). Inr (x, h, snd q))"

definition lq_deque :: "link_heap \<times> addr \<Rightarrow> (ptr \<times> link_heap \<times> addr) res" where
  "lq_deque q = rbind (link_deque (fst q) (Some (snd q))) (\<lambda>(x, h). Inr (x, h, snd q))"

lemma lq_repE:
  assumes "lq_rep q xs"
  obtains as where "heap_ok (fst q)" "link_rep (fst q) (snd q) as (map Some xs)"
    "int (length xs) \<le> INT_MAX"
  using assms by (auto simp: lq_rep_def)

lemma link_rep_num: "link_rep h hp as xs \<Longrightarrow> \<exists>l. cells h hp = Some l \<and> link_num l = int (length xs)"
  by (simp add: link_rep_def)

lemma lq_room:
  assumes "lq_rep q xs" "lq_admits q (x # zs)"
  shows "0 < room (fst q)" "int (length xs) + 1 + int (length zs) \<le> INT_MAX"
    "length zs \<le> room (fst q) - 1"
  using assms by (auto simp: lq_rep_def lq_admits_def link_rep_def)

lemma lq_afterI:
  assumes "heap_ok h'" "link_rep h' hp as (map Some ys)" "room h' = r"
    and "int (length ys) + int (length zs) \<le> INT_MAX" "length zs \<le> r"
  shows "lq_rep (h', hp) ys \<and> lq_admits (h', hp) zs"
  using assms link_rep_num [OF assms(2)] by (auto simp: lq_rep_def lq_admits_def)

lemma lq_enque_law:
  assumes "lq_rep q xs" "lq_admits q (x # zs)"
  shows "\<exists>q'. lq_enque q x = Inr q' \<and> lq_rep q' (xs @ [x]) \<and> lq_admits q' zs"
proof -
  note num = lq_room [OF assms]
  from assms(1) obtain as where as: "heap_ok (fst q)" "link_rep (fst q) (snd q) as (map Some xs)"
    by (rule lq_repE)
  from link_enque_rep [OF as num(1), of "Some x"] num(2) obtain h' as' where h':
    "link_enque (fst q) (Some (snd q)) (Some x) = Inr (0, h')"
    "link_rep h' (snd q) as' (map Some (xs @ [x]))" "heap_ok h'" "room h' = room (fst q) - 1"
    by auto
  then have "lq_rep (h', snd q) (xs @ [x]) \<and> lq_admits (h', snd q) zs"
    using num by (intro lq_afterI [OF h'(3,2,4)]) auto
  with h'(1) show ?thesis by (simp add: lq_enque_def)
qed

lemma lq_push_law:
  assumes "lq_rep q xs" "lq_admits q (x # zs)"
  shows "\<exists>q'. lq_push q x = Inr q' \<and> lq_rep q' (x # xs) \<and> lq_admits q' zs"
proof -
  note num = lq_room [OF assms]
  from assms(1) obtain as where as: "heap_ok (fst q)" "link_rep (fst q) (snd q) as (map Some xs)"
    by (rule lq_repE)
  from link_push_rep [OF as num(1), of "Some x"] num(2) obtain h' as' where h':
    "link_push (fst q) (Some (snd q)) (Some x) = Inr (0, h')"
    "link_rep h' (snd q) as' (map Some (x # xs))" "heap_ok h'" "room h' = room (fst q) - 1"
    by auto
  then have "lq_rep (h', snd q) (x # xs) \<and> lq_admits (h', snd q) zs"
    using num by (intro lq_afterI [OF h'(3,2,4)]) auto
  with h'(1) show ?thesis by (simp add: lq_push_def)
qed

lemma lq_pop_empty: "lq_rep q [] \<Longrightarrow> lq_pop q = Inr (None, q)"
  using link_pop_empty link_rep_length by (fastforce simp: lq_rep_def lq_pop_def)

lemma lq_deque_empty: "lq_rep q [] \<Longrightarrow> lq_deque q = Inr (None, q)"
  using link_deque_empty link_rep_length by (fastforce simp: lq_rep_def lq_deque_def)

lemma lq_pop_law:
  assumes "lq_rep q (x # xs)"
  shows "\<exists>q'. lq_pop q = Inr (Some x, q') \<and> lq_rep q' xs"
proof -
  from assms obtain as where as: "heap_ok (fst q)" "link_rep (fst q) (snd q) as (map Some (x # xs))"
    "int (length (x # xs)) \<le> INT_MAX"
    by (rule lq_repE)
  then obtain a as' where "as = a # as'" using link_rep_length by (cases as) fastforce+
  with link_pop_rep [OF as(1), of "snd q" a as' "Some x" "map Some xs"] as obtain h' where
    "link_pop (fst q) (Some (snd q)) = Inr (Some x, h')" "link_rep h' (snd q) as' (map Some xs)"
    "heap_ok h'"
    by auto
  with as(3) show ?thesis by (auto simp: lq_pop_def lq_rep_def)
qed

lemma lq_deque_law:
  assumes "lq_rep q (xs @ [x])"
  shows "\<exists>q'. lq_deque q = Inr (Some x, q') \<and> lq_rep q' xs"
proof -
  from assms obtain as where as: "heap_ok (fst q)"
    "link_rep (fst q) (snd q) as (map Some xs @ [Some x])" "int (length (xs @ [x])) \<le> INT_MAX"
    by (auto elim: lq_repE)
  then have "as \<noteq> []" using link_rep_length by fastforce
  then obtain as' a where "as = as' @ [a]" by (metis rev_exhaust)
  with link_deque_rep [OF as(1), of "snd q" as' a "map Some xs" "Some x"] as obtain h' where
    "link_deque (fst q) (Some (snd q)) = Inr (Some x, h')" "link_rep h' (snd q) as' (map Some xs)"
    "heap_ok h'"
    by auto
  with as(3) show ?thesis by (auto simp: lq_deque_def lq_rep_def)
qed

text \<open>
  Taking with \<open>link_pop\<close>, \<open>link_enque\<close> gives the queue and \<open>link_push\<close> the stack. Taking with
  \<open>link_deque\<close>, which removes the last link, the two change places.
\<close>

interpretation lq: policy_queue lq_rep lq_admits lq_enque lq_push lq_pop
proof unfold_locales
  show "lq_rep q [] \<Longrightarrow> \<exists>q'. lq_pop q = Inr (None, q') \<and> lq_rep q' []" for q
    using lq_pop_empty by blast
qed (fact lq_enque_law lq_push_law lq_pop_law)+

interpretation lq_back: policy_queue "\<lambda>q xs. lq_rep q (rev xs)" lq_admits lq_push lq_enque lq_deque
proof unfold_locales
  fix q :: "link_heap \<times> addr" and xs x zs
  assume a: "lq_rep q (rev xs)" "lq_admits q (x # zs)"
  show "\<exists>q'. lq_push q x = Inr q' \<and> lq_rep q' (rev (xs @ [x])) \<and> lq_admits q' zs"
    using lq_push_law [OF a] by simp
  show "\<exists>q'. lq_enque q x = Inr q' \<and> lq_rep q' (rev (x # xs)) \<and> lq_admits q' zs"
    using lq_enque_law [OF a] by simp
next
  fix q :: "link_heap \<times> addr" and xs x
  show "lq_rep q (rev []) \<Longrightarrow> \<exists>q'. lq_deque q = Inr (None, q') \<and> lq_rep q' (rev [])"
    using lq_deque_empty by fastforce
  show "lq_rep q (rev (x # xs)) \<Longrightarrow> \<exists>q'. lq_deque q = Inr (Some x, q') \<and> lq_rep q' (rev xs)"
    using lq_deque_law by simp
qed

section \<open>Properties\<close>

lemma lq_rep_make:
  assumes "heap_ok h" "length xs < room h" "int (length xs) \<le> INT_MAX" "link_make h = (Some a, h1)"
  shows "lq_rep (h1, a) [] \<and> lq_admits (h1, a) xs"
  using assms link_make_rep [of h] link_rep_num by (fastforce simp: lq_rep_def lq_admits_def)

definition demo_heap :: link_heap where
  "demo_heap = \<lparr>cells = Map.empty, fresh = 1, room = 5\<rparr>"

lemma heap_ok_demo: "heap_ok demo_heap"
  by (simp add: heap_ok_def demo_heap_def)

lemma demo_room: "length xs < 5 \<Longrightarrow> length xs < room demo_heap"
  by (simp add: demo_heap_def)

definition demo_list :: "link_heap \<times> addr" where
  "demo_list = (snd (link_make demo_heap), 1)"

lemma demo_make: "link_make demo_heap = (Some 1, fst demo_list)"
  by (simp add: link_make_def calloc_link_def demo_heap_def demo_list_def)

text \<open>C12. On a list fresh from link_make, enqueuing pointers with link_enque and taking them back
  with link_pop returns them in the order they were enqueued, with no fault, and leaves the list
  empty: the first come first served policy.\<close>

theorem link_first_come_first_served:
  assumes "heap_ok h" "length xs < room h" "int (length xs) \<le> INT_MAX" "link_make h = (Some a, h1)"
  shows "\<exists>q. rbind (insert_all lq_enque (h1, a) xs) (\<lambda>q1. take_many lq_pop q1 (length xs)) =
    Inr (map Some xs, q) \<and> lq_rep q []"
  using lq_rep_make [OF assms] by (intro lq.fcfs) blast+

theorem link_first_come_first_served_witness:
  "\<exists>q. rbind (insert_all lq_enque (fst demo_list, 1) [70, 80, 90])
     (\<lambda>q1. take_many lq_pop q1 (length [70::addr, 80, 90])) =
    Inr (map Some [70, 80, 90], q) \<and> lq_rep q []"
  by (rule link_first_come_first_served [OF heap_ok_demo demo_room _ demo_make])
    (simp_all add: INT_MAX_def)

text \<open>Taking with link_deque removes the last link: after link_push the elements come back in
  the order they were pushed, and after link_enque in the reverse order, as the comment in
  link.c says of deque and push.\<close>

theorem link_deque_order:
  assumes "heap_ok h" "length xs < room h" "int (length xs) \<le> INT_MAX" "link_make h = (Some a, h1)"
  shows "(\<exists>q. rbind (insert_all lq_push (h1, a) xs) (\<lambda>q1. take_many lq_deque q1 (length xs)) =
      Inr (map Some xs, q) \<and> lq_rep q []) \<and>
    (\<exists>q. rbind (insert_all lq_enque (h1, a) xs) (\<lambda>q1. take_many lq_deque q1 (length xs)) =
      Inr (map Some (rev xs), q) \<and> lq_rep q [])"
  using lq_back.fcfs [of "(h1, a)" xs] lq_back.stack [of "(h1, a)" xs] lq_rep_make [OF assms]
  by simp

theorem link_deque_order_witness:
  "\<exists>q. rbind (insert_all lq_push (fst demo_list, 1) [70, 80])
     (\<lambda>q1. take_many lq_deque q1 (length [70::addr, 80])) =
    Inr (map Some [70, 80], q) \<and> lq_rep q []"
  by (rule link_deque_order [OF heap_ok_demo demo_room _ demo_make, THEN conjunct1])
    (simp_all add: INT_MAX_def)

text \<open>C13. link_rm of a stored pointer removes its first occurrence, frees exactly that link,
  decrements the count, returns the pointer, and leaves every list that shares no cell with
  this one as it was; of a pointer that is not stored it changes nothing and returns NULL.\<close>

theorem link_rm_correct:
  assumes "heap_ok h" "link_rep h hp as xs" "int (length xs) \<le> INT_MAX"
    and "link_rep h hp2 bs zs" "insert hp (set as) \<inter> insert hp2 (set bs) = {}"
  shows "\<exists>r h' as'. link_rm h (Some hp) x = Inr (r, h') \<and> link_rep h' hp as' (remove1 x xs) \<and>
    r = (if x \<in> set xs then x else None) \<and> heap_ok h' \<and> link_rep h' hp2 bs zs \<and>
    room h' = room h + (length xs - length (remove1 x xs))"
proof (cases "x \<in> set xs")
  case False
  then show ?thesis
    using link_rm_absent [OF assms(1,2) False] assms by (auto simp: remove1_idem)
next
  case True
  then obtain ys ws where xs: "xs = ys @ x # ws" "x \<notin> set ys" by (meson split_list_first)
  then have n: "length ys < length as" using link_rep_length [OF assms(2)] by simp
  obtain as1 a as2 where as: "as = as1 @ a # as2" "length as1 = length ys"
    using id_take_nth_drop [OF n] n by (metis length_take min.absorb4)
  from assms(3) xs have "int (length (ys @ ws)) < INT_MAX" by simp
  from link_rm_rep [OF assms(1) assms(2) [unfolded xs(1) as(1)] as(2) xs(2) this]
  obtain h' where h': "link_rm h (Some hp) x = Inr (x, h')" "link_rep h' hp (as1 @ as2) (ys @ ws)"
    "heap_ok h'" "room h' = Suc (room h)" "same_outside (insert hp (set (as1 @ [a]))) h h'"
    by blast
  have "link_rep h' hp2 bs zs"
    using assms(5) as(1) by (intro link_rep_frame [OF assms(4) h'(5)]) auto
  moreover have rem: "remove1 x xs = ys @ ws" using xs by (simp add: remove1_append)
  moreover have "room h' = room h + (length xs - length (ys @ ws))" using h'(4) xs(1) by simp
  ultimately show ?thesis unfolding rem using h'(1-3) True by auto
qed

text \<open>link_free on a list with no stored NULL frees every link and the head and nothing else; a
  stored NULL ends its loop early, so the links behind it stay allocated.\<close>

theorem link_free_correct:
  assumes "heap_ok h" "link_rep h hp as xs" "int (length xs) \<le> INT_MAX"
  shows "(None \<notin> set xs \<longrightarrow>
      (\<exists>h'. link_free h (Some hp) = Inr h' \<and> cells h' = cells h |` (- insert hp (set as)))) \<and>
    (\<forall>ys zs. xs = ys @ None # zs \<and> None \<notin> set ys \<longrightarrow>
      (\<exists>h'. link_free h (Some hp) = Inr h' \<and>
        (\<forall>a \<in> set (drop (Suc (length ys)) as). cells h' a = cells h a \<and> cells h' a \<noteq> None)))"
proof (intro conjI impI allI)
  assume "None \<notin> set xs"
  with link_free_rep [OF assms(1,2), of xs] assms(3) link_rep_length [OF assms(2)]
  show "\<exists>h'. link_free h (Some hp) = Inr h' \<and> cells h' = cells h |` (- insert hp (set as))"
    by simp
next
  fix ys zs assume "xs = ys @ None # zs \<and> None \<notin> set ys"
  with link_free_rep [OF assms(1,2), of ys] assms(3) obtain h' where
    h': "link_free h (Some hp) = Inr h'"
    "cells h' = cells h |` (- insert hp (set (take (Suc (length ys)) as)))"
    by auto
  have "a \<notin> insert hp (set (take (Suc (length ys)) as)) \<and> cells h a \<noteq> None"
    if "a \<in> set (drop (Suc (length ys)) as)" for a
  proof -
    have d: "distinct as" "hp \<notin> set as" using assms(2) by (simp_all add: link_rep_def)
    from that have "a \<in> set as" by (rule in_set_dropD)
    moreover have "a \<notin> set (take (Suc (length ys)) as)"
      using that set_take_disj_set_drop_if_distinct [OF d(1) le_refl] by blast
    ultimately show ?thesis using d(2) link_rep_dom [OF assms(2)] by blast
  qed
  with h' show "\<exists>h'. link_free h (Some hp) = Inr h' \<and>
      (\<forall>a \<in> set (drop (Suc (length ys)) as). cells h' a = cells h a \<and> cells h' a \<noteq> None)"
    by (intro exI [of _ h']) simp
qed

text \<open>Two concrete lists on one heap for the witnesses: one that stores a NULL, one empty.\<close>

definition two_lists :: link_heap where
  "two_lists = \<lparr>cells = [1 \<mapsto> \<lparr>link_num = 3, link_ptr = None, link_next = Some 2\<rparr>,
     2 \<mapsto> \<lparr>link_num = 0, link_ptr = Some 70, link_next = Some 3\<rparr>,
     3 \<mapsto> \<lparr>link_num = 0, link_ptr = None, link_next = Some 4\<rparr>,
     4 \<mapsto> \<lparr>link_num = 0, link_ptr = Some 90, link_next = None\<rparr>,
     5 \<mapsto> zero_link], fresh = 6, room = 0\<rparr>"

lemma two_lists_ok:
  "heap_ok two_lists" "link_rep two_lists 1 [2, 3, 4] [Some 70, None, Some 90]"
  "link_rep two_lists 5 [] []"
  by (simp_all add: heap_ok_def link_rep_def two_lists_def zero_link_def)

theorem link_rm_correct_witness:
  "\<exists>r h' as'. link_rm two_lists (Some 1) (Some 90) = Inr (r, h') \<and> r = Some 90 \<and>
    link_rep h' 1 as' [Some 70, None] \<and> link_rep h' 5 [] []"
  using link_rm_correct [OF two_lists_ok(1,2) _ two_lists_ok(3), of "Some 90"]
  by (auto simp: INT_MAX_def)

theorem link_free_correct_witness:
  "\<exists>h'. link_free two_lists (Some 1) = Inr h' \<and> cells h' 4 = cells two_lists 4 \<and> cells h' 4 \<noteq> None"
proof -
  have "int (length [Some (70::addr), None, Some 90]) \<le> INT_MAX" by (simp add: INT_MAX_def)
  from link_free_correct [OF two_lists_ok(1,2) this, THEN conjunct2, THEN spec, THEN spec,
      of "[Some 70]" "[Some 90]"]
  show ?thesis by auto
qed

end
