(* ===== verification/DList.thy ===== *)
theory DList
  imports Link
begin

text \<open>
  The circular, doubly linked list of \<open>src/lib/list.c\<close>, on a heap of its nodes. The elements are
  nodes themselves, allocated by the caller; the head is a node too. The operations are shown to
  satisfy the same queue and stack interface as the list of \<open>link.c\<close>.
\<close>

section \<open>Nodes and the heap\<close>

record list_node =
  nd_forw :: ptr
  nd_back :: ptr
  list_num :: int
  list_name :: "string option"

record node_heap =
  nodes :: "addr \<rightharpoonup> list_node"
  node_fresh :: addr

definition get_node :: "node_heap \<Rightarrow> ptr \<Rightarrow> list_node res" where
  "get_node h p = rbind (nonnull p) (\<lambda>a. case nodes h a of None \<Rightarrow> Inl Dangling | Some n \<Rightarrow> Inr n)"

definition put_node :: "node_heap \<Rightarrow> ptr \<Rightarrow> (list_node \<Rightarrow> list_node) \<Rightarrow> node_heap res" where
  "put_node h p f =
     rbind (nonnull p) (\<lambda>a. case nodes h a of
       None \<Rightarrow> Inl Dangling | Some n \<Rightarrow> Inr (h\<lparr>nodes := (nodes h)(a \<mapsto> f n)\<rparr>))"

definition free_node :: "node_heap \<Rightarrow> addr \<Rightarrow> node_heap res" where
  "free_node h a = (case nodes h a of
     None \<Rightarrow> Inl Dangling | Some _ \<Rightarrow> Inr (h\<lparr>nodes := (nodes h)(a := None)\<rparr>))"

definition assert_ptrs :: "ptr list \<Rightarrow> unit res" where
  "assert_ptrs ps = (if None \<in> set ps then Inl Assert_fail else Inr ())"

section \<open>The operations\<close>

text \<open>\<open>listmake\<close>: \<open>calloc\<close> and \<open>strdup\<close> succeed (their results are asserted).\<close>

definition listmake :: "node_heap \<Rightarrow> string \<Rightarrow> ptr \<times> node_heap" where
  "listmake h nm =
     (let a = node_fresh h
      in (Some a, h\<lparr>nodes := (nodes h)(a \<mapsto> \<lparr>nd_forw = Some a, nd_back = Some a, list_num = 0, list_name = Some nm\<rparr>),
                    node_fresh := Suc a\<rparr>))"

definition listinsert :: "node_heap \<Rightarrow> ptr \<Rightarrow> ptr \<Rightarrow> ptr \<Rightarrow> (int \<times> node_heap) res" where
  "listinsert hp h e e2 =
     rbind (assert_ptrs [h, e, e2]) (\<lambda>_.
     rbind (get_node hp e) (\<lambda>n0.
     rbind (put_node hp (nd_back n0) (\<lambda>n. n\<lparr>nd_forw := e2\<rparr>)) (\<lambda>hp1.
     rbind (get_node hp1 e) (\<lambda>n1.
     rbind (put_node hp1 e2 (\<lambda>n. n\<lparr>nd_back := nd_back n1\<rparr>)) (\<lambda>hp2.
     rbind (put_node hp2 e (\<lambda>n. n\<lparr>nd_back := e2\<rparr>)) (\<lambda>hp3.
     rbind (put_node hp3 e2 (\<lambda>n. n\<lparr>nd_forw := e\<rparr>)) (\<lambda>hp4.
     rbind (get_node hp4 h) (\<lambda>nh.
     rbind (c_int (list_num nh + 1)) (\<lambda>k.
     rbind (put_node hp4 h (\<lambda>n. n\<lparr>list_num := k\<rparr>)) (\<lambda>hp5. Inr (k, hp5)))))))))))"

definition listenque :: "node_heap \<Rightarrow> ptr \<Rightarrow> ptr \<Rightarrow> (int \<times> node_heap) res" where
  "listenque hp h e2 =
     rbind (assert_ptrs [h, e2]) (\<lambda>_. rbind (listinsert hp h h e2) (\<lambda>(r, hp1). Inr (0, hp1)))"

definition listpush :: "node_heap \<Rightarrow> ptr \<Rightarrow> ptr \<Rightarrow> (int \<times> node_heap) res" where
  "listpush hp h e2 =
     rbind (get_node hp h) (\<lambda>n. rbind (listinsert hp h (nd_forw n) e2) (\<lambda>(r, hp1). Inr (0, hp1)))"

definition listrm :: "node_heap \<Rightarrow> ptr \<Rightarrow> ptr \<Rightarrow> (ptr \<times> node_heap) res" where
  "listrm hp h e =
     rbind (get_node hp h) (\<lambda>nh.
       if list_num nh = 0 then Inr (None, hp)
       else
         rbind (get_node hp e) (\<lambda>n0.
         rbind (put_node hp (nd_back n0) (\<lambda>n. n\<lparr>nd_forw := nd_forw n0\<rparr>)) (\<lambda>hp1.
         rbind (get_node hp1 e) (\<lambda>n1.
         rbind (put_node hp1 (nd_forw n1) (\<lambda>n. n\<lparr>nd_back := nd_back n1\<rparr>)) (\<lambda>hp2.
         rbind (get_node hp2 h) (\<lambda>nh2.
         rbind (c_int (list_num nh2 - 1)) (\<lambda>k.
         rbind (put_node hp2 h (\<lambda>n. n\<lparr>list_num := k\<rparr>)) (\<lambda>hp3. Inr (e, hp3)))))))))"

definition listdeque :: "node_heap \<Rightarrow> ptr \<Rightarrow> (ptr \<times> node_heap) res" where
  "listdeque hp h =
     rbind (get_node hp h) (\<lambda>n.
       if nd_forw n = h then (if nd_back n = h then Inr (None, hp) else Inl Assert_fail)
       else listrm hp h (nd_forw n))"

definition listpop :: "node_heap \<Rightarrow> ptr \<Rightarrow> (ptr \<times> node_heap) res" where
  "listpop hp h = listdeque hp h"

text \<open>
  \<open>listfree\<close> frees each node, or hands it to the function it is given. The loop has fuel for one more
  turn than there are addresses.
\<close>

fun listfree_loop :: "nat \<Rightarrow> node_heap \<Rightarrow> ptr \<Rightarrow> (node_heap \<Rightarrow> addr \<Rightarrow> node_heap res) option \<Rightarrow> node_heap res" where
  "listfree_loop 0 hp h f = Inl Diverges"
| "listfree_loop (Suc n) hp h f =
     rbind (listpop hp h) (\<lambda>(l, hp1).
       case l of
         None \<Rightarrow> Inr hp1
       | Some a \<Rightarrow> rbind (case f of None \<Rightarrow> free_node hp1 a | Some g \<Rightarrow> g hp1 a) (\<lambda>hp2. listfree_loop n hp2 h f))"

definition listfree :: "node_heap \<Rightarrow> ptr \<Rightarrow> (node_heap \<Rightarrow> addr \<Rightarrow> node_heap res) option \<Rightarrow> node_heap res" where
  "listfree hp h f =
     rbind (listfree_loop (Suc (node_fresh hp)) hp h f) (\<lambda>hp1.
     rbind (get_node hp1 h) (\<lambda>n. rbind (nonnull h) (\<lambda>a. free_node hp1 a)))"

section \<open>From nodes to sequences\<close>

definition forw_of :: "node_heap \<Rightarrow> addr \<Rightarrow> ptr" where
  "forw_of h a = (case nodes h a of None \<Rightarrow> None | Some n \<Rightarrow> nd_forw n)"

definition back_of :: "node_heap \<Rightarrow> addr \<Rightarrow> ptr" where
  "back_of h a = (case nodes h a of None \<Rightarrow> None | Some n \<Rightarrow> nd_back n)"

definition edge :: "node_heap \<Rightarrow> addr \<Rightarrow> addr \<Rightarrow> bool" where
  "edge h a b \<longleftrightarrow> forw_of h a = Some b \<and> back_of h b = Some a"

definition dlist_rep :: "node_heap \<Rightarrow> addr \<Rightarrow> addr list \<Rightarrow> bool" where
  "dlist_rep h l as \<longleftrightarrow> distinct (l # as) \<and> successively (edge h) (l # as @ [l]) \<and>
     (\<exists>n. nodes h l = Some n \<and> list_num n = int (length as))"

lemma edge_nodes: "edge h a b \<Longrightarrow> (\<exists>n. nodes h a = Some n \<and> nd_forw n = Some b) \<and> (\<exists>n. nodes h b = Some n \<and> nd_back n = Some a)"
  by (auto simp: edge_def forw_of_def back_of_def split: option.splits)

lemma path_frame:
  "successively (edge h) xs \<Longrightarrow> \<forall>a \<in> set (butlast xs). forw_of h' a = forw_of h a \<Longrightarrow>
   \<forall>b \<in> set (tl xs). back_of h' b = back_of h b \<Longrightarrow> successively (edge h') xs"
proof (induction xs)
  case (Cons x xs)
  show ?case
  proof (cases xs)
    case (Cons y ys)
    with Cons.prems have e: "edge h x y" "successively (edge h) xs" by auto
    have "\<forall>b \<in> set (tl xs). back_of h' b = back_of h b" using Cons.prems(3) Cons by simp
    moreover have "\<forall>a \<in> set (butlast xs). forw_of h' a = forw_of h a" using Cons.prems(2) Cons by simp
    ultimately have "successively (edge h') xs" using Cons.IH e(2) by blast
    moreover have "edge h' x y" using e(1) Cons.prems(2,3) Cons by (simp add: edge_def)
    ultimately show ?thesis using Cons by simp
  qed simp
qed simp

text \<open>What the pointer assignments of an insertion and of a removal do, whatever of their nodes coincide.\<close>

lemma listinsert_effect:
  assumes "nodes h l = Some nl" "nodes h e = Some ne" "nd_back ne = Some p" "nodes h p = Some np" "nodes h x = Some nx"
    and "x \<notin> {l, e, p}" "int_range (list_num nl + 1)"
  shows "\<exists>h'. listinsert h (Some l) (Some e) (Some x) = Inr (list_num nl + 1, h') \<and>
    forw_of h' = (forw_of h)(p := Some x, x := Some e) \<and> back_of h' = (back_of h)(e := Some x, x := Some p) \<and>
    (\<exists>n. nodes h' l = Some n \<and> list_num n = list_num nl + 1) \<and> dom (nodes h') = dom (nodes h) \<and>
    node_fresh h' = node_fresh h"
proof -
  have ne: "x \<noteq> l" "x \<noteq> e" "x \<noteq> p" using assms(6) by auto
  show ?thesis
    using assms(1-5,7) ne
    by (cases "p = e"; cases "e = l"; cases "p = l")
      (auto simp: listinsert_def assert_ptrs_def get_node_def put_node_def forw_of_def back_of_def fun_eq_iff)
qed

lemma listrm_effect:
  assumes "nodes h l = Some nl" "nodes h e = Some ne" "nd_back ne = Some p" "nd_forw ne = Some q"
    and "nodes h p = Some np" "nodes h q = Some nq" "e \<notin> {l, p, q}" "list_num nl \<noteq> 0" "int_range (list_num nl - 1)"
  shows "\<exists>h'. listrm h (Some l) (Some e) = Inr (Some e, h') \<and>
    forw_of h' = (forw_of h)(p := Some q) \<and> back_of h' = (back_of h)(q := Some p) \<and>
    (\<exists>n. nodes h' l = Some n \<and> list_num n = list_num nl - 1) \<and> dom (nodes h') = dom (nodes h) \<and>
    node_fresh h' = node_fresh h"
proof -
  have ne: "e \<noteq> l" "e \<noteq> p" "e \<noteq> q" using assms(7) by auto
  show ?thesis
    using assms(1-6,8,9) ne
    by (cases "p = q"; cases "q = l"; cases "p = l")
      (auto simp: listrm_def get_node_def put_node_def forw_of_def back_of_def fun_eq_iff)
qed

section \<open>Insertion and removal in a represented list\<close>

lemma path_split:
  "successively P (l # xs @ ys @ [l]) \<longleftrightarrow>
   successively P (l # xs) \<and> P (last (l # xs)) (hd (ys @ [l])) \<and> successively P (ys @ [l])"
  using successively_append_iff [of P "l # xs" "ys @ [l]"] by auto

text \<open>The two ends of an edge of a circle occur once on their sides.\<close>

lemma circle_ends:
  assumes "distinct (l # xs @ ys)"
  shows "last (l # xs) \<in> set (l # xs)" "hd (ys @ [l]) \<in> insert l (set ys)"
    "last (l # xs) \<notin> set (butlast (l # xs))" "hd (ys @ [l]) \<notin> set (tl (l # xs))"
    "last (l # xs) \<notin> set (butlast (ys @ [l]))" "hd (ys @ [l]) \<notin> set (tl (ys @ [l]))"
proof -
  show "last (l # xs) \<in> set (l # xs)" by (rule last_in_set) simp
  then show "last (l # xs) \<notin> set (butlast (ys @ [l]))" using assms by auto
  show e: "hd (ys @ [l]) \<in> insert l (set ys)" by (cases ys) auto
  then show "hd (ys @ [l]) \<notin> set (tl (l # xs))" using assms by auto
  show "last (l # xs) \<notin> set (butlast (l # xs))" using assms by (cases xs rule: rev_cases) auto
  show "hd (ys @ [l]) \<notin> set (tl (ys @ [l]))" using assms by (cases ys) auto
qed

lemma listinsert_rep:
  assumes "dlist_rep h l (xs @ ys)" "nodes h x \<noteq> None" "x \<notin> set (l # xs @ ys)" "int (length (xs @ ys)) < INT_MAX"
  shows "\<exists>h'. listinsert h (Some l) (Some (hd (ys @ [l]))) (Some x) = Inr (int (length (xs @ ys)) + 1, h') \<and>
    dlist_rep h' l (xs @ x # ys) \<and> dom (nodes h') = dom (nodes h) \<and> node_fresh h' = node_fresh h"
proof -
  let ?p = "last (l # xs)" and ?e = "hd (ys @ [l])"
  from assms(1) have d: "distinct (l # xs @ ys)" and path: "successively (edge h) (l # xs)" "edge h ?p ?e"
      "successively (edge h) (ys @ [l])"
    using path_split [of "edge h" l xs ys] by (auto simp: dlist_rep_def)
  from assms(1) obtain nl where nl: "nodes h l = Some nl" "list_num nl = int (length (xs @ ys))"
    by (auto simp: dlist_rep_def)
  from edge_nodes [OF path(2)] obtain np ne where n: "nodes h ?p = Some np" "nodes h ?e = Some ne" "nd_back ne = Some ?p"
    by auto
  obtain nx where nx: "nodes h x = Some nx" using assms(2) by auto
  note ends = circle_ends [OF d]
  have x: "x \<notin> {l, ?e, ?p}" using assms(3) ends(1,2) by auto
  have "int_range (list_num nl + 1)" using nl(2) assms(4) by (simp add: int_range_simps INT_MAX_def)
  from listinsert_effect [OF nl(1) n(2,3,1) nx x this] obtain h' where
    h': "listinsert h (Some l) (Some ?e) (Some x) = Inr (list_num nl + 1, h')"
    "forw_of h' = (forw_of h)(?p := Some x, x := Some ?e)" "back_of h' = (back_of h)(?e := Some x, x := Some ?p)"
    "\<exists>n. nodes h' l = Some n \<and> list_num n = list_num nl + 1" "dom (nodes h') = dom (nodes h)"
    "node_fresh h' = node_fresh h" by blast
  have xt: "x \<notin> set (tl (ys @ [l]))" using assms(3) by (cases ys) auto
  have "successively (edge h') (l # xs)"
    by (rule path_frame [OF path(1)]) (use h'(2,3) ends(3,4) assms(3) in \<open>auto dest: in_set_butlastD\<close>)
  moreover have "successively (edge h') (ys @ [l])"
    by (rule path_frame [OF path(3)]) (use h'(2,3) ends(5,6) assms(3) xt in \<open>auto dest: in_set_butlastD\<close>)
  moreover have "edge h' ?p x" "edge h' x ?e" using h'(2,3) x by (auto simp: edge_def)
  ultimately have "successively (edge h') (l # xs @ (x # ys) @ [l])"
    unfolding path_split by (cases "ys @ [l]") auto
  then have "dlist_rep h' l (xs @ x # ys)"
    using d assms(3) h'(4) nl(2) by (auto simp: dlist_rep_def)
  with h' nl(2) show ?thesis by auto
qed

lemma listrm_rep:
  assumes "dlist_rep h l (xs @ e # ys)" "int (length (xs @ e # ys)) \<le> INT_MAX"
  shows "\<exists>h'. listrm h (Some l) (Some e) = Inr (Some e, h') \<and> dlist_rep h' l (xs @ ys) \<and>
    dom (nodes h') = dom (nodes h) \<and> node_fresh h' = node_fresh h"
proof -
  let ?p = "last (l # xs)" and ?q = "hd (ys @ [l])"
  from assms(1) have d: "distinct (l # xs @ e # ys)"
    and path: "successively (edge h) (l # xs)" "edge h ?p e" "edge h e ?q" "successively (edge h) (ys @ [l])"
    using path_split [of "edge h" l xs "e # ys"] by (auto simp: dlist_rep_def successively_Cons)
  from assms(1) obtain nl where nl: "nodes h l = Some nl" "list_num nl = int (length (xs @ e # ys))"
    by (auto simp: dlist_rep_def)
  from edge_nodes [OF path(2)] edge_nodes [OF path(3)] obtain np ne nq where
    n: "nodes h e = Some ne" "nd_back ne = Some ?p" "nd_forw ne = Some ?q" "nodes h ?p = Some np" "nodes h ?q = Some nq"
    by auto
  have d2: "distinct (l # xs @ ys)" using d by auto
  note ends = circle_ends [OF d2]
  have e: "e \<notin> {l, ?p, ?q}" using d ends(1,2) by auto
  have num: "list_num nl \<noteq> 0" "int_range (list_num nl - 1)" using nl(2) assms(2) by (simp_all add: int_range_simps INT_MAX_def)
  from listrm_effect [OF nl(1) n(1-5) e num] obtain h' where
    h': "listrm h (Some l) (Some e) = Inr (Some e, h')"
    "forw_of h' = (forw_of h)(?p := Some ?q)" "back_of h' = (back_of h)(?q := Some ?p)"
    "\<exists>n. nodes h' l = Some n \<and> list_num n = list_num nl - 1" "dom (nodes h') = dom (nodes h)"
    "node_fresh h' = node_fresh h" by blast
  have "successively (edge h') (l # xs)"
    by (rule path_frame [OF path(1)]) (use h'(2,3) ends(3,4) in \<open>auto dest: in_set_butlastD\<close>)
  moreover have "successively (edge h') (ys @ [l])"
    by (rule path_frame [OF path(4)]) (use h'(2,3) ends(5,6) in \<open>auto dest: in_set_butlastD list.set_sel(2)\<close>)
  moreover have "edge h' ?p ?q" using h'(2,3) by (auto simp: edge_def)
  ultimately have "successively (edge h') (l # xs @ ys @ [l])" unfolding path_split by blast
  then have "dlist_rep h' l (xs @ ys)" using d2 h'(4) nl(2) by (auto simp: dlist_rep_def)
  with h' show ?thesis by auto
qed

lemma dlist_rep_ends:
  assumes "dlist_rep h l as"
  shows "\<exists>n. nodes h l = Some n \<and> nd_forw n = Some (hd (as @ [l])) \<and> nd_back n = Some (last (l # as))"
proof -
  from assms path_split [of "edge h" l "[]" as] path_split [of "edge h" l as "[]"]
  have "edge h l (hd (as @ [l]))" "edge h (last (l # as)) l" by (auto simp: dlist_rep_def)
  from edge_nodes [OF this(1)] edge_nodes [OF this(2)] show ?thesis by auto
qed

lemma listdeque_empty: "dlist_rep h l [] \<Longrightarrow> listdeque h (Some l) = Inr (None, h)"
  using dlist_rep_ends [of h l "[]"] by (auto simp: listdeque_def get_node_def)

lemma listdeque_rep:
  assumes "dlist_rep h l (e # ys)" "int (length (e # ys)) \<le> INT_MAX"
  shows "\<exists>h'. listdeque h (Some l) = Inr (Some e, h') \<and> dlist_rep h' l ys \<and>
    dom (nodes h') = dom (nodes h) \<and> node_fresh h' = node_fresh h"
proof -
  from dlist_rep_ends [OF assms(1)] obtain n where "nodes h l = Some n" "nd_forw n = Some e" by auto
  moreover have "e \<noteq> l" using assms(1) by (auto simp: dlist_rep_def)
  ultimately have "listdeque h (Some l) = listrm h (Some l) (Some e)" by (simp add: listdeque_def get_node_def)
  with listrm_rep [of h l "[]" e ys] assms show ?thesis by simp
qed

section \<open>The queue interface\<close>

text \<open>The elements to insert are nodes that are allocated, different, and not in the list.\<close>

definition dq_rep :: "node_heap \<times> addr \<Rightarrow> addr list \<Rightarrow> bool" where
  "dq_rep q xs \<longleftrightarrow> dlist_rep (fst q) (snd q) xs \<and> int (length xs) \<le> INT_MAX"

definition dq_admits :: "node_heap \<times> addr \<Rightarrow> addr list \<Rightarrow> bool" where
  "dq_admits q zs \<longleftrightarrow> distinct zs \<and> set zs \<subseteq> dom (nodes (fst q)) \<and>
     (\<exists>xs. dlist_rep (fst q) (snd q) xs \<and> set zs \<inter> set (snd q # xs) = {} \<and> int (length xs + length zs) \<le> INT_MAX)"

definition dq_enque :: "node_heap \<times> addr \<Rightarrow> addr \<Rightarrow> (node_heap \<times> addr) res" where
  "dq_enque q x = rbind (listenque (fst q) (Some (snd q)) (Some x)) (\<lambda>(r, h). Inr (h, snd q))"

definition dq_push :: "node_heap \<times> addr \<Rightarrow> addr \<Rightarrow> (node_heap \<times> addr) res" where
  "dq_push q x = rbind (listpush (fst q) (Some (snd q)) (Some x)) (\<lambda>(r, h). Inr (h, snd q))"

definition dq_deque :: "node_heap \<times> addr \<Rightarrow> (ptr \<times> node_heap \<times> addr) res" where
  "dq_deque q = rbind (listdeque (fst q) (Some (snd q))) (\<lambda>(x, h). Inr (x, h, snd q))"

text \<open>A head represents one sequence only.\<close>

lemma path_unique:
  "successively (edge h) (l # as @ [e]) \<Longrightarrow> successively (edge h) (l # bs @ [e]) \<Longrightarrow>
   e \<notin> set as \<Longrightarrow> e \<notin> set bs \<Longrightarrow> as = bs"
proof (induction as arbitrary: l bs)
  case Nil
  then show ?case by (cases bs) (auto simp: edge_def)
next
  case (Cons a as)
  then obtain b bs' where b: "bs = b # bs'" by (cases bs) (auto simp: edge_def)
  with Cons.prems have "b = a" by (auto simp: edge_def)
  with Cons.IH [of a bs'] Cons.prems b show ?case by simp
qed

lemma dlist_rep_unique: "dlist_rep h l xs \<Longrightarrow> dlist_rep h l ys \<Longrightarrow> xs = ys"
  using path_unique [of h l xs l ys] by (simp add: dlist_rep_def)

lemma dq_insert_law:
  assumes "dq_rep q (xs @ ys)" "dq_admits q (x # zs)"
  shows "\<exists>r h'. listinsert (fst q) (Some (snd q)) (Some (hd (ys @ [snd q]))) (Some x) = Inr (r, h') \<and>
    dq_rep (h', snd q) (xs @ x # ys) \<and> dq_admits (h', snd q) zs"
proof -
  from assms have rep: "dlist_rep (fst q) (snd q) (xs @ ys)" by (simp add: dq_rep_def)
  from assms(2) obtain ws where ws: "dlist_rep (fst q) (snd q) ws" "distinct (x # zs)"
    "set (x # zs) \<subseteq> dom (nodes (fst q))" "set (x # zs) \<inter> set (snd q # ws) = {}"
    "int (length ws + length (x # zs)) \<le> INT_MAX" by (auto simp: dq_admits_def)
  have "ws = xs @ ys" by (rule dlist_rep_unique [OF ws(1) rep])
  with ws(2-5) have x: "nodes (fst q) x \<noteq> None" "x \<notin> set (snd q # xs @ ys)"
    "distinct (x # zs)" "set zs \<subseteq> dom (nodes (fst q))" "set zs \<inter> set (snd q # xs @ ys) = {}"
    "int (length (xs @ ys) + length (x # zs)) \<le> INT_MAX"
    by auto
  from x(6) have "int (length (xs @ ys)) < INT_MAX" by simp
  from listinsert_rep [OF rep x(1,2) this] obtain h' where h':
    "listinsert (fst q) (Some (snd q)) (Some (hd (ys @ [snd q]))) (Some x) = Inr (int (length (xs @ ys)) + 1, h')"
    "dlist_rep h' (snd q) (xs @ x # ys)" "dom (nodes h') = dom (nodes (fst q))" by blast
  have "dq_rep (h', snd q) (xs @ x # ys)" using h'(2) x(6) by (simp add: dq_rep_def)
  moreover have "dq_admits (h', snd q) zs"
    using h'(2,3) x(3-6) by (auto simp: dq_admits_def intro!: exI [of _ "xs @ x # ys"])
  ultimately show ?thesis using h'(1) by blast
qed

interpretation dq: policy_queue dq_rep dq_admits dq_enque dq_push dq_deque
proof
  fix q :: "node_heap \<times> addr" and xs x zs
  assume a: "dq_rep q xs" "dq_admits q (x # zs)"
  from dq_insert_law [of q xs "[]" x zs] a obtain r h' where
    "listinsert (fst q) (Some (snd q)) (Some (snd q)) (Some x) = Inr (r, h')"
    "dq_rep (h', snd q) (xs @ [x])" "dq_admits (h', snd q) zs" by auto
  then show "\<exists>q'. dq_enque q x = Inr q' \<and> dq_rep q' (xs @ [x]) \<and> dq_admits q' zs"
    by (simp add: dq_enque_def listenque_def assert_ptrs_def)
  from dlist_rep_ends [of "fst q" "snd q" xs] a(1) obtain n where
    n: "nodes (fst q) (snd q) = Some n" "nd_forw n = Some (hd (xs @ [snd q]))" by (auto simp: dq_rep_def)
  from dq_insert_law [of q "[]" xs x zs] a obtain r h' where
    "listinsert (fst q) (Some (snd q)) (Some (hd (xs @ [snd q]))) (Some x) = Inr (r, h')"
    "dq_rep (h', snd q) (x # xs)" "dq_admits (h', snd q) zs" by auto
  with n show "\<exists>q'. dq_push q x = Inr q' \<and> dq_rep q' (x # xs) \<and> dq_admits q' zs"
    by (simp add: dq_push_def listpush_def get_node_def)
next
  fix q :: "node_heap \<times> addr" and x xs
  show "dq_rep q [] \<Longrightarrow> \<exists>q'. dq_deque q = Inr (None, q') \<and> dq_rep q' []"
    using listdeque_empty by (fastforce simp: dq_rep_def dq_deque_def)
  show "dq_rep q (x # xs) \<Longrightarrow> \<exists>q'. dq_deque q = Inr (Some x, q') \<and> dq_rep q' xs"
    using listdeque_rep [of "fst q" "snd q" x xs] by (auto simp: dq_rep_def dq_deque_def)
qed

section \<open>Freeing a list\<close>

lemma dlist_rep_frame:
  assumes "dlist_rep h l as" "\<forall>a \<in> set (l # as). nodes h' a = nodes h a"
  shows "dlist_rep h' l as"
proof -
  have "\<forall>a \<in> set (butlast (l # as @ [l])). forw_of h' a = forw_of h a"
    "\<forall>a \<in> set (tl (l # as @ [l])). back_of h' a = back_of h a"
    using assms(2) by (auto simp: forw_of_def back_of_def dest: in_set_butlastD)
  with path_frame [of h "l # as @ [l]" h'] assms show ?thesis by (simp add: dlist_rep_def)
qed

lemma listfree_loop_rep:
  "dlist_rep h l as \<Longrightarrow> set as \<subseteq> dom (nodes h) \<Longrightarrow> int (length as) \<le> INT_MAX \<Longrightarrow> length as < n \<Longrightarrow>
   \<exists>h'. listfree_loop n h (Some l) None = Inr h' \<and> dom (nodes h') = dom (nodes h) - set as"
proof (induction as arbitrary: h n)
  case Nil
  then obtain m where "n = Suc m" by (cases n) auto
  with Nil listdeque_empty [OF Nil(1)] show ?case by (simp add: listpop_def)
next
  case (Cons e ys)
  then obtain m where n: "n = Suc m" by (cases n) auto
  from listdeque_rep [OF Cons.prems(1,3)] obtain h1 where h1: "listdeque h (Some l) = Inr (Some e, h1)"
    "dlist_rep h1 l ys" "dom (nodes h1) = dom (nodes h)" by blast
  let ?h2 = "h1\<lparr>nodes := (nodes h1)(e := None)\<rparr>"
  have e: "e \<notin> set (l # ys)" using Cons.prems(1) by (auto simp: dlist_rep_def)
  have "nodes h1 e \<noteq> None" using Cons.prems(2) h1(3) by auto
  then have step: "listfree_loop n h (Some l) None = listfree_loop m ?h2 (Some l) None"
    using h1(1) by (auto simp: n listpop_def free_node_def)
  have "dlist_rep ?h2 l ys" by (rule dlist_rep_frame [OF h1(2)]) (use e in auto)
  moreover have "set ys \<subseteq> dom (nodes ?h2)" using Cons.prems(2) h1(3) e by auto
  moreover have "int (length ys) \<le> INT_MAX" "length ys < m" using Cons.prems(3,4) n by auto
  ultimately obtain h' where "listfree_loop m ?h2 (Some l) None = Inr h'" "dom (nodes h') = dom (nodes ?h2) - set ys"
    using Cons.IH by blast
  moreover have "dom (nodes ?h2) - set ys = dom (nodes h) - set (e # ys)" using h1(3) by auto
  ultimately show ?case using step by auto
qed

definition node_heap_ok :: "node_heap \<Rightarrow> bool" where
  "node_heap_ok h \<longleftrightarrow> (\<forall>a. nodes h a \<noteq> None \<longrightarrow> a < node_fresh h)"

lemma node_count:
  assumes "node_heap_ok h" "distinct as" "set as \<subseteq> dom (nodes h)"
  shows "length as \<le> node_fresh h"
proof -
  have "set as \<subseteq> {..<node_fresh h}" using assms(1,3) by (auto simp: node_heap_ok_def)
  then have "card (set as) \<le> node_fresh h" using card_mono [of "{..<node_fresh h}" "set as"] by simp
  with distinct_card [OF assms(2)] show ?thesis by simp
qed

lemma dlist_rep_dom:
  assumes "dlist_rep h l as"
  shows "set (l # as) \<subseteq> dom (nodes h)"
proof -
  have "a \<in> dom (nodes h)" if "successively (edge h) (xs @ [z])" "a \<in> set xs" for xs a z
    using that
  proof (induction xs)
    case (Cons x xs)
    from Cons.prems(1) have "edge h x (hd (xs @ [z]))" "successively (edge h) (xs @ [z])"
      by (cases xs; simp)+
    with Cons edge_nodes [of h x] show ?case by auto
  qed simp
  from this [of "l # as" l] assms show ?thesis by (auto simp: dlist_rep_def)
qed

lemma listmake_rep:
  assumes "node_heap_ok h" "listmake h nm = (Some l, h1)"
  shows "dlist_rep h1 l [] \<and> nodes h1 = (nodes h)(l \<mapsto> the (nodes h1 l)) \<and> l \<notin> dom (nodes h) \<and> node_heap_ok h1"
  using assms by (auto simp: listmake_def Let_def dlist_rep_def edge_def forw_of_def back_of_def node_heap_ok_def
      less_Suc_eq split: if_splits)

section \<open>Properties\<close>

text \<open>The policies that the comment of \<open>list.c\<close> promises: into a new list, nodes inserted with
  listenque come out of listpop in the order they went in, and nodes inserted with listpush in the
  reverse order; in both cases the list ends empty and no fault occurs.\<close>

theorem list_policies:
  assumes "node_heap_ok h" "distinct xs" "set xs \<subseteq> dom (nodes h)" "int (length xs) \<le> INT_MAX"
    and "listmake h nm = (Some l, h1)"
  shows "(\<exists>q. rbind (insert_all dq_enque (h1, l) xs) (\<lambda>q1. take_many dq_deque q1 (length xs)) =
      Inr (map Some xs, q) \<and> dq_rep q []) \<and>
    (\<exists>q. rbind (insert_all dq_push (h1, l) xs) (\<lambda>q1. take_many dq_deque q1 (length xs)) =
      Inr (map Some (rev xs), q) \<and> dq_rep q [])"
proof -
  from listmake_rep [OF assms(1,5)] have l: "dlist_rep h1 l []" "dom (nodes h) \<subseteq> dom (nodes h1)" "l \<notin> dom (nodes h)"
    by (auto, metis domIff fun_upd_other)
  moreover from this(2) assms(3) have "set xs \<subseteq> dom (nodes h1)" by blast
  ultimately have "dq_rep (h1, l) []" "dq_admits (h1, l) xs"
    using assms(2-4) by (auto simp: dq_rep_def dq_admits_def INT_MAX_def intro!: exI [of _ "[]"])
  from dq.fcfs [OF this] dq.stack [OF this] show ?thesis by blast
qed

definition demo_nodes :: node_heap where
  "demo_nodes = \<lparr>nodes = (\<lambda>a. if a \<in> {1, 2} then Some \<lparr>nd_forw = None, nd_back = None, list_num = 0, list_name = None\<rparr> else None),
     node_fresh = 3\<rparr>"

lemma demo_nodes_ok: "node_heap_ok demo_nodes" "{1, 2} \<subseteq> dom (nodes demo_nodes)"
  by (auto simp: node_heap_ok_def demo_nodes_def split: if_splits)

theorem list_policies_witness:
  "\<exists>q. rbind (insert_all dq_push (snd (listmake demo_nodes ''q''), 3) [1, 2]) (\<lambda>q1. take_many dq_deque q1 2) =
    Inr ([Some 2, Some 1], q) \<and> dq_rep q []"
  using list_policies [of demo_nodes "[1, 2]" "''q''" 3 "snd (listmake demo_nodes ''q'')"] demo_nodes_ok
  by (simp add: INT_MAX_def listmake_def demo_nodes_def Let_def numeral_2_eq_2)

text \<open>listfree without a function frees exactly the nodes of the list and its head, and its loop ends.\<close>

theorem listfree_frees:
  assumes "node_heap_ok h" "dlist_rep h l as" "int (length as) \<le> INT_MAX"
  shows "\<exists>h'. listfree h (Some l) None = Inr h' \<and> dom (nodes h') = dom (nodes h) - insert l (set as)"
proof -
  have d: "distinct as" "l \<notin> set as" using assms(2) by (auto simp: dlist_rep_def)
  have "set as \<subseteq> dom (nodes h)" "l \<in> dom (nodes h)" using dlist_rep_dom [OF assms(2)] by auto
  with node_count [OF assms(1) d(1)] listfree_loop_rep [OF assms(2) _ assms(3), of "Suc (node_fresh h)"]
  obtain h1 where "listfree_loop (Suc (node_fresh h)) h (Some l) None = Inr h1" "dom (nodes h1) = dom (nodes h) - set as"
    by auto
  moreover from this \<open>l \<in> dom (nodes h)\<close> d(2) obtain n where "nodes h1 l = Some n" by fast
  ultimately show ?thesis by (auto simp: listfree_def get_node_def free_node_def)
qed

theorem listfree_frees_witness:
  "\<exists>h'. listfree (snd (listmake demo_nodes ''q'')) (Some 3) None = Inr h' \<and> dom (nodes h') = {1, 2}"
proof -
  have m: "listmake demo_nodes ''q'' = (Some 3, snd (listmake demo_nodes ''q''))"
    by (simp add: listmake_def demo_nodes_def Let_def)
  have r: "node_heap_ok (snd (listmake demo_nodes ''q''))" "dlist_rep (snd (listmake demo_nodes ''q'')) 3 []"
    using listmake_rep [OF demo_nodes_ok(1) m] by auto
  have "dom (nodes (snd (listmake demo_nodes ''q''))) = {1, 2, 3}"
    by (auto simp: listmake_def demo_nodes_def Let_def split: if_splits)
  moreover from listfree_frees [OF r] obtain h' where "listfree (snd (listmake demo_nodes ''q'')) (Some 3) None = Inr h'"
    "dom (nodes h') = dom (nodes (snd (listmake demo_nodes ''q''))) - insert 3 (set [])" by (auto simp: INT_MAX_def)
  ultimately show ?thesis by (intro exI [of _ h']) auto
qed

end
