(* ===== verification/C_String.thy ===== *)
theory C_String
  imports RB_Prelude
begin

text \<open>
  The routines of the C library that the sources use on characters, strings and numbers, in the
  C locale: \<open>isspace\<close>, \<open>tolower\<close>, \<open>toupper\<close>, \<open>strcasecmp\<close>, \<open>strstr\<close>, \<open>strchr\<close>, \<open>strncpy\<close>, \<open>atoi\<close>,
  the \<open>%d\<close> and \<open>%s\<close> conversions of \<open>sprintf\<close> and \<open>sscanf\<close>. A C string is its characters
  without the terminating NUL; a scanner returns the value read and the text after it, which
  carries \<open>%n\<close> (the number of characters consumed) as a difference of lengths.
\<close>

section \<open>Characters\<close>

definition isspace :: "char \<Rightarrow> bool" where
  "isspace c \<longleftrightarrow> of_char c = (32 :: nat) \<or> (9 \<le> (of_char c :: nat) \<and> (of_char c :: nat) \<le> 13)"

definition isdigit :: "char \<Rightarrow> bool" where
  "isdigit c \<longleftrightarrow> 48 \<le> (of_char c :: nat) \<and> (of_char c :: nat) \<le> 57"

definition tolower :: "char \<Rightarrow> char" where
  "tolower c = (if 65 \<le> (of_char c :: nat) \<and> (of_char c :: nat) \<le> 90
                then char_of ((of_char c :: nat) + 32) else c)"

definition toupper :: "char \<Rightarrow> char" where
  "toupper c = (if 97 \<le> (of_char c :: nat) \<and> (of_char c :: nat) \<le> 122
                then char_of ((of_char c :: nat) - 32) else c)"

abbreviation NUL :: char where "NUL \<equiv> CHR 0x00"

lemma isdigit_not_isspace [cstr_simps]: "isdigit c \<Longrightarrow> \<not> isspace c"
  by (auto simp: isdigit_def isspace_def)

section \<open>Strings\<close>

text \<open>The C string that starts at the head of a piece of memory: up to the first NUL.\<close>

definition cstr :: "char list \<Rightarrow> string" where
  "cstr mem = takeWhile (\<lambda>c. c \<noteq> NUL) mem"

lemma cstr_no_NUL [cstr_simps]: "NUL \<notin> set (cstr mem)"
  using set_takeWhileD by (fastforce simp: cstr_def)

lemma cstr_id [cstr_simps]: "NUL \<notin> set s \<Longrightarrow> cstr s = s"
  by (auto simp: cstr_def takeWhile_eq_all_conv)

lemma cstr_append_NUL [cstr_simps]: "NUL \<notin> set s \<Longrightarrow> cstr (s @ NUL # rest) = s"
  by (auto simp: cstr_def intro!: takeWhile_append_stop)

lemma length_cstr: "length (cstr mem) \<le> length mem"
  by (simp add: cstr_def length_takeWhile_le)

lemma cstr_append: "NUL \<notin> set s \<Longrightarrow> cstr (s @ mem) = s @ cstr mem"
  unfolding cstr_def by (induction s) auto

lemma cstr_Cons: "c \<noteq> NUL \<Longrightarrow> cstr (c # mem) = c # cstr mem"
  by (simp add: cstr_def)

text \<open>\<open>strcasecmp(s, t) == 0\<close>.\<close>

definition strcaseeq :: "string \<Rightarrow> string \<Rightarrow> bool" where
  "strcaseeq s t \<longleftrightarrow> map tolower s = map tolower t"

lemma strcaseeq_refl [simp]: "strcaseeq s s"
  by (simp add: strcaseeq_def)

lemma strcaseeq_sym: "strcaseeq s t \<Longrightarrow> strcaseeq t s"
  by (simp add: strcaseeq_def)

lemma strcaseeq_trans: "strcaseeq s t \<Longrightarrow> strcaseeq t u \<Longrightarrow> strcaseeq s u"
  by (simp add: strcaseeq_def)

lemma strcaseeq_excl: "strcaseeq key a \<Longrightarrow> \<not> strcaseeq a b \<Longrightarrow> \<not> strcaseeq key b"
  by (simp add: strcaseeq_def)

text \<open>\<open>strstr(s, n) != NULL\<close>.\<close>

fun strstr :: "string \<Rightarrow> string \<Rightarrow> bool" where
  "strstr [] n = (n = [])"
| "strstr (c # cs) n = (take (length n) (c # cs) = n \<or> strstr cs n)"

lemma strstr_iff: "strstr s n \<longleftrightarrow> (\<exists>a b. s = a @ n @ b)"
proof (induction s)
  case (Cons c cs)
  show ?case
  proof
    assume "strstr (c # cs) n"
    then consider "take (length n) (c # cs) = n" | a b where "cs = a @ n @ b" using Cons.IH by auto
    then show "\<exists>a b. c # cs = a @ n @ b"
    proof cases
      case 1
      then have "c # cs = [] @ n @ drop (length n) (c # cs)" by (metis append_Nil append_take_drop_id)
      then show ?thesis by blast
    next
      case (2 a b)
      then have "c # cs = (c # a) @ n @ b" by simp
      then show ?thesis by blast
    qed
  next
    assume "\<exists>a b. c # cs = a @ n @ b"
    then obtain a b where "c # cs = a @ n @ b" by blast
    then consider "c # cs = n @ b" | a' where "cs = a' @ n @ b" by (cases a) auto
    then show "strstr (c # cs) n"
    proof cases
      case 1
      then have "take (length n) (c # cs) = n" by simp
      then show ?thesis by simp
    next
      case 2
      then show ?thesis using Cons.IH by auto
    qed
  qed
qed auto

text \<open>\<open>strncpy\<close> into \<open>size\<close> bytes with the last one set to NUL afterwards keeps this much.\<close>

definition strncpy_size :: "nat \<Rightarrow> string \<Rightarrow> string" where
  "strncpy_size n s = take (n - 1) s"

section \<open>Printing a number\<close>

definition digit :: "nat \<Rightarrow> char" where
  "digit d = char_of (48 + d)"

definition digit_val :: "char \<Rightarrow> nat" where
  "digit_val c = of_char c - 48"

fun dec_nat :: "nat \<Rightarrow> string" where
  "dec_nat n = (if n < 10 then [digit n] else dec_nat (n div 10) @ [digit (n mod 10)])"

declare dec_nat.simps [simp del]

text \<open>The \<open>%d\<close> (and \<open>%ld\<close>) conversion of \<open>sprintf\<close>.\<close>

definition fmt_d :: "int \<Rightarrow> string" where
  "fmt_d i = (if i < 0 then CHR ''-'' # dec_nat (nat (- i)) else dec_nat (nat i))"

lemma isdigit_digit [simp]: "d < 10 \<Longrightarrow> isdigit (digit d)"
  by (simp add: isdigit_def digit_def)

lemma digit_val_digit [simp]: "d < 10 \<Longrightarrow> digit_val (digit d) = d"
  by (simp add: digit_val_def digit_def)

lemma dec_nat_digits [cstr_simps]: "c \<in> set (dec_nat n) \<Longrightarrow> isdigit c"
proof (induction n rule: dec_nat.induct)
  case (1 n)
  then show ?case by (subst (asm) (2) dec_nat.simps) (auto split: if_splits)
qed

lemma dec_nat_nonempty [simp]: "dec_nat n \<noteq> []"
  by (subst dec_nat.simps) simp

lemma fmt_d_nonempty [simp]: "fmt_d i \<noteq> []"
  by (simp add: fmt_d_def)

text \<open>How long a printed number is.\<close>

lemma length_dec_nat: "n < 10 ^ k \<Longrightarrow> 0 < k \<Longrightarrow> length (dec_nat n) \<le> k"
proof (induction k arbitrary: n)
  case (Suc k)
  show ?case
  proof (cases "n < 10")
    case True
    then show ?thesis by (subst dec_nat.simps) simp
  next
    case False
    with Suc.prems have "n div 10 < 10 ^ k" and "0 < k" by (auto intro: Nat.gr0I)
    then have "length (dec_nat (n div 10)) \<le> k" by (rule Suc.IH)
    with False show ?thesis by (subst dec_nat.simps) simp
  qed
qed simp

lemma length_fmt_d_int: "int_range i \<Longrightarrow> length (fmt_d i) \<le> 11"
proof -
  assume "int_range i"
  then have "nat i < 10 ^ 10" "nat (- i) < 10 ^ 10" by (auto simp: int_range_simps)
  then have "length (dec_nat (nat i)) \<le> 10" "length (dec_nat (nat (- i))) \<le> 10"
    by (auto intro!: length_dec_nat)
  then show ?thesis by (simp add: fmt_d_def)
qed

section \<open>Scanning\<close>

definition skip_space :: "string \<Rightarrow> string" where
  "skip_space s = dropWhile isspace s"

definition digits_value :: "string \<Rightarrow> nat" where
  "digits_value ds = foldl (\<lambda>a c. 10 * a + digit_val c) 0 ds"

text \<open>
  The \<open>%d\<close> conversion: white space, an optional sign, at least one digit. \<open>None\<close> is a
  conversion that fails (nothing is stored).
\<close>

definition scan_unsigned :: "string \<Rightarrow> (nat \<times> string) option" where
  "scan_unsigned s =
     (let ds = takeWhile isdigit s
      in if ds = [] then None else Some (digits_value ds, dropWhile isdigit s))"

definition scan_d :: "string \<Rightarrow> (int \<times> string) option" where
  "scan_d s =
     (case skip_space s of
        [] \<Rightarrow> None
      | c # cs \<Rightarrow>
          (if c = CHR ''-'' then map_option (\<lambda>(n, r). (- int n, r)) (scan_unsigned cs)
           else if c = CHR ''+'' then map_option (\<lambda>(n, r). (int n, r)) (scan_unsigned cs)
           else map_option (\<lambda>(n, r). (int n, r)) (scan_unsigned (c # cs))))"

text \<open>The \<open>%s\<close> conversion: white space, then at least one character that is not.\<close>

definition scan_s :: "string \<Rightarrow> (string \<times> string) option" where
  "scan_s s =
     (let w = takeWhile (\<lambda>c. \<not> isspace c) (skip_space s)
      in if w = [] then None else Some (w, dropWhile (\<lambda>c. \<not> isspace c) (skip_space s)))"

text \<open>\<open>atoi\<close>: 0 where there is no number; a value outside \<open>int\<close> is undefined behaviour.\<close>

definition atoi :: "string \<Rightarrow> int res" where
  "atoi s = (case scan_d s of None \<Rightarrow> Inr 0 | Some (n, _) \<Rightarrow> c_int n)"

lemma digits_value_snoc [simp]: "digits_value (ds @ [c]) = 10 * digits_value ds + digit_val c"
  by (simp add: digits_value_def)

lemma digits_value_dec_nat [simp]: "digits_value (dec_nat n) = n"
proof (induction n rule: dec_nat.induct)
  case (1 n)
  show ?case
  proof (cases "n < 10")
    case True
    then show ?thesis by (subst dec_nat.simps) (simp add: digits_value_def)
  next
    case False
    with 1 show ?thesis by (subst dec_nat.simps) simp
  qed
qed

text \<open>A text that does not continue a number, and one that does not continue a word.\<close>

definition no_digit_first :: "string \<Rightarrow> bool" where
  "no_digit_first s \<longleftrightarrow> s = [] \<or> \<not> isdigit (hd s)"

definition space_first :: "string \<Rightarrow> bool" where
  "space_first s \<longleftrightarrow> s = [] \<or> isspace (hd s)"

lemma no_digit_first_simps [simp]: "no_digit_first []" "no_digit_first (c # s) = (\<not> isdigit c)"
  by (simp_all add: no_digit_first_def)

lemma space_first_simps [simp]: "space_first []" "space_first (c # s) = isspace c"
  by (simp_all add: space_first_def)

lemma isspace_space [simp]: "isspace (CHR '' '')"
  by (simp add: isspace_def)

lemma space_first_no_digit: "space_first s \<Longrightarrow> no_digit_first s"
  by (cases s) (auto dest: isdigit_not_isspace)

lemma scan_unsigned_dec_nat [cstr_simps]:
  "no_digit_first rest \<Longrightarrow> scan_unsigned (dec_nat n @ rest) = Some (n, rest)"
proof -
  assume "no_digit_first rest"
  then have "takeWhile isdigit (dec_nat n @ rest) = dec_nat n"
    and "dropWhile isdigit (dec_nat n @ rest) = rest"
    using takeWhile_append_stop [of "dec_nat n" isdigit rest]
      dropWhile_append_stop [of "dec_nat n" isdigit rest] dec_nat_digits
    by (simp_all add: no_digit_first_def)
  then show ?thesis by (simp add: scan_unsigned_def Let_def)
qed

lemma dec_nat_hd: "\<exists>c cs. dec_nat n = c # cs \<and> isdigit c"
  using dec_nat_digits [of _ n] by (cases "dec_nat n") auto

lemma skip_space_blank [simp]: "isspace c \<Longrightarrow> skip_space (c # s) = skip_space s"
  by (simp add: skip_space_def)

lemma scan_d_blank [simp]: "isspace c \<Longrightarrow> scan_d (c # s) = scan_d s"
  by (simp add: scan_d_def)

lemma scan_s_blank [simp]: "isspace c \<Longrightarrow> scan_s (c # s) = scan_s s"
  by (simp add: scan_s_def Let_def)

text \<open>Scanning a printed number gives it back.\<close>

lemma scan_d_dec_nat:
  assumes "no_digit_first rest"
  shows "scan_d (dec_nat n @ rest) = Some (int n, rest)"
proof -
  obtain c cs where c: "dec_nat n = c # cs" "isdigit c" using dec_nat_hd by blast
  then have "skip_space (dec_nat n @ rest) = c # cs @ rest"
    by (simp add: skip_space_def isdigit_not_isspace)
  moreover have "c \<noteq> CHR ''-''" "c \<noteq> CHR ''+''" using c(2) by (auto simp: isdigit_def)
  ultimately show ?thesis
    using scan_unsigned_dec_nat [OF assms, of n] c by (simp add: scan_d_def)
qed

lemma scan_d_fmt_d [cstr_simps]:
  assumes "no_digit_first rest"
  shows "scan_d (fmt_d i @ rest) = Some (i, rest)"
proof (cases "i < 0")
  case True
  have "\<not> isspace (CHR ''-'')" by (simp add: isspace_def)
  with True assms show ?thesis
    by (simp add: scan_d_def fmt_d_def skip_space_def scan_unsigned_dec_nat)
next
  case False
  with assms show ?thesis by (simp add: fmt_d_def scan_d_dec_nat)
qed

text \<open>A word without white space, followed by white space or nothing, is read whole.\<close>

definition is_word :: "string \<Rightarrow> bool" where
  "is_word w \<longleftrightarrow> w \<noteq> [] \<and> (\<forall>c \<in> set w. \<not> isspace c)"

lemma scan_s_word [cstr_simps]:
  assumes "is_word w" "space_first rest"
  shows "scan_s (w @ rest) = Some (w, rest)"
proof -
  have "skip_space (w @ rest) = w @ rest"
    using assms(1) by (cases w) (auto simp: skip_space_def is_word_def)
  moreover have "takeWhile (\<lambda>c. \<not> isspace c) (w @ rest) = w"
    "dropWhile (\<lambda>c. \<not> isspace c) (w @ rest) = rest"
    using assms takeWhile_append_stop [of w "\<lambda>c. \<not> isspace c" rest]
      dropWhile_append_stop [of w "\<lambda>c. \<not> isspace c" rest]
    by (simp_all add: is_word_def space_first_def)
  ultimately show ?thesis using assms(1) by (simp add: scan_s_def is_word_def Let_def)
qed

lemma scan_s_result:
  assumes "scan_s s = Some (w, r)"
  shows "is_word w" "space_first r" "length w + length r \<le> length s" "w \<noteq> []"
proof -
  let ?P = "\<lambda>c. \<not> isspace c"
  from assms have w: "w = takeWhile ?P (skip_space s)" "r = dropWhile ?P (skip_space s)" "w \<noteq> []"
    by (auto simp: scan_s_def Let_def split: if_splits)
  then show "is_word w" by (auto simp: is_word_def dest: set_takeWhileD)
  show "w \<noteq> []" by (rule w(3))
  show "space_first r"
    using hd_dropWhile_or [of ?P "skip_space s"] w(2) by (simp add: space_first_def)
  have "length w + length r = length (skip_space s)"
    unfolding w(1,2) by (simp flip: length_append)
  also have "\<dots> \<le> length s" by (simp add: skip_space_def length_dropWhile_le)
  finally show "length w + length r \<le> length s" .
qed

end
