(* ===== verification/Ini.thy ===== *)
theory Ini
  imports C_String
begin

text \<open>
  The .ini parser of \<open>src/lib/ini.c\<close>, as this repository configures it in \<open>ini.h\<close>: lines of at most
  255 characters, no multi-line values, stop at the first error. A file is its characters; the
  handler works on a state of its own type and may fault. The locale \<open>ini_client\<close> is the contract
  between the parser and the handler it calls back.
\<close>

section \<open>Constants of ini.h and ini.c\<close>

definition INI_MAX_LINE :: nat where "INI_MAX_LINE = 256"
definition MAX_SECTION :: nat where "MAX_SECTION = 50"

section \<open>Reading lines\<close>

abbreviation newline :: char where "newline \<equiv> CHR 0x0A"

text \<open>\<open>fgets\<close>: up to \<open>n - 1\<close> characters, the newline included; \<open>None\<close> at the end of the file.\<close>

fun line_chunk :: "nat \<Rightarrow> string \<Rightarrow> string \<times> string" where
  "line_chunk 0 s = ([], s)"
| "line_chunk (Suc k) [] = ([], [])"
| "line_chunk (Suc k) (c # cs) =
     (if c = newline then ([c], cs) else (let (l, r) = line_chunk k cs in (c # l, r)))"

definition fgets :: "nat \<Rightarrow> string \<Rightarrow> (string \<times> string) option" where
  "fgets n s = (if s = [] then None else Some (line_chunk (n - 1) s))"

lemma line_chunk_append: "line_chunk k s = (l, r) \<Longrightarrow> s = l @ r"
  by (induction k s arbitrary: l r rule: line_chunk.induct) (auto split: if_splits prod.splits)

lemma line_chunk_length: "length (fst (line_chunk k s)) \<le> k"
  by (induction k s rule: line_chunk.induct) (auto split: prod.splits)

lemma line_chunk_nonempty: "0 < k \<Longrightarrow> s \<noteq> [] \<Longrightarrow> fst (line_chunk k s) \<noteq> []"
  by (cases k; cases s) (auto split: prod.splits)

lemma fgets_shorter: "fgets n s = Some (l, r) \<Longrightarrow> 1 < n \<Longrightarrow> length r < length s"
  using line_chunk_append [of "n - 1" s l r] line_chunk_nonempty [of "n - 1" s]
  by (auto simp: fgets_def split: if_splits)

lemma fgets_length: "fgets n s = Some (l, r) \<Longrightarrow> length l \<le> n - 1"
  using line_chunk_length [of "n - 1" s] by (auto simp: fgets_def split: if_splits)

text \<open>A line that fits is read whole, its newline included.\<close>

lemma line_chunk_line: "newline \<notin> set l \<Longrightarrow> length l < k \<Longrightarrow> line_chunk k (l @ newline # r) = (l @ [newline], r)"
proof (induction l arbitrary: k)
  case Nil
  then show ?case by (cases k) auto
next
  case (Cons c l)
  then show ?case by (cases k) auto
qed

section \<open>The string helpers\<close>

text \<open>
  \<open>rstrip\<close>: the pointer \<open>p\<close> moves down from the end; storing a NUL at \<open>p\<close> cuts the string there.
\<close>

fun rstrip_loop :: "string \<Rightarrow> nat \<Rightarrow> string" where
  "rstrip_loop s 0 = s"
| "rstrip_loop s (Suc p) = (if isspace (s ! p) then rstrip_loop (take p s) p else s)"

definition rstrip :: "string \<Rightarrow> string" where
  "rstrip s = rstrip_loop s (length s)"

fun lskip :: "string \<Rightarrow> string" where
  "lskip [] = []"
| "lskip (c # cs) = (if isspace c then lskip cs else c # cs)"

text \<open>\<open>find_char_or_comment\<close> as the number of characters the pointer moves.\<close>

fun find_from_ws :: "bool \<Rightarrow> string \<Rightarrow> char \<Rightarrow> nat" where
  "find_from_ws was_whitespace [] c = 0"
| "find_from_ws was_whitespace (x # xs) c =
     (if x = c \<or> (was_whitespace \<and> (x = CHR '';'' \<or> x = CHR ''#'')) then 0
      else Suc (find_from_ws (isspace x) xs c))"

definition find_char_or_comment :: "string \<Rightarrow> char \<Rightarrow> nat" where
  "find_char_or_comment s c = find_from_ws False s c"

text \<open>The character at a position of a C string; the terminating NUL at its end.\<close>

definition char_at :: "string \<Rightarrow> nat \<Rightarrow> char" where
  "char_at s i = (if i < length s then s ! i else NUL)"

text \<open>\<open>strncpy0\<close>.\<close>

definition strncpy0 :: "string \<Rightarrow> nat \<Rightarrow> string" where
  "strncpy0 src n = strncpy_size n src"

section \<open>One line\<close>

type_synonym 'u handler = "'u \<Rightarrow> string \<Rightarrow> string \<Rightarrow> string \<Rightarrow> ('u \<times> bool) res"

text \<open>
  The part of a \<open>name=value\<close> line: where the name ends, or \<open>None\<close> when there is no \<open>=\<close> or \<open>:\<close>.
\<close>

definition split_pos :: "string \<Rightarrow> nat option" where
  "split_pos start =
     (let e1 = find_char_or_comment start (CHR ''='');
          e = (if char_at start e1 \<noteq> CHR ''='' then find_char_or_comment start (CHR '':'') else e1)
      in if char_at start e = CHR ''='' \<or> char_at start e = CHR '':'' then Some e else None)"

definition value_part :: "string \<Rightarrow> nat \<Rightarrow> string" where
  "value_part start e =
     (let v = lskip (drop (e + 1) start);
          e2 = find_char_or_comment v NUL;
          v' = (if char_at v e2 = CHR '';'' \<or> char_at v e2 = CHR ''#'' then take e2 v else v)
      in rstrip v')"

text \<open>
  The body of the loop of \<open>ini_parse_file\<close>. The array \<open>section\<close> is not initialised: it is \<open>None\<close>
  until a section line has been read, and a handler that is called before reads it.
\<close>

definition ini_line :: "'u handler \<Rightarrow> 'u \<Rightarrow> string option \<Rightarrow> nat \<Rightarrow> nat \<Rightarrow> string \<Rightarrow>
    ('u \<times> string option \<times> nat) res" where
  "ini_line handler user sec lineno error line =
     (case lskip (rstrip line) of
        [] \<Rightarrow> Inr (user, sec, error)
      | c # cs \<Rightarrow>
          (if c = CHR '';'' \<or> c = CHR ''#'' then Inr (user, sec, error)
           else if c = CHR ''['' then
             (let e = find_char_or_comment cs (CHR '']'')
              in if char_at cs e = CHR '']''
                 then Inr (user, Some (strncpy0 (take e cs) MAX_SECTION), error)
                 else Inr (user, sec, if error = 0 then lineno else error))
           else
             (case split_pos (c # cs) of
                None \<Rightarrow> Inr (user, sec, if error = 0 then lineno else error)
              | Some e \<Rightarrow>
                  rbind (initialised sec) (\<lambda>s.
                  rbind (handler user s (rstrip (take e (c # cs))) (value_part (c # cs) e))
                    (\<lambda>(user', ret). Inr (user', sec, if \<not> ret \<and> error = 0 then lineno else error))))))"

section \<open>The file\<close>

function ini_loop :: "'u handler \<Rightarrow> 'u \<Rightarrow> string option \<Rightarrow> nat \<Rightarrow> nat \<Rightarrow> string \<Rightarrow> (nat \<times> 'u) res" where
  "ini_loop handler user sec lineno error content =
     (case fgets INI_MAX_LINE content of
        None \<Rightarrow> Inr (error, user)
      | Some (chunk, rest) \<Rightarrow>
          rbind (ini_line handler user sec (Suc lineno) error (cstr chunk)) (\<lambda>(user', sec', error').
            if error' \<noteq> 0 then Inr (error', user')
            else ini_loop handler user' sec' (Suc lineno) error' rest))"
  by pat_completeness auto
termination
  by (relation "measure (\<lambda>(h, u, s, l, e, content). length content)")
    (auto dest: fgets_shorter simp: INI_MAX_LINE_def)

declare ini_loop.simps [simp del]

definition ini_parse_file :: "string \<Rightarrow> 'u handler \<Rightarrow> 'u \<Rightarrow> (nat \<times> 'u) res" where
  "ini_parse_file content handler user = ini_loop handler user None 0 0 content"

text \<open>\<open>fopen\<close> gives the file or fails, and then the result is -1.\<close>

definition ini_parse :: "string option \<Rightarrow> 'u handler \<Rightarrow> 'u \<Rightarrow> (int \<times> 'u) res" where
  "ini_parse fp handler user =
     (case fp of
        None \<Rightarrow> Inr (-1, user)
      | Some f \<Rightarrow> rbind (ini_parse_file f handler user) (\<lambda>(e, u). Inr (int e, u)))"

section \<open>The helpers do what their comments say\<close>

lemma rstrip_loop_eq: "p = length s \<Longrightarrow> rstrip_loop s p = rev (dropWhile isspace (rev s))"
proof (induction s p rule: rstrip_loop.induct)
  case (2 s p)
  then have s: "s = take p s @ [s ! p]" by (metis lessI order_refl take_Suc_conv_app_nth take_all)
  then have r: "rev s = s ! p # rev (take p s)" by (metis rev_eq_Cons_iff rev_rev_ident)
  have "p = length (take p s)" using 2(2) by simp
  with 2(1) show ?case by (simp add: r s [symmetric])
qed simp

lemma rstrip_eq: "rstrip s = rev (dropWhile isspace (rev s))"
  by (simp add: rstrip_def rstrip_loop_eq)

lemma lskip_eq: "lskip s = dropWhile isspace s"
  by (induction s) auto

lemma length_rstrip: "length (rstrip s) \<le> length s"
  by (simp add: rstrip_eq) (metis length_dropWhile_le length_rev)

lemma length_lskip: "length (lskip s) \<le> length s"
  by (simp add: lskip_eq length_dropWhile_le)

lemma find_from_ws_le: "find_from_ws w s c \<le> length s"
  by (induction w s c rule: find_from_ws.induct) auto

lemma find_le: "find_char_or_comment s c \<le> length s"
  by (simp add: find_char_or_comment_def find_from_ws_le)

text \<open>What a handler is given fits the buffers: the section in 49 characters, name and value in a line.\<close>

lemma length_value_part: "length (value_part start e) \<le> length start - (e + 1)"
proof -
  have "length (value_part start e) \<le> length (lskip (drop (e + 1) start))"
    unfolding value_part_def Let_def using length_rstrip
    by (auto intro: order_trans [OF length_rstrip])
  also have "\<dots> \<le> length start - (e + 1)" using length_lskip [of "drop (e + 1) start"] by simp
  finally show ?thesis .
qed

lemma split_pos_less: "split_pos start = Some e \<Longrightarrow> e < length start"
  by (auto simp: split_pos_def Let_def char_at_def split: if_splits)

lemma length_name_value:
  assumes "split_pos start = Some e"
  shows "length (rstrip (take e start)) + length (value_part start e) < length start"
  using length_rstrip [of "take e start"] length_value_part [of start e] split_pos_less [OF assms]
  by simp

lemma length_line: "length (lskip (rstrip line)) \<le> length line"
  using length_lskip [of "rstrip line"] length_rstrip [of line] by simp

text \<open>The characters of the pieces are characters of the line.\<close>

lemma set_rstrip: "set (rstrip s) \<subseteq> set s"
  by (auto simp: rstrip_eq dest: set_dropWhileD)

lemma set_lskip: "set (lskip s) \<subseteq> set s"
  by (auto simp: lskip_eq dest: set_dropWhileD)

lemma set_value_part: "set (value_part start e) \<subseteq> set start"
proof -
  let ?v = "lskip (drop (e + 1) start)"
  have "set (value_part start e) \<subseteq> set ?v"
    unfolding value_part_def Let_def
    by (rule order_trans [OF set_rstrip]) (auto dest: in_set_takeD)
  also have "\<dots> \<subseteq> set start" using set_lskip set_drop_subset by fast
  finally show ?thesis .
qed

section \<open>The parser and its handler\<close>

text \<open>
  The contract: an invariant of the handler's state that every call within the sizes the parser
  guarantees keeps. Then it holds after the whole file, whatever the file is.
\<close>

definition call_fits :: "string \<Rightarrow> string \<Rightarrow> string \<Rightarrow> bool" where
  "call_fits sec name val \<longleftrightarrow> length sec < MAX_SECTION \<and> length name + length val < INI_MAX_LINE \<and>
     NUL \<notin> set sec \<and> NUL \<notin> set name \<and> NUL \<notin> set val"

definition section_fits :: "string option \<Rightarrow> bool" where
  "section_fits sec \<longleftrightarrow> (\<forall>s. sec = Some s \<longrightarrow> length s < MAX_SECTION \<and> NUL \<notin> set s)"

lemma line_call_fits:
  assumes "lskip (rstrip line) = c # cs" "length line < INI_MAX_LINE" "NUL \<notin> set line" "section_fits (Some s)" "split_pos (c # cs) = Some e"
  shows "call_fits s (rstrip (take e (c # cs))) (value_part (c # cs) e)"
proof -
  have nul: "NUL \<notin> set (c # cs)" using assms(3) set_lskip set_rstrip unfolding assms(1) [symmetric] by fast
  have "NUL \<notin> set (rstrip (take e (c # cs)))" using nul set_rstrip set_take_subset by fast
  moreover have "NUL \<notin> set (value_part (c # cs) e)" using nul set_value_part by fast
  ultimately show ?thesis
    using length_name_value [OF assms(5)] length_line [of line] assms(1,2,4) by (simp add: call_fits_def section_fits_def)
qed

locale ini_client =
  fixes handler :: "'u handler"
    and inv :: "'u \<Rightarrow> bool"
  assumes handler_keeps:
    "inv u \<Longrightarrow> call_fits sec name val \<Longrightarrow> handler u sec name val = Inr (u', r) \<Longrightarrow> inv u'"
begin

lemma ini_line_keeps:
  assumes "inv u" "section_fits sec" "length line < INI_MAX_LINE" "NUL \<notin> set line"
    and "ini_line handler u sec lineno error line = Inr (u', sec', error')"
  shows "inv u' \<and> section_fits sec'"
proof (cases "lskip (rstrip line)")
  case Nil
  with assms show ?thesis by (simp add: ini_line_def)
next
  case (Cons c cs)
  have nul: "NUL \<notin> set (c # cs)" using assms(4) set_lskip set_rstrip unfolding Cons [symmetric] by fast
  have fits: "call_fits s (rstrip (take e (c # cs))) (value_part (c # cs) e)"
    if "split_pos (c # cs) = Some e" "sec = Some s" for e s
    using line_call_fits [OF Cons assms(3,4) _ that(1)] assms(2) that(2) by simp
  consider "c = CHR '';'' \<or> c = CHR ''#''" | "c = CHR ''[''" |
    "c \<noteq> CHR '';''" "c \<noteq> CHR ''#''" "c \<noteq> CHR ''[''" by blast
  then show ?thesis
  proof cases
    case 1
    with assms Cons show ?thesis by (auto simp: ini_line_def)
  next
    case 2
    have "section_fits (Some (strncpy0 (take e cs) MAX_SECTION))" for e
      using nul by (auto simp: section_fits_def strncpy0_def strncpy_size_def MAX_SECTION_def dest: in_set_takeD)
    with 2 assms Cons show ?thesis by (auto simp: ini_line_def Let_def split: if_splits)
  next
    case 3
    show ?thesis
    proof (cases "split_pos (c # cs)")
      case None
      with assms Cons 3 show ?thesis by (auto simp: ini_line_def)
    next
      case (Some e)
      with assms(5) Cons 3 obtain s ret where s: "sec = Some s" "sec' = sec"
        and call: "handler u s (rstrip (take e (c # cs))) (value_part (c # cs) e) = Inr (u', ret)"
        by (cases sec) (auto simp: ini_line_def fault_simps)
      from handler_keeps [OF assms(1) fits [OF Some s(1)] call] s(2) assms(2) show ?thesis by simp
    qed
  qed
qed

lemma ini_loop_keeps:
  "inv u \<Longrightarrow> section_fits sec \<Longrightarrow> ini_loop handler u sec lineno error content = Inr (e, u') \<Longrightarrow> inv u'"
proof (induction "length content" arbitrary: u sec lineno error content rule: less_induct)
  case less
  show ?case
  proof (cases "fgets INI_MAX_LINE content")
    case None
    with less.prems show ?thesis by (simp add: ini_loop.simps)
  next
    case (Some p)
    obtain chunk rest where p: "p = (chunk, rest)" by (cases p)
    have short: "length rest < length content" "length (cstr chunk) < INI_MAX_LINE"
      using fgets_shorter [OF Some [unfolded p]] fgets_length [OF Some [unfolded p]]
        length_cstr [of chunk]
      by (auto simp: INI_MAX_LINE_def)
    from less.prems(3) Some p obtain u1 sec1 error1 where
      line: "ini_line handler u sec (Suc lineno) error (cstr chunk) = Inr (u1, sec1, error1)"
      and rest: "(if error1 \<noteq> 0 then Inr (error1, u1)
         else ini_loop handler u1 sec1 (Suc lineno) error1 rest) = Inr (e, u')"
      by (auto simp: ini_loop.simps [of handler u] fault_simps)
    from ini_line_keeps [OF less.prems(1,2) short(2) cstr_no_NUL line]
    have keep: "inv u1" "section_fits sec1" by auto
    show ?thesis
    proof (cases "error1 = 0")
      case True
      with rest less.hyps [OF short(1) keep, of "Suc lineno" error1] show ?thesis by simp
    qed (use rest keep in simp)
  qed
qed

lemma ini_parse_file_keeps:
  "inv u \<Longrightarrow> ini_parse_file content handler u = Inr (e, u') \<Longrightarrow> inv u'"
  unfolding ini_parse_file_def by (rule ini_loop_keeps) (auto simp: section_fits_def)

lemma ini_parse_keeps: "inv u \<Longrightarrow> ini_parse fp handler u = Inr (e, u') \<Longrightarrow> inv u'"
  using ini_parse_file_keeps by (auto simp: ini_parse_def fault_simps split: option.splits)

end

section \<open>Writing a file and reading it back\<close>

text \<open>
  A document is a list of sections with their pairs. \<open>render_ini\<close> writes it the way
  \<open>conf/resdb.conf\<close> is written, and \<open>doc_calls\<close> lists what the parser must pass to its handler,
  each call with the number of its line.
\<close>

type_synonym ini_doc = "(string \<times> (string \<times> string) list) list"

definition render_pair :: "string \<times> string \<Rightarrow> string" where
  "render_pair p = CHR '' '' # fst p @ '' = '' @ snd p @ [newline]"

definition render_section :: "string \<Rightarrow> string" where
  "render_section s = CHR ''['' # s @ [CHR '']'', newline]"

definition render_ini :: "ini_doc \<Rightarrow> string" where
  "render_ini doc = concat (map (\<lambda>(s, ps). render_section s @ concat (map render_pair ps)) doc)"

fun pair_calls :: "nat \<Rightarrow> string \<Rightarrow> (string \<times> string) list \<Rightarrow> (nat \<times> string \<times> string \<times> string) list" where
  "pair_calls n s [] = []"
| "pair_calls n s ((k, v) # ps) = (n, s, k, v) # pair_calls (Suc n) s ps"

fun doc_calls :: "nat \<Rightarrow> ini_doc \<Rightarrow> (nat \<times> string \<times> string \<times> string) list" where
  "doc_calls n [] = []"
| "doc_calls n ((s, ps) # doc) = pair_calls (Suc n) s ps @ doc_calls (Suc n + length ps) doc"

text \<open>Calling the handler on each pair, up to the first call it refuses; the result is its line.\<close>

fun run_calls :: "'u handler \<Rightarrow> 'u \<Rightarrow> (nat \<times> string \<times> string \<times> string) list \<Rightarrow> (nat \<times> 'u) res" where
  "run_calls h u [] = Inr (0, u)"
| "run_calls h u ((n, s, k, v) # cs) =
     rbind (h u s k v) (\<lambda>(u', r). if r then run_calls h u' cs else Inr (n, u'))"

definition plain_char :: "char \<Rightarrow> bool" where
  "plain_char c \<longleftrightarrow> c \<notin> {CHR '';'', CHR ''#'', NUL, newline}"

definition plain_name :: "string \<Rightarrow> bool" where
  "plain_name k \<longleftrightarrow> k \<noteq> [] \<and> (\<forall>c \<in> set k. plain_char c \<and> \<not> isspace c \<and> c \<noteq> CHR ''='' \<and> c \<noteq> CHR ''['')"

definition plain_value :: "string \<Rightarrow> bool" where
  "plain_value v \<longleftrightarrow> (\<forall>c \<in> set v. plain_char c) \<and>
     (v = [] \<or> \<not> isspace (hd v) \<and> \<not> isspace (last v))"

definition plain_section :: "string \<Rightarrow> bool" where
  "plain_section s \<longleftrightarrow> (\<forall>c \<in> set s. plain_char c \<and> c \<noteq> CHR '']'') \<and> length s < MAX_SECTION"

definition plain_doc :: "ini_doc \<Rightarrow> bool" where
  "plain_doc doc \<longleftrightarrow> (\<forall>(s, ps) \<in> set doc. plain_section s \<and>
     (\<forall>(k, v) \<in> set ps. plain_name k \<and> plain_value v \<and> length k + length v + 5 < INI_MAX_LINE))"

lemma find_from_ws_append:
  "\<forall>x \<in> set k. x \<noteq> c \<and> x \<noteq> CHR '';'' \<and> x \<noteq> CHR ''#'' \<Longrightarrow>
   find_from_ws w (k @ xs) c = length k + find_from_ws (if k = [] then w else isspace (last k)) xs c"
  by (induction k arbitrary: w) auto

lemma find_from_ws_none:
  "\<forall>x \<in> set k. x \<noteq> c \<and> x \<noteq> CHR '';'' \<and> x \<noteq> CHR ''#'' \<Longrightarrow> find_from_ws w k c = length k"
  by (induction k arbitrary: w) auto

lemma rstrip_blank [simp]: "isspace c \<Longrightarrow> rstrip (s @ [c]) = rstrip s"
  by (simp add: rstrip_eq)

lemma rstrip_keep: "s = [] \<or> \<not> isspace (last s) \<Longrightarrow> rstrip s = s"
  by (cases s rule: rev_cases) (auto simp: rstrip_eq)

lemma isspace_newline [simp]: "isspace newline"
  by (simp add: isspace_def)

lemma not_isspace_simps [simp]: "\<not> isspace (CHR ''='')" "\<not> isspace (CHR ''['')" "\<not> isspace (CHR '']'')"
  by (simp_all add: isspace_def)

lemma ini_line_section:
  assumes "plain_section s"
  shows "ini_line h u sec n 0 (render_section s) = Inr (u, Some s, 0)"
proof -
  have "rstrip (render_section s) = CHR ''['' # s @ [CHR '']'']"
    using rstrip_blank [of newline "CHR ''['' # s @ [CHR '']'']"]
    by (simp add: render_section_def rstrip_keep)
  moreover have "find_char_or_comment (s @ [CHR '']'']) (CHR '']'') = length s"
    using assms by (simp add: find_char_or_comment_def find_from_ws_append plain_section_def plain_char_def)
  ultimately show ?thesis
    using assms by (simp add: ini_line_def Let_def char_at_def strncpy0_def strncpy_size_def plain_section_def
        MAX_SECTION_def)
qed

lemma value_part_plain:
  assumes "plain_value v"
  shows "value_part (k @ '' ='' @ (if v = [] then [] else CHR '' '' # v)) (Suc (length k)) = v"
proof -
  have "lskip (if v = [] then [] else CHR '' '' # v) = v"
    using assms by (cases v) (auto simp: plain_value_def)
  moreover have "find_char_or_comment v NUL = length v"
    using assms by (auto simp: find_char_or_comment_def plain_value_def plain_char_def
        intro!: find_from_ws_none)
  moreover have "rstrip v = v" using assms by (auto simp: plain_value_def intro: rstrip_keep)
  ultimately show ?thesis by (simp add: value_part_def Let_def char_at_def)
qed

lemma ini_line_pair_any:
  assumes "plain_name k" "plain_value v"
  shows "ini_line h u sec n 0 (render_pair (k, v)) =
     rbind (initialised sec) (\<lambda>s. rbind (h u s k v) (\<lambda>(u', r). Inr (u', sec, if \<not> r then n else 0)))"
proof -
  let ?start = "k @ '' ='' @ (if v = [] then [] else CHR '' '' # v)"
  obtain c cs where k: "k = c # cs" "\<not> isspace c" using assms(1) by (cases k) (auto simp: plain_name_def)
  have "rstrip (render_pair (k, v)) = CHR '' '' # ?start"
  proof (cases "v = []")
    case True
    have "rstrip (render_pair (k, v)) = rstrip (CHR '' '' # k @ '' ='')"
      using rstrip_blank [of newline "CHR '' '' # k @ '' = ''"] rstrip_blank [of "CHR '' ''" "CHR '' '' # k @ '' =''"]
      by (simp add: render_pair_def True)
    then show ?thesis by (simp add: True rstrip_keep)
  next
    case False
    have "rstrip (render_pair (k, v)) = rstrip (CHR '' '' # k @ '' = '' @ v)"
      using rstrip_blank [of newline "CHR '' '' # k @ '' = '' @ v"] by (simp add: render_pair_def)
    then show ?thesis using False assms(2) by (simp add: rstrip_keep plain_value_def)
  qed
  then have start: "lskip (rstrip (render_pair (k, v))) = ?start" using k by simp
  have "find_char_or_comment ?start (CHR ''='') = Suc (length k)"
    using assms(1) unfolding find_char_or_comment_def
    by (subst find_from_ws_append) (auto simp: plain_name_def plain_char_def)
  then have pos: "split_pos ?start = Some (Suc (length k))"
    by (simp add: split_pos_def Let_def char_at_def nth_append)
  have "rstrip (take (Suc (length k)) ?start) = k"
    using rstrip_blank [of "CHR '' ''" k] assms(1) by (simp add: plain_name_def rstrip_keep)
  moreover obtain ds where st: "?start = c # ds" using k(1) by auto
  moreover have "c \<notin> {CHR '';'', CHR ''#'', CHR ''[''}"
    using assms(1) k(1) by (auto simp: plain_name_def plain_char_def)
  ultimately show ?thesis
    using start pos value_part_plain [OF assms(2), of k] unfolding st
    by (simp add: ini_line_def)
qed

lemma ini_line_pair:
  "plain_name k \<Longrightarrow> plain_value v \<Longrightarrow>
   ini_line h u (Some s) n 0 (render_pair (k, v)) =
     rbind (h u s k v) (\<lambda>(u', r). Inr (u', Some s, if \<not> r then n else 0))"
  by (simp add: ini_line_pair_any)

lemma ini_line_pair_none:
  "plain_name k \<Longrightarrow> plain_value v \<Longrightarrow> ini_line h u None n 0 (render_pair (k, v)) = Inl Uninit_read"
  by (simp add: ini_line_pair_any)

text \<open>One line of a file.\<close>

lemma ini_loop_line:
  assumes "newline \<notin> set l" "NUL \<notin> set l" "Suc (length l) < INI_MAX_LINE"
  shows "ini_loop h u sec n 0 (l @ newline # rest) =
    rbind (ini_line h u sec (Suc n) 0 (l @ [newline])) (\<lambda>(u', sec', e).
      if e \<noteq> 0 then Inr (e, u') else ini_loop h u' sec' (Suc n) e rest)"
proof -
  have "fgets INI_MAX_LINE (l @ newline # rest) = Some (l @ [newline], rest)"
    using assms by (simp add: fgets_def line_chunk_line)
  moreover have "cstr (l @ [newline]) = l @ [newline]" using assms(2) by (simp add: cstr_id)
  ultimately show ?thesis by (simp add: ini_loop.simps [of h u sec n 0])
qed

lemma ini_loop_pair:
  assumes "plain_name k" "plain_value v" "length k + length v + 5 < INI_MAX_LINE"
  shows "ini_loop h u (Some s) n 0 (render_pair (k, v) @ rest) =
    rbind (h u s k v) (\<lambda>(u', r).
      if r then ini_loop h u' (Some s) (Suc n) 0 rest else Inr (Suc n, u'))"
proof -
  let ?l = "CHR '' '' # k @ '' = '' @ v"
  have l: "render_pair (k, v) @ rest = ?l @ newline # rest" "?l @ [newline] = render_pair (k, v)"
    by (simp_all add: render_pair_def)
  have "newline \<notin> set ?l" "NUL \<notin> set ?l" "Suc (length ?l) < INI_MAX_LINE"
    using assms by (auto simp: plain_name_def plain_value_def plain_char_def)
  from ini_loop_line [OF this, of h u "Some s" n rest]
  have "ini_loop h u (Some s) n 0 (render_pair (k, v) @ rest) =
    rbind (ini_line h u (Some s) (Suc n) 0 (render_pair (k, v))) (\<lambda>(u', sec', e).
      if e \<noteq> 0 then Inr (e, u') else ini_loop h u' sec' (Suc n) e rest)"
    unfolding l .
  then show ?thesis
    unfolding ini_line_pair [OF assms(1,2)] by (cases "h u s k v") (auto simp: split_def)
qed

lemma ini_loop_pairs:
  "\<forall>(k, v) \<in> set ps. plain_name k \<and> plain_value v \<and> length k + length v + 5 < INI_MAX_LINE \<Longrightarrow>
   ini_loop h u (Some s) n 0 (concat (map render_pair ps) @ rest) =
     rbind (run_calls h u (pair_calls (Suc n) s ps)) (\<lambda>(e, u').
       if e \<noteq> 0 then Inr (e, u') else ini_loop h u' (Some s) (n + length ps) 0 rest)"
proof (induction ps arbitrary: u n)
  case (Cons p ps)
  obtain k v where p: "p = (k, v)" by (cases p)
  have kv: "plain_name k" "plain_value v" "length k + length v + 5 < INI_MAX_LINE"
    using Cons.prems p by auto
  have IH: "ini_loop h u' (Some s) (Suc n) 0 (concat (map render_pair ps) @ rest) =
     rbind (run_calls h u' (pair_calls (Suc (Suc n)) s ps)) (\<lambda>(e, u').
       if e \<noteq> 0 then Inr (e, u') else ini_loop h u' (Some s) (Suc n + length ps) 0 rest)" for u'
    using Cons.prems by (intro Cons.IH) simp
  show ?case
    using ini_loop_pair [OF kv, of h u s n "concat (map render_pair ps) @ rest"]
    by (cases "h u s k v") (auto simp: p IH split_def cong: if_cong)
qed simp

lemma ini_loop_section:
  assumes "plain_section s"
  shows "ini_loop h u sec n 0 (render_section s @ rest) = ini_loop h u (Some s) (Suc n) 0 rest"
proof -
  let ?l = "CHR ''['' # s @ [CHR '']'']"
  have l: "render_section s @ rest = ?l @ newline # rest" "?l @ [newline] = render_section s"
    by (simp_all add: render_section_def)
  have "newline \<notin> set ?l" "NUL \<notin> set ?l" "Suc (length ?l) < INI_MAX_LINE"
    using assms by (auto simp: plain_section_def plain_char_def MAX_SECTION_def INI_MAX_LINE_def)
  from ini_loop_line [OF this, of h u sec n rest] show ?thesis
    unfolding l ini_line_section [OF assms] by simp
qed

lemma run_calls_append:
  "\<forall>(n, x) \<in> set cs. n \<noteq> 0 \<Longrightarrow>
   run_calls h u (cs @ ds) =
     rbind (run_calls h u cs) (\<lambda>(e, u'). if e \<noteq> 0 then Inr (e, u') else run_calls h u' ds)"
proof (induction cs arbitrary: u)
  case (Cons c cs)
  then show ?case by (cases c; cases "h u (fst (snd c)) (fst (snd (snd c))) (snd (snd (snd c)))") auto
qed simp

lemma pair_calls_numbered: "0 < n \<Longrightarrow> \<forall>(m, x) \<in> set (pair_calls n s ps). m \<noteq> 0"
  by (induction n s ps rule: pair_calls.induct) auto

lemma ini_loop_doc:
  "plain_doc doc \<Longrightarrow> ini_loop h u sec n 0 (render_ini doc) = run_calls h u (doc_calls (Suc n) doc)"
proof (induction doc arbitrary: u sec n)
  case Nil
  then show ?case by (simp add: render_ini_def ini_loop.simps fgets_def)
next
  case (Cons d doc)
  obtain s ps where d: "d = (s, ps)" by (cases d)
  have plain: "plain_section s" "plain_doc doc"
    "\<forall>(k, v) \<in> set ps. plain_name k \<and> plain_value v \<and> length k + length v + 5 < INI_MAX_LINE"
    using Cons.prems d by (auto simp: plain_doc_def)
  have render: "render_ini (d # doc) = render_section s @ concat (map render_pair ps) @ render_ini doc"
    by (simp add: render_ini_def d)
  have "ini_loop h u sec n 0 (render_ini (d # doc)) =
    rbind (run_calls h u (pair_calls (Suc (Suc n)) s ps)) (\<lambda>(e, u').
      if e \<noteq> 0 then Inr (e, u') else ini_loop h u' (Some s) (Suc n + length ps) 0 (render_ini doc))"
    unfolding render ini_loop_section [OF plain(1)] by (rule ini_loop_pairs [OF plain(3)])
  also have "\<dots> = run_calls h u (doc_calls (Suc n) (d # doc))"
    unfolding d doc_calls.simps Cons.IH [OF plain(2)]
    using pair_calls_numbered [of "Suc (Suc n)" s ps]
    by (subst run_calls_append) (simp_all cong: if_cong)
  finally show ?case .
qed

lemma ini_parse_file_doc:
  "plain_doc doc \<Longrightarrow> ini_parse_file (render_ini doc) h u = run_calls h u (doc_calls 1 doc)"
  using ini_loop_doc [of doc h u None 0] by (simp add: ini_parse_file_def)

section \<open>Text after the first error\<close>

lemma line_chunk_more:
  "line_chunk k s = (l, r) \<Longrightarrow> s \<noteq> [] \<Longrightarrow> last s = newline \<Longrightarrow> line_chunk k (s @ more) = (l, r @ more)"
proof (induction k s arbitrary: l r rule: line_chunk.induct)
  case (3 k c cs)
  show ?case
  proof (cases "c = newline")
    case True
    with 3 show ?thesis by simp
  next
    case False
    with 3(4) have cs: "cs \<noteq> []" "last cs = newline" by (auto split: if_splits)
    obtain l' r' where lr: "line_chunk k cs = (l', r')" by (cases "line_chunk k cs")
    from 3(1) [OF False lr cs] False lr 3(2) show ?thesis by simp
  qed
qed auto

lemma line_chunk_rest_newline:
  "line_chunk k s = (l, r) \<Longrightarrow> r \<noteq> [] \<Longrightarrow> last r = last s"
  using line_chunk_append [of k s l r] by simp

text \<open>On a text of whole lines, an error found in it is the result whatever follows.\<close>

lemma ini_loop_more:
  "content \<noteq> [] \<Longrightarrow> last content = newline \<Longrightarrow>
   ini_loop h u sec n 0 content = Inr (e, u') \<Longrightarrow> e \<noteq> 0 \<Longrightarrow>
   ini_loop h u sec n 0 (content @ more) = Inr (e, u')"
proof (induction "length content" arbitrary: u sec n content rule: less_induct)
  case less
  obtain l r where lr: "line_chunk (INI_MAX_LINE - 1) content = (l, r)"
    by (cases "line_chunk (INI_MAX_LINE - 1) content")
  then have chunk: "fgets INI_MAX_LINE content = Some (l, r)"
    "fgets INI_MAX_LINE (content @ more) = Some (l, r @ more)"
    using line_chunk_more [OF lr less.prems(1,2)] less.prems(1) by (simp_all add: fgets_def)
  from less.prems(3) chunk(1) obtain u1 sec1 e1 where
    line: "ini_line h u sec (Suc n) 0 (cstr l) = Inr (u1, sec1, e1)"
    and rest: "(if e1 \<noteq> 0 then Inr (e1, u1) else ini_loop h u1 sec1 (Suc n) e1 r) = Inr (e, u')"
    by (subst (asm) ini_loop.simps) (auto simp: fault_simps)
  have "(if e1 \<noteq> 0 then Inr (e1, u1) else ini_loop h u1 sec1 (Suc n) e1 (r @ more)) = Inr (e, u')"
  proof (cases "e1 = 0")
    case True
    with rest have loop: "ini_loop h u1 sec1 (Suc n) 0 r = Inr (e, u')" by simp
    then have "r \<noteq> []" using less.prems(4) by (auto simp: ini_loop.simps [of h] fgets_def)
    moreover have "length r < length content" using fgets_shorter [OF chunk(1)] by (simp add: INI_MAX_LINE_def)
    ultimately show ?thesis
      using less.hyps [of r u1 sec1 "Suc n"] line_chunk_rest_newline [OF lr] less.prems(2,4) loop True
      by simp
  qed (use rest in simp)
  with line chunk(2) show ?case by (subst ini_loop.simps) simp
qed

section \<open>What a handler may rely on\<close>

text \<open>A handler that does something else with arguments that do not fit is not told apart.\<close>

lemma ini_line_guarded:
  assumes "section_fits sec" "length line < INI_MAX_LINE" "NUL \<notin> set line"
  shows "ini_line (\<lambda>u s n v. if call_fits s n v then h u s n v else other u s n v) u sec lineno error line =
    ini_line h u sec lineno error line"
proof (cases "lskip (rstrip line)")
  case (Cons c cs)
  have "call_fits s (rstrip (take e (c # cs))) (value_part (c # cs) e)" if "split_pos (c # cs) = Some e" "sec = Some s" for e s
    using line_call_fits [OF Cons assms(2,3) _ that(1)] assms(1) that(2) by simp
  then show ?thesis using Cons by (cases sec) (auto simp: ini_line_def split: option.splits)
qed (simp add: ini_line_def)

lemma ini_line_section_fits:
  assumes "section_fits sec" "length line < INI_MAX_LINE" "NUL \<notin> set line" "ini_line h u sec lineno error line = Inr (u', sec', error')"
  shows "section_fits sec'"
proof -
  have "ini_client h (\<lambda>_. True)" by unfold_locales simp
  from ini_client.ini_line_keeps [OF this _ assms] show ?thesis by simp
qed

lemma ini_loop_guarded:
  "section_fits sec \<Longrightarrow> ini_loop (\<lambda>u s n v. if call_fits s n v then h u s n v else other u s n v) u sec lineno error content =
    ini_loop h u sec lineno error content"
proof (induction "length content" arbitrary: u sec lineno error content rule: less_induct)
  case less
  let ?g = "\<lambda>u s n v. if call_fits s n v then h u s n v else other u s n v"
  show ?case
  proof (cases "fgets INI_MAX_LINE content")
    case None
    then show ?thesis by (simp add: ini_loop.simps)
  next
    case (Some p)
    obtain chunk rest where p: "p = (chunk, rest)" by (cases p)
    have short: "length rest < length content" "length (cstr chunk) < INI_MAX_LINE"
      using fgets_shorter [OF Some [unfolded p]] fgets_length [OF Some [unfolded p]] length_cstr [of chunk]
      by (auto simp: INI_MAX_LINE_def)
    have line: "ini_line ?g u sec (Suc lineno) error (cstr chunk) = ini_line h u sec (Suc lineno) error (cstr chunk)"
      by (rule ini_line_guarded [OF less.prems short(2) cstr_no_NUL])
    show ?thesis
    proof (cases "ini_line h u sec (Suc lineno) error (cstr chunk)")
      case (Inr x)
      obtain u1 sec1 error1 where x: "x = (u1, sec1, error1)" by (cases x)
      from less.hyps [OF short(1) ini_line_section_fits [OF less.prems short(2) cstr_no_NUL Inr [unfolded x]]]
      show ?thesis using Some p line Inr x by (simp add: ini_loop.simps [of _ u])
    qed (use Some p line in \<open>simp add: ini_loop.simps [of _ u]\<close>)
  qed
qed

section \<open>Properties\<close>

text \<open>C11. Reading back a written configuration: for every document whose names and values are plain
  (no comment characters, no white space around them, lines that fit), the parser calls its handler
  exactly on the document's pairs, each with its section, in their order, and the result is that of
  these calls up to the first one the handler refuses, whose line number is then returned.\<close>

theorem ini_parse_render:
  assumes "plain_doc doc"
  shows "ini_parse_file (render_ini doc) h u = run_calls h u (doc_calls 1 doc)"
  using ini_parse_file_doc [OF assms] .

definition sample_doc :: ini_doc where
  "sample_doc = [(''params'', [(''scheduler'', ''slurm'')]), (''queue hpc'', [(''type'', ''vm''), (''name_space'', ''a b'')])]"

lemma plain_sample_doc: "plain_doc sample_doc"
  by (simp add: plain_doc_def sample_doc_def plain_section_def plain_name_def plain_value_def plain_char_def
      MAX_SECTION_def INI_MAX_LINE_def isspace_def)

theorem ini_parse_render_witness:
  "ini_parse_file (render_ini sample_doc) (\<lambda>u s k v. Inr (u @ [(s, k, v)], v \<noteq> ''a b'')) [] =
     Inr (5, [(''params'', ''scheduler'', ''slurm''), (''queue hpc'', ''type'', ''vm''),
              (''queue hpc'', ''name_space'', ''a b'')])"
  by (subst ini_parse_render [OF plain_sample_doc]) (simp add: sample_doc_def)

text \<open>The parser stops at the first error: when a text of whole lines gives an error, the text
  followed by anything at all gives the same error and the same state, so nothing after the faulty
  line reaches the handler (\<open>ini.h\<close> documents the opposite default, and then sets
  \<open>INI_STOP_ON_FIRST_ERROR\<close> to 1).\<close>

theorem ini_stops_at_first_error:
  assumes "content \<noteq> []" "last content = newline"
    and "ini_parse_file content h u = Inr (e, u')" "e \<noteq> 0"
  shows "ini_parse_file (content @ more) h u = Inr (e, u')"
  using ini_loop_more [OF assms(1,2)] assms(3,4) by (simp add: ini_parse_file_def)

definition bad_line :: string where "bad_line = ''[s]'' @ [newline] @ ''word'' @ [newline]"

definition collect :: "(string \<times> string) list handler" where
  "collect u s k v = Inr (u @ [(k, v)], True)"

lemma parse_bad_line: "ini_parse_file bad_line collect [] = Inr (2, [])"
  by code_simp

theorem ini_stops_at_first_error_witness:
  "ini_parse_file (bad_line @ ''k=v'') collect [] = Inr (2, [])"
  by (rule ini_stops_at_first_error [OF _ _ parse_bad_line]) (simp_all add: bad_line_def)

text \<open>A \<open>name = value\<close> line before any section line: the array \<open>section\<close> that
  the handler receives has not been written (the comment in \<open>ini.h\<close> promises an empty section
  name), so the first use of it is a read of uninitialised memory, whatever the handler is.\<close>

theorem ini_pair_before_section:
  assumes "plain_name k" "plain_value v" "length k + length v + 5 < INI_MAX_LINE"
  shows "ini_parse_file (render_pair (k, v) @ rest) h u = Inl Uninit_read"
proof -
  let ?l = "CHR '' '' # k @ '' = '' @ v"
  have l: "render_pair (k, v) @ rest = ?l @ newline # rest" "?l @ [newline] = render_pair (k, v)"
    by (simp_all add: render_pair_def)
  have "newline \<notin> set ?l" "NUL \<notin> set ?l" "Suc (length ?l) < INI_MAX_LINE"
    using assms by (auto simp: plain_name_def plain_value_def plain_char_def)
  from ini_loop_line [OF this, of h u None 0 rest] show ?thesis
    unfolding ini_parse_file_def l by (simp add: ini_line_pair_none [OF assms(1,2)])
qed

theorem ini_pair_before_section_witness:
  "ini_parse_file (render_pair (''host'', ''node1'')) collect [] = Inl Uninit_read"
  using ini_pair_before_section [of "''host''" "''node1''" "[]" collect "[]"]
  by (simp add: plain_name_def plain_value_def plain_char_def isspace_def INI_MAX_LINE_def)

text \<open>C16. Whatever the file, each call that the handler gets, if any, has a section of less than 50 characters and a
  name and a value that together have less than 256, and none of the three has a NUL, so they are the C strings that
  the handler takes them for: what the handler would do with other arguments makes no difference to the parse,
  its result and its faults included. (A pair before any section line is no such call: there the parse reads the
  array of the section name before anything was written to it.)\<close>

theorem parser_argument_types:
  "ini_parse_file content (\<lambda>u s n v. if length s < 50 \<and> length n + length v < 256 \<and> NUL \<notin> set s \<and> NUL \<notin> set n \<and> NUL \<notin> set v
      then h u s n v else other u s n v) user =
   ini_parse_file content h user"
proof -
  have f: "length s < 50 \<and> length n + length v < 256 \<and> NUL \<notin> set s \<and> NUL \<notin> set n \<and> NUL \<notin> set v \<longleftrightarrow> call_fits s n v" for s n v
    by (simp add: call_fits_def MAX_SECTION_def INI_MAX_LINE_def)
  show ?thesis unfolding f ini_parse_file_def by (rule ini_loop_guarded) (simp add: section_fits_def)
qed

end
