(* ===== verification/Nio.thy ===== *)
theory Nio
  imports C_String
begin

text \<open>
  The network layer of \<open>src/lib/nio.c\<close> and the message header of \<open>src/lib/libresb.h\<close>. A socket is
  what the kernel will answer to the calls on it: a list of events for \<open>read\<close> (data arriving in
  pieces, interruptions, end of file, errors) and one for \<open>write\<close> (how many bytes each call
  accepts). The loops of \<open>nio_readblock\<close> and \<open>nio_writeblock\<close> run over these events. The record
  \<open>net\<close> holds the open descriptors of a process and the ones in its epoll set.
\<close>

section \<open>The message header\<close>

text \<open>
  \<open>struct rb_header { int opcode; size_t len; }\<close>: on x86-64, 16 bytes, little endian, with four
  bytes of padding between the fields.
\<close>

record rb_header =
  opcode :: "32 word"
  len :: "64 word"

text \<open>Requests to the broker, replies of the broker, requests to a server and its replies.\<close>

definition BROKER_STATUS :: "32 word" where "BROKER_STATUS = 0"
definition BROKER_QUEUE_STATUS :: "32 word" where "BROKER_QUEUE_STATUS = 1"
definition BROKER_PARAMS :: "32 word" where "BROKER_PARAMS = 2"
definition BROKER_SERVER_REGISTER :: "32 word" where "BROKER_SERVER_REGISTER = 3"

definition BROKER_OK :: "32 word" where "BROKER_OK = 0"
definition BROKER_ERROR :: "32 word" where "BROKER_ERROR = 1"

definition SERVER_BOOT_RESOURCES :: "32 word" where "SERVER_BOOT_RESOURCES = 0"
definition SERVER_SHUT_RESOURCES :: "32 word" where "SERVER_SHUT_RESOURCES = 1"

definition SERVER_RESOURCES_OK :: "32 word" where "SERVER_RESOURCES_OK = 0"

lemmas opcode_defs =
  BROKER_STATUS_def BROKER_QUEUE_STATUS_def BROKER_PARAMS_def BROKER_SERVER_REGISTER_def
  BROKER_OK_def BROKER_ERROR_def SERVER_BOOT_RESOURCES_def SERVER_SHUT_RESOURCES_def
  SERVER_RESOURCES_OK_def

text \<open>An unsigned integer as \<open>k\<close> bytes, least significant first, and back.\<close>

fun le_put :: "nat \<Rightarrow> nat \<Rightarrow> char list" where
  "le_put 0 v = []"
| "le_put (Suc k) v = char_of v # le_put k (v div 256)"

fun le_get :: "char list \<Rightarrow> nat" where
  "le_get [] = 0"
| "le_get (c # cs) = of_char c + 256 * le_get cs"

definition sizeof_header :: nat where "sizeof_header = 16"

definition encode_header :: "char list \<Rightarrow> rb_header \<Rightarrow> char list" where
  "encode_header pad h =
     le_put 4 (unat (opcode h)) @ take 4 (pad @ replicate 4 NUL) @ le_put 8 (unat (len h))"

definition decode_header :: "char list \<Rightarrow> rb_header" where
  "decode_header bs =
     \<lparr>opcode = of_nat (le_get (take 4 bs)), len = of_nat (le_get (take 8 (drop 8 bs)))\<rparr>"

lemma length_le_put [simp]: "length (le_put k v) = k"
  by (induction k arbitrary: v) auto

lemma le_get_le_put: "le_get (le_put k v) = v mod 256 ^ k"
proof (induction k arbitrary: v)
  case (Suc k)
  then show ?case by (simp add: mod_mult2_eq)
qed simp

lemma length_encode_header [simp]: "length (encode_header pad h) = sizeof_header"
  by (simp add: encode_header_def sizeof_header_def)

lemma decode_encode_header [simp]: "decode_header (encode_header pad h) = h"
proof -
  have "unat (opcode h) < 2 ^ 32" "unat (len h) < 2 ^ 64"
    using unsigned_less [of "opcode h"] unsigned_less [of "len h"] by simp_all
  then show ?thesis by (simp add: decode_header_def encode_header_def le_get_le_put)
qed

section \<open>Reading\<close>

datatype rd_event = Data "char list" | Rd_intr | Rd_eof | Rd_error

datatype rd_ret = Got "char list" | Got_eof | Got_intr | Got_error

text \<open>
  One \<open>read(s, buf, n)\<close> on a blocking socket: at most \<open>n\<close> bytes of what has arrived. The end of
  file stays. \<open>None\<close>: nothing will ever arrive, the call does not return.
\<close>

fun sys_read :: "nat \<Rightarrow> rd_event list \<Rightarrow> (rd_ret \<times> rd_event list) option" where
  "sys_read n [] = None"
| "sys_read n (Data bs # es) =
     (if bs = [] then sys_read n es
      else Some (Got (take n bs), if length bs \<le> n then es else Data (drop n bs) # es))"
| "sys_read n (Rd_intr # es) = Some (Got_intr, es)"
| "sys_read n (Rd_eof # es) = Some (Got_eof, Rd_eof # es)"
| "sys_read n (Rd_error # es) = Some (Got_error, es)"

datatype rd_result = Read_ok "char list" | Read_fail | Read_blocks

fun pending_work :: "rd_event list \<Rightarrow> nat" where
  "pending_work [] = 0"
| "pending_work (Data bs # es) = Suc (length bs) + pending_work es"
| "pending_work (_ # es) = Suc (pending_work es)"

lemma sys_read_Got:
  "sys_read n es = Some (Got bs, es') \<Longrightarrow> 0 < n \<Longrightarrow>
   pending_work es' < pending_work es \<and> bs \<noteq> [] \<and> length bs \<le> n"
  by (induction n es rule: sys_read.induct) (auto split: if_splits)

lemma sys_read_intr: "sys_read n es = Some (Got_intr, es') \<Longrightarrow> pending_work es' < pending_work es"
  by (induction n es rule: sys_read.induct) (auto split: if_splits)

text \<open>The loop of \<open>nio_readblock\<close>, with the bytes stored so far.\<close>

function readblock_loop :: "nat \<Rightarrow> rd_event list \<Rightarrow> char list \<Rightarrow> rd_result \<times> rd_event list" where
  "readblock_loop L es buf =
     (if L = 0 then (Read_ok buf, es)
      else (case sys_read L es of
              None \<Rightarrow> (Read_blocks, [])
            | Some (Got bs, es') \<Rightarrow> readblock_loop (L - length bs) es' (buf @ bs)
            | Some (Got_intr, es') \<Rightarrow> readblock_loop L es' buf
            | Some (Got_eof, es') \<Rightarrow> (Read_fail, es')
            | Some (Got_error, es') \<Rightarrow> (Read_fail, es')))"
  by pat_completeness auto
termination
  by (relation "measure (\<lambda>(L, es, buf). pending_work es)")
    (auto dest: sys_read_Got sys_read_intr)

declare readblock_loop.simps [simp del]

definition nio_readblock :: "nat \<Rightarrow> rd_event list \<Rightarrow> rd_result \<times> rd_event list" where
  "nio_readblock L es = readblock_loop L es []"

text \<open>
  What a peer has sent that can still be read: the bytes up to the end of file or the first
  error, and whether there is such an end.
\<close>

fun stream_bytes :: "rd_event list \<Rightarrow> char list" where
  "stream_bytes [] = []"
| "stream_bytes (Data bs # es) = bs @ stream_bytes es"
| "stream_bytes (Rd_intr # es) = stream_bytes es"
| "stream_bytes (Rd_eof # es) = []"
| "stream_bytes (Rd_error # es) = []"

fun stream_ends :: "rd_event list \<Rightarrow> bool" where
  "stream_ends [] = False"
| "stream_ends (Data bs # es) = stream_ends es"
| "stream_ends (Rd_intr # es) = stream_ends es"
| "stream_ends (Rd_eof # es) = True"
| "stream_ends (Rd_error # es) = True"

lemma sys_read_None: "sys_read n es = None \<Longrightarrow> stream_bytes es = [] \<and> \<not> stream_ends es"
  by (induction n es rule: sys_read.induct) (auto split: if_splits)

lemma sys_read_stream:
  "sys_read n es = Some (r, es') \<Longrightarrow> 0 < n \<Longrightarrow>
   (case r of Got bs \<Rightarrow> stream_bytes es = bs @ stream_bytes es' \<and> stream_ends es = stream_ends es'
    | Got_intr \<Rightarrow> stream_bytes es = stream_bytes es' \<and> stream_ends es = stream_ends es'
    | _ \<Rightarrow> stream_bytes es = [] \<and> stream_ends es)"
  by (induction n es rule: sys_read.induct) (auto split: if_splits rd_ret.splits)

lemma readblock_loop_spec:
  "(L \<le> length (stream_bytes es) \<longrightarrow>
     (\<exists>es'. readblock_loop L es buf = (Read_ok (buf @ take L (stream_bytes es)), es') \<and>
        stream_bytes es' = drop L (stream_bytes es) \<and> stream_ends es' = stream_ends es)) \<and>
   (length (stream_bytes es) < L \<and> stream_ends es \<longrightarrow>
     (\<exists>es'. readblock_loop L es buf = (Read_fail, es'))) \<and>
   (length (stream_bytes es) < L \<and> \<not> stream_ends es \<longrightarrow>
     readblock_loop L es buf = (Read_blocks, []))"
proof (induction L es buf rule: readblock_loop.induct)
  case (1 L es buf)
  show ?case
  proof (cases "L = 0")
    case True
    then show ?thesis by (simp add: readblock_loop.simps)
  next
    case L: False
    note unf = readblock_loop.simps [of L es buf]
    show ?thesis
    proof (cases "sys_read L es")
      case None
      with L show ?thesis using sys_read_None [OF None] by (simp add: unf)
    next
      case (Some p)
      obtain r es' where p: "p = (r, es')" by (cases p)
      note st = sys_read_stream [OF Some [unfolded p]]
      show ?thesis
      proof (cases r)
        case (Got bs)
        then have step: "readblock_loop L es buf = readblock_loop (L - length bs) es' (buf @ bs)"
          using L Some p by (simp add: unf)
        have "length bs \<le> L" using sys_read_Got [of L es bs es'] Some p Got L by simp
        then show ?thesis
          unfolding step using 1(1) [OF L Some p [symmetric] Got] st L Got by auto
      next
        case Got_intr
        then have step: "readblock_loop L es buf = readblock_loop L es' buf"
          using L Some p by (simp add: unf)
        show ?thesis
          unfolding step using 1(2) [OF L Some p [symmetric] Got_intr] st L Got_intr by simp
      qed (use L Some p st in \<open>simp_all add: unf\<close>)
    qed
  qed
qed

lemma nio_readblock_ok:
  "L \<le> length (stream_bytes es) \<Longrightarrow>
   \<exists>es'. nio_readblock L es = (Read_ok (take L (stream_bytes es)), es') \<and>
     stream_bytes es' = drop L (stream_bytes es) \<and> stream_ends es' = stream_ends es"
  using readblock_loop_spec [of L es "[]"] by (simp add: nio_readblock_def)

lemma nio_readblock_fail:
  "length (stream_bytes es) < L \<Longrightarrow> stream_ends es \<Longrightarrow> \<exists>es'. nio_readblock L es = (Read_fail, es')"
  using readblock_loop_spec [of L es "[]"] by (simp add: nio_readblock_def)

lemma nio_readblock_blocks:
  "length (stream_bytes es) < L \<Longrightarrow> \<not> stream_ends es \<Longrightarrow> nio_readblock L es = (Read_blocks, [])"
  using readblock_loop_spec [of L es "[]"] by (simp add: nio_readblock_def)

section \<open>Writing\<close>

text \<open>What each \<open>write\<close> does: accept up to so many bytes, be interrupted, or fail.\<close>

datatype wr_event = Accept nat | Wr_intr | Wr_error

datatype wr_result = Write_ok nat | Write_fail | Write_blocks

text \<open>
  The loop of \<open>nio_writeblock\<close>. \<open>mem\<close> is the memory from \<open>buf\<close> on, the buffer and what follows
  it; \<open>off\<close> is how far \<open>buf\<close> has moved; \<open>L2\<close> is the unsigned count of the loop. Every call passes
  the length \<open>L\<close>, not \<open>L2\<close>. The bytes sent are collected in \<open>wire\<close>. With no event left the
  call does not return.
\<close>

fun writeblock_loop :: "char list \<Rightarrow> nat \<Rightarrow> wr_event list \<Rightarrow> nat \<Rightarrow> 64 word \<Rightarrow> char list \<Rightarrow>
    (wr_result \<times> char list \<times> wr_event list) res" where
  "writeblock_loop mem L es off L2 wire =
     (if L2 = 0 then Inr (Write_ok L, wire, es)
      else (case es of
              [] \<Rightarrow> Inr (Write_blocks, wire, [])
            | Accept n # es' \<Rightarrow>
                (let c = min n L
                 in if length mem < off + c then Inl Over_read
                    else writeblock_loop mem L es' (off + c) (L2 - of_nat c)
                           (wire @ take c (drop off mem)))
            | Wr_intr # es' \<Rightarrow> writeblock_loop mem L es' off L2 wire
            | Wr_error # es' \<Rightarrow> Inr (Write_fail, wire, es')))"

declare writeblock_loop.simps [simp del]

definition nio_writeblock :: "char list \<Rightarrow> nat \<Rightarrow> wr_event list \<Rightarrow>
    (wr_result \<times> char list \<times> wr_event list) res" where
  "nio_writeblock mem L es = writeblock_loop mem L es 0 (of_nat L) []"

text \<open>A kernel that takes everything it is given, as a blocking socket normally does.\<close>

fun takes_all :: "nat \<Rightarrow> wr_event list \<Rightarrow> bool" where
  "takes_all L [] = False"
| "takes_all L (Accept n # es) = (L \<le> n)"
| "takes_all L (Wr_intr # es) = takes_all L es"
| "takes_all L (Wr_error # es) = False"

fun after_write :: "wr_event list \<Rightarrow> wr_event list" where
  "after_write [] = []"
| "after_write (Accept n # es) = es"
| "after_write (Wr_intr # es) = after_write es"
| "after_write (Wr_error # es) = es"

lemma size_t_nonzero: "0 < L \<Longrightarrow> L < 2 ^ 64 \<Longrightarrow> (of_nat L :: 64 word) \<noteq> 0"
  by (auto simp: word_of_nat_eq_0_iff dest: nat_dvd_not_less)

lemma writeblock_loop_full:
  "takes_all L es \<Longrightarrow> 0 < L \<Longrightarrow> L < 2 ^ 64 \<Longrightarrow> L \<le> length mem \<Longrightarrow>
   writeblock_loop mem L es 0 (of_nat L) [] = Inr (Write_ok L, take L mem, after_write es)"
proof (induction L es rule: takes_all.induct)
  case (2 L n es)
  then have "(of_nat L :: 64 word) \<noteq> 0" by (simp add: size_t_nonzero)
  with 2 show ?case by (simp add: writeblock_loop.simps Let_def min_def)
next
  case (3 L es)
  then have "(of_nat L :: 64 word) \<noteq> 0" by (simp add: size_t_nonzero)
  with 3 show ?case by (subst writeblock_loop.simps) simp
qed auto

lemma writeblock_loop_accept:
  "L2 \<noteq> 0 \<Longrightarrow> off + min n L \<le> length mem \<Longrightarrow>
   writeblock_loop mem L (Accept n # es) off L2 wire =
     writeblock_loop mem L es (off + min n L) (L2 - of_nat (min n L))
       (wire @ take (min n L) (drop off mem))"
  by (subst writeblock_loop.simps) (simp add: Let_def)

text \<open>A call that accepts only part of the buffer, followed by one that accepts all it is given.\<close>

lemma writeblock_partial:
  assumes "0 < c" "c < length buf" "length buf < 2 ^ 63" "length buf \<le> m" "c \<le> length beyond"
  shows "nio_writeblock (buf @ beyond) (length buf) (Accept c # Accept m # es) =
     writeblock_loop (buf @ beyond) (length buf) es (c + length buf) (- of_nat c)
       (buf @ take c beyond)"
proof -
  let ?L = "length buf" and ?w = "of_nat :: nat \<Rightarrow> 64 word" and ?mem = "buf @ beyond"
  have min: "min c ?L = c" "min m ?L = ?L" using assms(2,4) by auto
  have L: "?w ?L \<noteq> 0" using assms(1-3) by (intro size_t_nonzero) auto
  have "?w ?L - ?w c = ?w (?L - c)" using assms(2) by (simp add: of_nat_diff)
  moreover have "?w (?L - c) \<noteq> 0" using assms(2,3) by (intro size_t_nonzero) auto
  ultimately have d: "?w ?L - ?w c \<noteq> 0" by metis
  have "take c ?mem @ take ?L (drop c ?mem) = take (c + ?L) ?mem" by (rule take_add [symmetric])
  also have "\<dots> = buf @ take c beyond" by simp
  finally have sent: "take c ?mem @ take ?L (drop c ?mem) = buf @ take c beyond" .
  have "nio_writeblock ?mem ?L (Accept c # Accept m # es) =
      writeblock_loop ?mem ?L (Accept m # es) c (?w ?L - ?w c) (take c ?mem)"
    using writeblock_loop_accept [of "?w ?L" 0 c ?L ?mem "Accept m # es" "[]"] L assms(2)
    unfolding nio_writeblock_def min by (simp only: drop_0 append_Nil add_0_left length_append) simp
  also have "\<dots> = writeblock_loop ?mem ?L es (c + ?L) (?w ?L - ?w c - ?w ?L)
      (take c ?mem @ take ?L (drop c ?mem))"
    using writeblock_loop_accept [of "?w ?L - ?w c" c m ?L ?mem es "take c ?mem"] d assms(5)
    unfolding min by (simp only: length_append) simp
  also have "?w ?L - ?w c - ?w ?L = - ?w c" by simp
  finally show ?thesis unfolding sent .
qed

section \<open>The descriptors of a process\<close>

text \<open>
  An open socket: what can be read, what writes will do, and what has been written so far. The
  process has its open sockets, the ones in its epoll set, what its memory holds behind any
  buffer it hands to the kernel (\<open>junk\<close>), the padding of a header on its stack, and a count of
  \<open>close\<close> calls on descriptors that were not open.
\<close>

record conn =
  rx :: "rd_event list"
  wx :: "wr_event list"
  tx :: "char list"

record net =
  conns :: "int \<rightharpoonup> conn"
  polled :: "int set"
  junk :: "char list"
  hdr_pad :: "char list"
  bad_closes :: nat

definition sys_close :: "net \<Rightarrow> int \<Rightarrow> net" where
  "sys_close n s =
     (if conns n s = None then n\<lparr>bad_closes := Suc (bad_closes n)\<rparr>
      else n\<lparr>conns := (conns n)(s := None), polled := polled n - {s}\<rparr>)"

definition nio_epoll_add :: "net \<Rightarrow> int \<Rightarrow> int \<times> net" where
  "nio_epoll_add n s =
     (if conns n s = None \<or> s \<in> polled n then (-1, n) else (0, n\<lparr>polled := insert s (polled n)\<rparr>))"

definition nio_epoll_del :: "net \<Rightarrow> int \<Rightarrow> int \<times> net" where
  "nio_epoll_del n s =
     (if conns n s = None \<or> s \<notin> polled n then (-1, n) else (0, n\<lparr>polled := polled n - {s}\<rparr>))"

text \<open>\<open>nio_readblock\<close> on a descriptor: \<open>None\<close> is its result -1.\<close>

definition net_readblock :: "net \<Rightarrow> int \<Rightarrow> nat \<Rightarrow> (char list option \<times> net) res" where
  "net_readblock n s L =
     (if L = 0 then Inr (Some [], n)
      else (case conns n s of
              None \<Rightarrow> Inr (None, n)
            | Some c \<Rightarrow>
                (case nio_readblock L (rx c) of
                   (Read_ok bs, es) \<Rightarrow> Inr (Some bs, n\<lparr>conns := (conns n)(s \<mapsto> c\<lparr>rx := es\<rparr>)\<rparr>)
                 | (Read_fail, es) \<Rightarrow> Inr (None, n\<lparr>conns := (conns n)(s \<mapsto> c\<lparr>rx := es\<rparr>)\<rparr>)
                 | (Read_blocks, es) \<Rightarrow> Inl Blocks)))"

text \<open>\<open>nio_writeblock\<close> of a whole buffer on a descriptor.\<close>

definition net_writeblock :: "net \<Rightarrow> int \<Rightarrow> char list \<Rightarrow> (int \<times> net) res" where
  "net_writeblock n s buf =
     (if buf = [] then Inr (0, n)
      else (case conns n s of
              None \<Rightarrow> Inr (-1, n)
            | Some c \<Rightarrow>
                rbind (nio_writeblock (buf @ junk n) (length buf) (wx c)) (\<lambda>(r, w, es).
                  let n' = n\<lparr>conns := (conns n)(s \<mapsto> c\<lparr>wx := es, tx := tx c @ w\<rparr>)\<rparr>
                  in (case r of
                        Write_ok m \<Rightarrow> Inr (int m, n')
                      | Write_fail \<Rightarrow> Inr (-1, n')
                      | Write_blocks \<Rightarrow> Inl Blocks))))"

text \<open>
  The pattern of every sender: the header, then the buffer it announces; -1 at the first write
  that fails.
\<close>

definition send_msg :: "net \<Rightarrow> int \<Rightarrow> 32 word \<Rightarrow> char list \<Rightarrow> (int \<times> net) res" where
  "send_msg n s op buf =
     rbind (net_writeblock n s (encode_header (hdr_pad n) \<lparr>opcode = op, len = of_nat (length buf)\<rparr>))
       (\<lambda>(cc, n1). if cc < 0 then Inr (-1, n1)
          else rbind (net_writeblock n1 s buf) (\<lambda>(cc2, n2). if cc2 < 0 then Inr (-1, n2) else Inr (0, n2)))"

definition read_header :: "net \<Rightarrow> int \<Rightarrow> (rb_header option \<times> net) res" where
  "read_header n s =
     rbind (net_readblock n s sizeof_header) (\<lambda>(r, n1). Inr (map_option decode_header r, n1))"

section \<open>Setting up connections\<close>

text \<open>
  What the kernel answers to the calls that make a socket: the descriptor of \<open>socket\<close>, the
  results of \<open>setsockopt\<close>, \<open>bind\<close>, \<open>listen\<close>, \<open>connect\<close> and of \<open>epoll_ctl\<close>, and the connection that results.
\<close>

record sock_answers =
  an_socket :: int
  an_setsockopt :: int
  an_bind :: int
  an_listen :: int
  an_connect :: int
  an_epoll_ctl :: int
  an_conn :: conn

definition open_socket :: "net \<Rightarrow> sock_answers \<Rightarrow> net" where
  "open_socket n a = n\<lparr>conns := (conns n)(an_socket a \<mapsto> an_conn a)\<rparr>"

text \<open>\<open>epoll_create\<close>: a new, empty epoll set in \<open>efd\<close>; \<open>epoll_ctl\<close> with \<open>EPOLL_CTL_ADD\<close>.\<close>

definition epoll_create :: "net \<Rightarrow> net" where
  "epoll_create n = n\<lparr>polled := {}\<rparr>"

definition epoll_add_or_close :: "net \<Rightarrow> sock_answers \<Rightarrow> int \<times> net" where
  "epoll_add_or_close n a =
     (if an_epoll_ctl a < 0 then (-1, sys_close n (an_socket a))
      else (an_socket a, n\<lparr>polled := insert (an_socket a) (polled n)\<rparr>))"

definition nio_server_init :: "net \<Rightarrow> sock_answers \<Rightarrow> int \<times> net" where
  "nio_server_init n0 a =
     (let n = epoll_create n0 in
      if an_socket a < 0 then (-1, n)
      else let n1 = open_socket n a in
      if an_setsockopt a < 0 then (-2, sys_close n1 (an_socket a))
      else if an_bind a < 0 then (-1, sys_close n1 (an_socket a))
      else if an_listen a < 0 then (-3, sys_close n1 (an_socket a))
      else epoll_add_or_close n1 a)"

definition nio_client_connect :: "net \<Rightarrow> sock_answers \<Rightarrow> int \<times> net" where
  "nio_client_connect n a =
     (if an_socket a < 0 then (-1, n)
      else let n1 = open_socket n a in
      if an_setsockopt a < 0 then (-2, sys_close n1 (an_socket a))
      else if an_connect a < 0 then (-1, sys_close n1 (an_socket a))
      else (an_socket a, n1))"

definition nio_client_init :: "net \<Rightarrow> sock_answers \<Rightarrow> int \<times> net" where
  "nio_client_init n a =
     (let (s, n1) = nio_client_connect n a in
      if s < 0 then (-1, sys_close n1 s)
      else epoll_add_or_close (epoll_create n1) a)"

section \<open>A request and its reply\<close>

text \<open>
  \<open>nio_client_rw\<close>: the reply's header and buffer; \<open>rep_buf = None\<close> where \<open>rep->msg_buf\<close> was not
  assigned (a reply of length 0, after which the socket is not closed either).
\<close>

record reply =
  rep_header :: rb_header
  rep_buf :: "char list option"

definition nio_client_rw :: "net \<Rightarrow> sock_answers \<Rightarrow> rb_header \<Rightarrow> char list \<Rightarrow> (reply option \<times> net) res" where
  "nio_client_rw n a req msg =
     (let (s, n0) = nio_client_connect n a in
      if s < 0 then Inr (None, sys_close n0 s)
      else rbind (net_writeblock n0 s (encode_header [] req)) (\<lambda>(cc, n1).
        if cc < 0 then Inr (None, sys_close n1 s)
        else rbind (if 0 < len req then net_writeblock n1 s (take (unat (len req)) msg) else Inr (0, n1))
          (\<lambda>(cc2, n2).
            if cc2 < 0 then Inr (None, sys_close n2 s)
            else rbind (read_header n2 s) (\<lambda>(h, n3).
              case h of
                None \<Rightarrow> Inr (None, sys_close n3 s)
              | Some hdr \<Rightarrow>
                  if len hdr = 0 then Inr (Some \<lparr>rep_header = hdr, rep_buf = None\<rparr>, n3)
                  else rbind (net_readblock n3 s (unat (len hdr))) (\<lambda>(b, n4).
                    case b of
                      None \<Rightarrow> Inr (None, sys_close n4 s)
                    | Some buf \<Rightarrow>
                        Inr (Some \<lparr>rep_header = hdr, rep_buf = Some buf\<rparr>, sys_close n4 s))))))"

section \<open>Messages that arrive\<close>

text \<open>A write that the kernel takes whole.\<close>

lemma net_writeblock_ok:
  assumes "conns n s = Some c" "takes_all (length buf) (wx c)" "buf \<noteq> []" "length buf < 2 ^ 64"
  shows "net_writeblock n s buf = Inr (int (length buf),
    n\<lparr>conns := (conns n)(s \<mapsto> c\<lparr>wx := after_write (wx c), tx := tx c @ buf\<rparr>)\<rparr>)"
proof -
  have "nio_writeblock (buf @ junk n) (length buf) (wx c) = Inr (Write_ok (length buf), buf, after_write (wx c))"
    using writeblock_loop_full [OF assms(2), of "buf @ junk n"] assms(3,4) by (simp add: nio_writeblock_def)
  then show ?thesis using assms(1,3) by (simp add: net_writeblock_def)
qed

definition message :: "char list \<Rightarrow> 32 word \<Rightarrow> char list \<Rightarrow> char list" where
  "message pad op buf = encode_header pad \<lparr>opcode = op, len = of_nat (length buf)\<rparr> @ buf"

definition accepts_msg :: "char list \<Rightarrow> wr_event list \<Rightarrow> bool" where
  "accepts_msg buf es \<longleftrightarrow> takes_all sizeof_header es \<and> (buf = [] \<or> takes_all (length buf) (after_write es))"

definition after_msg :: "char list \<Rightarrow> wr_event list \<Rightarrow> wr_event list" where
  "after_msg buf es = (if buf = [] then after_write es else after_write (after_write es))"

lemma encode_header_nonempty [simp]: "encode_header pad h \<noteq> []"
  by (metis length_encode_header list.size(3) sizeof_header_def zero_neq_numeral)

lemma header_size_t [simp]: "sizeof_header < 2 ^ 64"
  by (simp add: sizeof_header_def)

lemma send_header_ok:
  assumes "conns n s = Some c" "takes_all sizeof_header (wx c)"
  shows "net_writeblock n s (encode_header pad h) = Inr (int sizeof_header,
    n\<lparr>conns := (conns n)(s \<mapsto> c\<lparr>wx := after_write (wx c), tx := tx c @ encode_header pad h\<rparr>)\<rparr>)"
  using net_writeblock_ok [OF assms(1), of "encode_header pad h"] assms(2) header_size_t
  by (simp only: length_encode_header encode_header_nonempty simp_thms)

lemma send_msg_ok:
  assumes "conns n s = Some c" "accepts_msg buf (wx c)" "length buf < 2 ^ 64"
  shows "send_msg n s op buf = Inr (0,
    n\<lparr>conns := (conns n)(s \<mapsto> c\<lparr>wx := after_msg buf (wx c), tx := tx c @ message (hdr_pad n) op buf\<rparr>)\<rparr>)"
proof -
  let ?h = "encode_header (hdr_pad n) \<lparr>opcode = op, len = of_nat (length buf)\<rparr>"
  let ?c = "c\<lparr>wx := after_write (wx c), tx := tx c @ ?h\<rparr>" let ?n = "n\<lparr>conns := (conns n)(s \<mapsto> ?c)\<rparr>"
  have h: "net_writeblock n s ?h = Inr (int sizeof_header, ?n)"
    using send_header_ok [OF assms(1)] assms(2) by (simp add: accepts_msg_def)
  show ?thesis
  proof (cases "buf = []")
    case True
    then show ?thesis using h by (simp add: send_msg_def net_writeblock_def message_def after_msg_def)
  next
    case False
    have "net_writeblock ?n s buf = Inr (int (length buf),
        ?n\<lparr>conns := (conns ?n)(s \<mapsto> ?c\<lparr>wx := after_write (wx ?c), tx := tx ?c @ buf\<rparr>)\<rparr>)"
      using assms(2,3) False by (intro net_writeblock_ok) (simp_all add: accepts_msg_def)
    with h False show ?thesis by (simp add: send_msg_def message_def after_msg_def)
  qed
qed

text \<open>A read of what has arrived.\<close>

lemma net_readblock_ok:
  assumes "conns n s = Some c" "L \<le> length (stream_bytes (rx c))"
  shows "\<exists>es. net_readblock n s L =
      Inr (Some (take L (stream_bytes (rx c))), n\<lparr>conns := (conns n)(s \<mapsto> c\<lparr>rx := es\<rparr>)\<rparr>) \<and>
    stream_bytes es = drop L (stream_bytes (rx c)) \<and> stream_ends es = stream_ends (rx c)"
proof (cases "L = 0")
  case True
  have "n\<lparr>conns := (conns n)(s \<mapsto> c\<lparr>rx := rx c\<rparr>)\<rparr> = n" using assms(1) by (simp add: fun_upd_idem)
  with True show ?thesis by (intro exI [of _ "rx c"]) (simp add: net_readblock_def)
next
  case False
  from nio_readblock_ok [OF assms(2)] obtain es where
    "nio_readblock L (rx c) = (Read_ok (take L (stream_bytes (rx c))), es)"
    "stream_bytes es = drop L (stream_bytes (rx c))" "stream_ends es = stream_ends (rx c)" by blast
  with False assms(1) show ?thesis by (intro exI [of _ es]) (simp add: net_readblock_def)
qed

lemma net_readblock_short:
  assumes "conns n s = Some c" "length (stream_bytes (rx c)) < L" "stream_ends (rx c)"
  shows "\<exists>es. net_readblock n s L = Inr (None, n\<lparr>conns := (conns n)(s \<mapsto> c\<lparr>rx := es\<rparr>)\<rparr>)"
  using nio_readblock_fail [OF assms(2,3)] assms(1,2) by (auto simp: net_readblock_def)

text \<open>The two halves of a message, as every receiver reads them.\<close>

definition recv_msg :: "net \<Rightarrow> int \<Rightarrow> ((rb_header \<times> char list) option \<times> net) res" where
  "recv_msg n s =
     rbind (read_header n s) (\<lambda>(h, n1).
       case h of
         None \<Rightarrow> Inr (None, n1)
       | Some hdr \<Rightarrow> rbind (net_readblock n1 s (unat (len hdr))) (\<lambda>(b, n2).
           Inr (map_option (\<lambda>buf. (hdr, buf)) b, n2)))"

lemma read_header_ok:
  assumes "conns n s = Some c" "stream_bytes (rx c) = encode_header pad h @ rest"
  shows "\<exists>es. read_header n s = Inr (Some h, n\<lparr>conns := (conns n)(s \<mapsto> c\<lparr>rx := es\<rparr>)\<rparr>) \<and>
    stream_bytes es = rest \<and> stream_ends es = stream_ends (rx c)"
proof -
  have "sizeof_header \<le> length (stream_bytes (rx c))" using assms(2) by simp
  from net_readblock_ok [OF assms(1) this] assms(2) show ?thesis
    by (auto simp: read_header_def)
qed

lemma recv_msg_ok:
  assumes "conns n s = Some c" "stream_bytes (rx c) = message pad op buf @ rest" "length buf < 2 ^ 64"
  shows "\<exists>es. recv_msg n s = Inr (Some (\<lparr>opcode = op, len = of_nat (length buf)\<rparr>, buf),
      n\<lparr>conns := (conns n)(s \<mapsto> c\<lparr>rx := es\<rparr>)\<rparr>) \<and>
    stream_bytes es = rest \<and> stream_ends es = stream_ends (rx c)"
proof -
  have L: "unat (of_nat (length buf) :: 64 word) = length buf"
    using assms(3) by (simp add: unat_of_nat take_bit_nat_eq_self)
  from read_header_ok [OF assms(1)] assms(2) obtain es where es:
    "read_header n s = Inr (Some \<lparr>opcode = op, len = of_nat (length buf)\<rparr>, n\<lparr>conns := (conns n)(s \<mapsto> c\<lparr>rx := es\<rparr>)\<rparr>)"
    "stream_bytes es = buf @ rest" "stream_ends es = stream_ends (rx c)"
    by (fastforce simp: message_def)
  let ?n = "n\<lparr>conns := (conns n)(s \<mapsto> c\<lparr>rx := es\<rparr>)\<rparr>"
  have "conns ?n s = Some (c\<lparr>rx := es\<rparr>)" "length buf \<le> length (stream_bytes (rx (c\<lparr>rx := es\<rparr>)))"
    using es(2) by simp_all
  from net_readblock_ok [OF this] es show ?thesis by (auto simp: recv_msg_def L)
qed

section \<open>One request and one reply\<close>

text \<open>A request whose socket calls succeed, to a peer that answers with a whole message.\<close>

definition connects :: "sock_answers \<Rightarrow> bool" where
  "connects a \<longleftrightarrow> 0 \<le> an_socket a \<and> 0 \<le> an_setsockopt a \<and> 0 \<le> an_connect a"

lemma nio_client_rw_ok:
  assumes "connects a" "accepts_msg [] (wx (an_conn a))"
    and "stream_bytes (rx (an_conn a)) = message pad op buf" "buf \<noteq> []" "length buf < 2 ^ 64"
  shows "\<exists>n'. nio_client_rw n a \<lparr>opcode = rq, len = 0\<rparr> [] =
      Inr (Some \<lparr>rep_header = \<lparr>opcode = op, len = of_nat (length buf)\<rparr>, rep_buf = Some buf\<rparr>, n') \<and>
    conns n' = (conns n)(an_socket a := None) \<and> junk n' = junk n \<and> bad_closes n' = bad_closes n"
proof -
  let ?s = "an_socket a" and ?c = "an_conn a" and ?h = "\<lparr>opcode = op, len = of_nat (length buf)\<rparr> :: rb_header"
  let ?req = "\<lparr>opcode = rq, len = 0\<rparr> :: rb_header"
  let ?c1 = "?c\<lparr>wx := after_write (wx ?c), tx := tx ?c @ encode_header [] ?req\<rparr>"
  let ?n0 = "open_socket n a" and ?n1 = "n\<lparr>conns := (conns n)(?s \<mapsto> ?c1)\<rparr>"
  have conn: "nio_client_connect n a = (?s, ?n0)" "\<not> ?s < 0"
    using assms(1) by (auto simp: connects_def nio_client_connect_def Let_def)
  have w: "net_writeblock ?n0 ?s (encode_header [] ?req) = Inr (int sizeof_header, ?n1)"
    using assms(2) by (subst send_header_ok [where c = ?c]) (simp_all add: open_socket_def accepts_msg_def)
  have L: "unat (of_nat (length buf) :: 64 word) = length buf"
    using assms(5) by (simp add: unat_of_nat take_bit_nat_eq_self)
  then have L0: "(of_nat (length buf) :: 64 word) \<noteq> 0" using assms(4) by (metis length_0_conv unat_0)
  have "conns ?n1 ?s = Some ?c1" "stream_bytes (rx ?c1) = encode_header pad ?h @ buf"
    using assms(3) by (simp_all add: message_def)
  from read_header_ok [OF this] obtain es where
    r: "read_header ?n1 ?s = Inr (Some ?h, ?n1\<lparr>conns := (conns ?n1)(?s \<mapsto> ?c1\<lparr>rx := es\<rparr>)\<rparr>)"
    "stream_bytes es = buf" by blast
  let ?n2 = "n\<lparr>conns := (conns n)(?s \<mapsto> ?c1\<lparr>rx := es\<rparr>)\<rparr>"
  have "conns ?n2 ?s = Some (?c1\<lparr>rx := es\<rparr>)" "length buf \<le> length (stream_bytes (rx (?c1\<lparr>rx := es\<rparr>)))"
    using r(2) by simp_all
  from net_readblock_ok [OF this] r(2) obtain es2 where
    "net_readblock ?n2 ?s (length buf) = Inr (Some buf, ?n2\<lparr>conns := (conns ?n2)(?s \<mapsto> ?c1\<lparr>rx := es2\<rparr>)\<rparr>)"
    by auto
  then show ?thesis
    using conn w r(1) L L0 by (simp add: nio_client_rw_def sys_close_def)
qed

section \<open>What reading and writing leave alone\<close>

text \<open>Input and output open and close nothing.\<close>

definition same_sockets :: "net \<Rightarrow> net \<Rightarrow> bool" where
  "same_sockets n n' \<longleftrightarrow> dom (conns n') = dom (conns n) \<and> polled n' = polled n \<and>
     bad_closes n' = bad_closes n \<and> junk n' = junk n \<and> hdr_pad n' = hdr_pad n"

lemma same_sockets_refl [simp]: "same_sockets n n"
  by (simp add: same_sockets_def)

lemma same_sockets_trans: "same_sockets n n' \<Longrightarrow> same_sockets n' n'' \<Longrightarrow> same_sockets n n''"
  by (simp add: same_sockets_def)

lemma same_sockets_upd: "conns n s = Some c \<Longrightarrow> same_sockets n (n\<lparr>conns := (conns n)(s \<mapsto> c')\<rparr>)"
  by (auto simp: same_sockets_def)

lemma net_readblock_same: "net_readblock n s L = Inr (r, n') \<Longrightarrow> same_sockets n n'"
  by (auto simp: net_readblock_def same_sockets_upd split: if_splits option.splits rd_result.splits prod.splits)

lemma net_writeblock_same:
  assumes "net_writeblock n s buf = Inr (r, n')"
  shows "same_sockets n n'"
proof (cases "buf = [] \<or> conns n s = None")
  case True
  with assms show ?thesis by (auto simp: net_writeblock_def split: if_splits)
next
  case False
  then obtain c where c: "conns n s = Some c" by auto
  with assms False obtain w out es where
    "nio_writeblock (buf @ junk n) (length buf) (wx c) = Inr (w, out, es)"
    and r: "(case w of Write_ok m \<Rightarrow> Inr (int m, n\<lparr>conns := (conns n)(s \<mapsto> c\<lparr>wx := es, tx := tx c @ out\<rparr>)\<rparr>)
       | Write_fail \<Rightarrow> Inr (-1, n\<lparr>conns := (conns n)(s \<mapsto> c\<lparr>wx := es, tx := tx c @ out\<rparr>)\<rparr>)
       | Write_blocks \<Rightarrow> Inl Blocks) = Inr (r, n')"
    by (auto simp: net_writeblock_def fault_simps Let_def)
  then have "n' = n\<lparr>conns := (conns n)(s \<mapsto> c\<lparr>wx := es, tx := tx c @ out\<rparr>)\<rparr>" by (cases w) auto
  with same_sockets_upd [OF c] show ?thesis by simp
qed

lemma read_header_same: "read_header n s = Inr (r, n') \<Longrightarrow> same_sockets n n'"
  by (auto simp: read_header_def fault_simps dest: net_readblock_same)

lemma send_msg_same: "send_msg n s op buf = Inr (r, n') \<Longrightarrow> same_sockets n n'"
  by (auto simp: send_msg_def fault_simps split: if_splits
      dest!: net_writeblock_same intro: same_sockets_trans)

text \<open>The epoll set holds open sockets only.\<close>

definition net_wf :: "net \<Rightarrow> bool" where
  "net_wf n \<longleftrightarrow> polled n \<subseteq> dom (conns n)"

lemma net_wf_same: "same_sockets n n' \<Longrightarrow> net_wf n \<Longrightarrow> net_wf n'"
  by (simp add: same_sockets_def net_wf_def)

lemma net_wf_close: "net_wf n \<Longrightarrow> net_wf (sys_close n s)"
  by (auto simp: net_wf_def sys_close_def)

lemma net_wf_add: "net_wf n \<Longrightarrow> net_wf (snd (nio_epoll_add n s))"
  by (auto simp: net_wf_def nio_epoll_add_def)

lemma net_wf_del: "net_wf n \<Longrightarrow> net_wf (snd (nio_epoll_del n s))"
  by (auto simp: net_wf_def nio_epoll_del_def)

lemma bad_closes_close: "conns n s \<noteq> None \<Longrightarrow> bad_closes (sys_close n s) = bad_closes n"
  by (auto simp: sys_close_def)

lemma bad_closes_epoll [simp]:
  "bad_closes (snd (nio_epoll_add n s)) = bad_closes n" "bad_closes (snd (nio_epoll_del n s)) = bad_closes n"
  by (simp_all add: nio_epoll_add_def nio_epoll_del_def)

lemma conns_epoll [simp]:
  "conns (snd (nio_epoll_add n s)) = conns n" "conns (snd (nio_epoll_del n s)) = conns n"
  by (simp_all add: nio_epoll_add_def nio_epoll_del_def)

lemma polled_close: "polled (sys_close n s) \<subseteq> polled n"
  by (simp add: sys_close_def)

lemma closed_not_polled: "net_wf n \<Longrightarrow> s \<notin> polled (sys_close n s) \<and> conns (sys_close n s) s = None"
  by (auto simp: net_wf_def sys_close_def)

section \<open>The formats of the messages\<close>

text \<open>
  A format is how a sender prints a value into the buffer it sends and how the receiver reads it
  from the memory where the buffer arrived: the buffer and whatever lies behind it. The law is that
  what can be sent is read back when the memory behind the buffer does not continue the text.
\<close>

locale message_format =
  fixes enc :: "'a \<Rightarrow> char list"
    and dec :: "char list \<Rightarrow> 'b res"
    and view :: "'a \<Rightarrow> 'b"
    and ok :: "'a \<Rightarrow> bool"
    and clean :: "char list \<Rightarrow> bool"
  assumes dec_enc: "ok x \<Longrightarrow> clean behind \<Longrightarrow> dec (enc x @ behind) = Inr (view x)"
    and enc_short: "ok x \<Longrightarrow> length (enc x) < 2 ^ 64"
begin

text \<open>Sent on one connection, received on the other end.\<close>

lemma exchange:
  assumes "ok x" "conns n s = Some c" "accepts_msg (enc x) (wx c)"
    and "conns m t = Some d" "clean (junk m)"
  shows "\<exists>n' c'. send_msg n s op (enc x) = Inr (0, n') \<and> conns n' s = Some c' \<and>
    (\<forall>sent rest. tx c' = tx c @ sent \<longrightarrow> stream_bytes (rx d) = sent @ rest \<longrightarrow>
      (\<exists>buf m'. recv_msg m t = Inr (Some (\<lparr>opcode = op, len = of_nat (length buf)\<rparr>, buf), m') \<and>
        dec (buf @ junk m') = Inr (view x)))"
proof -
  let ?msg = "message (hdr_pad n) op (enc x)"
  let ?c = "c\<lparr>wx := after_msg (enc x) (wx c), tx := tx c @ ?msg\<rparr>"
  have "send_msg n s op (enc x) = Inr (0, n\<lparr>conns := (conns n)(s \<mapsto> ?c)\<rparr>)"
    using send_msg_ok [OF assms(2,3) enc_short [OF assms(1)]] .
  moreover have "\<exists>buf m'. recv_msg m t = Inr (Some (\<lparr>opcode = op, len = of_nat (length buf)\<rparr>, buf), m') \<and>
      dec (buf @ junk m') = Inr (view x)" if "stream_bytes (rx d) = ?msg @ rest" for rest
    using recv_msg_ok [OF assms(4) that enc_short [OF assms(1)]] dec_enc [OF assms(1,5)] by auto
  ultimately show ?thesis by (intro exI [of _ "n\<lparr>conns := (conns n)(s \<mapsto> ?c)\<rparr>"] exI [of _ ?c]) auto
qed

text \<open>Sent as the reply to a request.\<close>

lemma request_reply:
  assumes "ok x" "enc x \<noteq> []" "connects a" "accepts_msg [] (wx (an_conn a))" "clean (junk n)"
    and "stream_bytes (rx (an_conn a)) = message pad op (enc x)"
  shows "\<exists>n' r buf. nio_client_rw n a \<lparr>opcode = rq, len = 0\<rparr> [] = Inr (Some r, n') \<and>
    opcode (rep_header r) = op \<and> rep_buf r = Some buf \<and> dec (buf @ junk n') = Inr (view x) \<and>
    conns n' = (conns n)(an_socket a := None) \<and> bad_closes n' = bad_closes n"
  using nio_client_rw_ok [OF assms(3,4,6,2) enc_short [OF assms(1)], of n rq] dec_enc [OF assms(1,5)]
  by fastforce

end

section \<open>Properties\<close>

text \<open>C14. nio_readblock returns exactly the bytes asked for, whatever pieces they arrive in and
  however often the call is interrupted, and leaves the rest of the stream in place; when the peer
  ends before, it fails, and when the peer stays silent it does not return.\<close>

theorem nio_readblock_exact:
  "(L \<le> length (stream_bytes es) \<longrightarrow>
     (\<exists>es'. nio_readblock L es = (Read_ok (take L (stream_bytes es)), es') \<and>
       stream_bytes es' = drop L (stream_bytes es) \<and> stream_ends es' = stream_ends es)) \<and>
   (length (stream_bytes es) < L \<longrightarrow> stream_ends es \<longrightarrow> (\<exists>es'. nio_readblock L es = (Read_fail, es'))) \<and>
   (length (stream_bytes es) < L \<longrightarrow> \<not> stream_ends es \<longrightarrow> nio_readblock L es = (Read_blocks, []))"
  using nio_readblock_ok nio_readblock_fail nio_readblock_blocks by blast

theorem nio_readblock_exact_witness:
  "(\<exists>es'. nio_readblock 3 [Data ''ab'', Rd_intr, Data ''cde'', Rd_eof] = (Read_ok ''abc'', es') \<and>
     stream_bytes es' = ''de'') \<and>
   (\<exists>es'. nio_readblock 3 [Data ''ab'', Rd_eof] = (Read_fail, es')) \<and>
   nio_readblock 3 [Data ''ab''] = (Read_blocks, [])"
  using nio_readblock_exact [of 3 "[Data ''ab'', Rd_intr, Data ''cde'', Rd_eof]"]
    nio_readblock_exact [of 3 "[Data ''ab'', Rd_eof]"] nio_readblock_exact [of 3 "[Data ''ab'']"]
  by auto

text \<open>nio_writeblock to a kernel that takes the whole buffer, after any number of interruptions,
  sends exactly the buffer.\<close>

lemma nio_writeblock_whole:
  assumes "takes_all (length buf) es" "buf \<noteq> []" "length buf < 2 ^ 64"
  shows "nio_writeblock (buf @ beyond) (length buf) es = Inr (Write_ok (length buf), buf, after_write es)"
  using writeblock_loop_full [OF assms(1), of "buf @ beyond"] assms(2,3) by (simp add: nio_writeblock_def)

text \<open>A partial write breaks nio_writeblock: when the kernel takes only the first \<open>c\<close> bytes and
  later all it is given, the loop sends the whole length again from the moved pointer, so the \<open>c\<close>
  bytes of memory behind the buffer go out too, its unsigned count of what is left wraps below
  zero, and the call keeps writing: it does not return with what was asked.\<close>

theorem nio_writeblock_partial_write:
  assumes "0 < c" "c < length buf" "length buf < 2 ^ 63" "length buf \<le> m" "c \<le> length beyond"
  shows "nio_writeblock (buf @ beyond) (length buf) [Accept c, Accept m] =
    Inr (Write_blocks, buf @ take c beyond, [])"
proof -
  have "(of_nat c :: 64 word) \<noteq> 0" using assms(1-3) by (intro size_t_nonzero) auto
  then have "- (of_nat c :: 64 word) \<noteq> 0" by simp
  then show ?thesis
    using writeblock_partial [OF assms, of "[]"] by (simp add: writeblock_loop.simps)
qed

theorem nio_writeblock_partial_write_witness:
  "nio_writeblock (''status'' @ ''SECRET'') (length ''status'') [Accept 2, Accept 6] =
    Inr (Write_blocks, ''statusSE'', [])"
  by (subst nio_writeblock_partial_write) simp_all

end
