(* ===== verification/Res.thy ===== *)
theory Res
  imports Nio Ini
begin

text \<open>
  The data of the broker daemon, from \<open>src/daemon/res.h\<close> and \<open>src/lib/libresb.h\<close>: the configuration,
  the queues and the servers. A \<open>char *\<close> is an optional string (\<open>None\<close> is NULL). The lists
  \<open>queues\<close> and \<open>servers\<close> are kept as the sequence of the structures they point to, first link first,
  and a pointer to a queue as its position: \<open>link_enque\<close> adds at the end (theory \<open>Link\<close>), and the
  broker never removes a link. \<open>calloc\<close> and \<open>strdup\<close> are taken to succeed.
\<close>

section \<open>Constants\<close>

definition MAX_NAME_LEN :: nat where "MAX_NAME_LEN = 128"
definition MAXHOSTNAMELEN :: nat where "MAXHOSTNAMELEN = 64"
definition MAX_EVENTS :: nat where "MAX_EVENTS = 1024"
definition RESOURCE_DETECT_TIMER :: int where "RESOURCE_DETECT_TIMER = 10"
definition EPOLL_TIMER :: int where "EPOLL_TIMER = 10"

definition SERVER_TYPE_VM :: int where "SERVER_TYPE_VM = 0"
definition SERVER_TYPE_CONTAINER :: int where "SERVER_TYPE_CONTAINER = 1"
definition SERVER_TYPE_CLOUD :: int where "SERVER_TYPE_CLOUD = 2"

definition MACHINE_VMS :: int where "MACHINE_VMS = 0"
definition MACHINE_CONTAINERS :: int where "MACHINE_CONTAINERS = 1"
definition MACHINE_CLOUD :: int where "MACHINE_CLOUD = 2"

definition MACHINE_ON :: int where "MACHINE_ON = 0"
definition MACHINE_OFF :: int where "MACHINE_OFF = 1"

lemmas type_defs =
  SERVER_TYPE_VM_def SERVER_TYPE_CONTAINER_def SERVER_TYPE_CLOUD_def
  MACHINE_VMS_def MACHINE_CONTAINERS_def MACHINE_CLOUD_def

section \<open>The structures\<close>

datatype queue_stat_t = QUEUE_STAT_IDLE | QUEUE_STAT_BORROWING

datatype server_stat_t = SERVER_REGISTERED | SERVER_UNREGISTERED

record resbd =
  host :: "string option"
  port :: int
  sock :: int
  epoll_timer :: int

record parameters =
  scheduler :: "string option"
  work_dir :: "string option"
  container_runtime :: "string option"
  vm_runtime :: "string option"
  workload_timer :: int
  log_mask :: "string option"

record queue =
  q_name :: string
  q_status :: queue_stat_t
  q_type :: int
  name_space :: "string option"
  machines :: "string list"
  borrow_factor0 :: int
  borrow_factor1 :: int
  num_pend_jobs :: int

record server =
  srv_socket :: int
  srv_name :: string
  srv_status :: server_stat_t
  srv_type :: int
  max_instances :: int

text \<open>The global variables of the daemon.\<close>

record broker =
  res :: resbd
  params :: parameters
  queues :: "queue list"
  servers :: "server list"
  my_uptime :: int
  simulate :: bool

section \<open>The initial data\<close>

text \<open>\<open>init_main_data\<close> of \<open>resbd.c\<close>, with the time of the call.\<close>

definition init_main_data :: "int \<Rightarrow> bool \<Rightarrow> broker" where
  "init_main_data now sim =
     \<lparr>res = \<lparr>host = None, port = 0, sock = 0, epoll_timer = EPOLL_TIMER * 1000\<rparr>,
      params = \<lparr>scheduler = None, work_dir = None, container_runtime = None, vm_runtime = None,
                workload_timer = 0, log_mask = None\<rparr>,
      queues = [], servers = [], my_uptime = now, simulate = sim\<rparr>"

section \<open>Names of types and requests\<close>

text \<open>\<open>srv_type2str\<close> and \<open>srv_req2str\<close> of \<open>libresb.c\<close>.\<close>

definition srv_type2str :: "int \<Rightarrow> string" where
  "srv_type2str t =
     (if t = SERVER_TYPE_VM then ''SERVER_TYPE_VM''
      else if t = SERVER_TYPE_CONTAINER then ''SERVER_TYPE_CONTAINER''
      else if t = SERVER_TYPE_CLOUD then ''SERVER_TYPE_CLOUD''
      else ''Unknown type'')"

definition srv_req2str :: "32 word \<Rightarrow> string" where
  "srv_req2str op =
     (if op = SERVER_BOOT_RESOURCES then ''SERVER_BOOT_RESOURCES''
      else if op = SERVER_SHUT_RESOURCES then ''SERVER_SHUT_RESOURCES''
      else ''Unknown operation code'')"

lemma srv_type2str_inj:
  "t \<in> {SERVER_TYPE_VM, SERVER_TYPE_CONTAINER, SERVER_TYPE_CLOUD} \<Longrightarrow>
   srv_type2str t = srv_type2str u \<Longrightarrow> t = u"
  by (auto simp: srv_type2str_def type_defs split: if_splits)

text \<open>The length of an optional string.\<close>

definition opt_len :: "string option \<Rightarrow> nat" where
  "opt_len s = (case s of None \<Rightarrow> 0 | Some t \<Rightarrow> length t)"

lemma opt_len_simps [simp]: "opt_len None = 0" "opt_len (Some t) = length t"
  by (simp_all add: opt_len_def)

definition no_NUL_opt :: "string option \<Rightarrow> bool" where
  "no_NUL_opt v = (case v of None \<Rightarrow> True | Some t \<Rightarrow> NUL \<notin> set t)"

lemma no_NUL_opt_simps [simp]: "no_NUL_opt None" "no_NUL_opt (Some t) = (NUL \<notin> set t)"
  by (simp_all add: no_NUL_opt_def)

end
