(* ===== verification/Conf.thy ===== *)
theory Conf
  imports Res
begin

text \<open>
  The configuration reader \<open>src/daemon/conf.c\<close>: the handler that the .ini parser calls with each
  key and value, and the routines it selects by the section.
\<close>

section \<open>The section resbd\<close>

definition init_resbd :: "broker \<Rightarrow> string \<Rightarrow> string \<Rightarrow> (broker \<times> bool) res" where
  "init_resbd b key val =
     (if strcaseeq key ''host'' then Inr (b\<lparr>res := (res b)\<lparr>host := Some val\<rparr>\<rparr>, True)
      else if strcaseeq key ''port'' then
        rbind (atoi val) (\<lambda>p. Inr (b\<lparr>res := (res b)\<lparr>port := p\<rparr>\<rparr>, True))
      else Inr (b, False))"

section \<open>The section params\<close>

definition set_default_params :: "parameters \<Rightarrow> parameters" where
  "set_default_params p =
     p\<lparr>scheduler := Some ''slurm'', container_runtime := Some ''docker'',
       vm_runtime := Some ''virsh'', workload_timer := 30, log_mask := Some ''LOG_INFO''\<rparr>"

text \<open>
  One key. The defaults are set first, at every call. The last test is not chained to the ones
  before it.
\<close>

definition init_params1 :: "parameters \<Rightarrow> string \<Rightarrow> string \<Rightarrow> parameters res" where
  "init_params1 p0 key val =
     (let p = set_default_params p0 in
      rbind (if strcaseeq key ''scheduler'' then Inr (p\<lparr>scheduler := Some val\<rparr>)
             else if strcaseeq key ''work_dir'' then Inr (p\<lparr>work_dir := Some val\<rparr>)
             else if strcaseeq key ''container_runtime'' then Inr (p\<lparr>container_runtime := Some val\<rparr>)
             else if strcaseeq key ''vm_runtime'' then Inr (p\<lparr>vm_runtime := Some val\<rparr>)
             else if strcaseeq key ''workload_timer'' then
               rbind (atoi val) (\<lambda>t. Inr (p\<lparr>workload_timer := t\<rparr>))
             else Inr p)
        (\<lambda>p. Inr (if strcaseeq key ''log_mask'' then p\<lparr>log_mask := Some (map toupper val)\<rparr> else p)))"

definition init_params :: "broker \<Rightarrow> string \<Rightarrow> string \<Rightarrow> (broker \<times> bool) res" where
  "init_params b key val =
     rbind (init_params1 (params b) key val) (\<lambda>p. Inr (b\<lparr>params := p\<rparr>, True))"

section \<open>The queue sections\<close>

text \<open>
  \<open>get_queue_by_name\<close> returns the position of the queue and the list, with a new queue at its end
  when there is none with that name.
\<close>

definition new_queue :: "string \<Rightarrow> queue" where
  "new_queue name =
     \<lparr>q_name = name, q_status = QUEUE_STAT_IDLE, q_type = 0, name_space = None, machines = [],
      borrow_factor0 = 0, borrow_factor1 = 0, num_pend_jobs = 0\<rparr>"

fun find_queue :: "queue list \<Rightarrow> string \<Rightarrow> nat option" where
  "find_queue [] name = None"
| "find_queue (q # qs) name =
     (if strcaseeq name (q_name q) then Some 0 else map_option Suc (find_queue qs name))"

definition get_queue_by_name :: "queue list \<Rightarrow> string \<Rightarrow> nat \<times> queue list" where
  "get_queue_by_name qs name =
     (case find_queue qs name of
        Some i \<Rightarrow> (i, qs)
      | None \<Rightarrow> (length qs, qs @ [new_queue name]))"

text \<open>\<open>sscanf(val, "%d %d", ...)\<close> on the two factors: a conversion that fails stores nothing.\<close>

definition scan_factors :: "string \<Rightarrow> int \<times> int \<Rightarrow> (int \<times> int) res" where
  "scan_factors val f =
     (case scan_d val of
        None \<Rightarrow> Inr f
      | Some (i, r) \<Rightarrow> rbind (c_int i) (\<lambda>i.
          case scan_d r of
            None \<Rightarrow> Inr (i, snd f)
          | Some (j, _) \<Rightarrow> rbind (c_int j) (\<lambda>j. Inr (i, j))))"

definition queue_type :: "string \<Rightarrow> int" where
  "queue_type val =
     (if strcaseeq val ''vm'' then MACHINE_VMS
      else if strcaseeq val ''container'' then MACHINE_CONTAINERS
      else if strcaseeq val ''cloud'' then MACHINE_CLOUD
      else MACHINE_VMS)"

text \<open>What one key does to its queue, in the order of the tests of \<open>init_queue\<close>; \<open>type\<close> is set twice.\<close>

definition set_queue_key :: "queue \<Rightarrow> string \<Rightarrow> string \<Rightarrow> queue res" where
  "set_queue_key q0 key val =
     (let q1 = (if strcaseeq key ''type''
                then q0\<lparr>q_type := (if strcaseeq val ''vm'' then MACHINE_VMS else MACHINE_CONTAINERS)\<rparr>
                else q0);
          q2 = (if strcaseeq key ''name_space'' then q1\<lparr>name_space := Some val\<rparr> else q1)
      in rbind (if strcaseeq key ''borrow_factor''
                then rbind (scan_factors val (borrow_factor0 q2, borrow_factor1 q2))
                       (\<lambda>(i, j). Inr (q2\<lparr>borrow_factor0 := i, borrow_factor1 := j\<rparr>))
                else Inr q2)
           (\<lambda>q3. Inr (if strcaseeq key ''type'' then q3\<lparr>q_type := queue_type val\<rparr> else q3)))"

definition init_queue :: "broker \<Rightarrow> string \<Rightarrow> string \<Rightarrow> string \<Rightarrow> (broker \<times> bool) res" where
  "init_queue b qname key val =
     (let (i, qs) = get_queue_by_name (queues b) qname
      in rbind (set_queue_key (qs ! i) key val) (\<lambda>q. Inr (b\<lparr>queues := qs[i := q]\<rparr>, True)))"

section \<open>The handler\<close>

text \<open>
  \<open>sscanf(section, "%*s%s", qname)\<close>: the second word. When there is none, \<open>qname\<close> is not written,
  and the strings it may hold are unknown: reading it is a fault. A section has at most 49
  characters, so the word fits in \<open>qname\<close>.
\<close>

definition second_word :: "string \<Rightarrow> string option" where
  "second_word sec =
     (case scan_s sec of None \<Rightarrow> None | Some (_, r) \<Rightarrow> map_option fst (scan_s r))"

definition handler :: "broker handler" where
  "handler b sec key val =
     (if strcaseeq sec ''resbd'' then init_resbd b key val
      else if strcaseeq sec ''params'' then init_params b key val
      else if strstr sec ''queue'' then
        rbind (initialised (second_word sec)) (\<lambda>qname. init_queue b qname key val)
      else Inr (b, True))"

definition read_config :: "string option \<Rightarrow> broker \<Rightarrow> (int \<times> broker) res" where
  "read_config fp b =
     rbind (ini_parse fp handler b) (\<lambda>(e, b'). Inr (if e < 0 then -1 else 0, b'))"

section \<open>What a configuration keeps\<close>

text \<open>
  The queues have names that differ, even up to the case of their letters, and known types; the
  numbers are in \<open>int\<close>; the parameters are short enough for the buffer of \<open>params_info\<close>.
\<close>

definition queue_ok :: "queue \<Rightarrow> bool" where
  "queue_ok q \<longleftrightarrow> is_word (q_name q) \<and> length (q_name q) < MAX_SECTION \<and>
     q_type q \<in> {MACHINE_VMS, MACHINE_CONTAINERS, MACHINE_CLOUD} \<and>
     int_range (borrow_factor0 q) \<and> int_range (borrow_factor1 q)"

definition names_differ :: "queue list \<Rightarrow> bool" where
  "names_differ qs \<longleftrightarrow> distinct (map (\<lambda>q. map tolower (q_name q)) qs)"

definition params_ok :: "parameters \<Rightarrow> bool" where
  "params_ok p \<longleftrightarrow> int_range (workload_timer p) \<and> opt_len (work_dir p) < INI_MAX_LINE \<and>
     opt_len (scheduler p) + opt_len (container_runtime p) + opt_len (vm_runtime p) +
       max 8 (opt_len (log_mask p)) < INI_MAX_LINE + 24 \<and>
     no_NUL_opt (scheduler p) \<and> no_NUL_opt (work_dir p) \<and> no_NUL_opt (container_runtime p) \<and>
     no_NUL_opt (vm_runtime p) \<and> no_NUL_opt (log_mask p)"

definition broker_wf :: "broker \<Rightarrow> bool" where
  "broker_wf b \<longleftrightarrow> int_range (port (res b)) \<and> params_ok (params b) \<and>
     names_differ (queues b) \<and> (\<forall>q \<in> set (queues b). queue_ok q)"

lemma atoi_range: "atoi s = Inr i \<Longrightarrow> int_range i"
  by (auto simp: atoi_def fault_simps int_range_simps split: option.splits)

lemma broker_wf_init: "broker_wf (init_main_data now sim)"
  by (simp add: broker_wf_def init_main_data_def params_ok_def names_differ_def int_range_simps INI_MAX_LINE_def)

lemma init_resbd_wf: "broker_wf b \<Longrightarrow> init_resbd b key val = Inr (b', r) \<Longrightarrow> broker_wf b'"
  by (auto simp: init_resbd_def broker_wf_def fault_simps atoi_range split: if_splits)

lemma toupper_NUL: "toupper c = NUL \<Longrightarrow> c = NUL"
proof -
  assume t: "toupper c = NUL"
  let ?n = "of_char c :: nat"
  have "\<not> (97 \<le> ?n \<and> ?n \<le> 122)"
  proof
    assume n: "97 \<le> ?n \<and> ?n \<le> 122"
    with t have "of_char (char_of (?n - 32) :: char) = (of_char NUL :: nat)" by (simp add: toupper_def)
    then have "(?n - 32) mod 256 = 0" by simp
    moreover have "?n - 32 < 256" using n by linarith
    ultimately have "?n - 32 = 0" using mod_less [of "?n - 32" 256] by simp
    with n show False by simp
  qed
  with t show ?thesis by (simp add: toupper_def split: if_splits)
qed

text \<open>One parameter at a time differs from its default.\<close>

lemma log_mask_key:
  "strcaseeq key ''log_mask'' \<Longrightarrow> \<not> strcaseeq key ''scheduler'' \<and> \<not> strcaseeq key ''work_dir'' \<and>
     \<not> strcaseeq key ''container_runtime'' \<and> \<not> strcaseeq key ''vm_runtime'' \<and>
     \<not> strcaseeq key ''workload_timer''"
proof -
  have ne: "\<not> strcaseeq ''log_mask'' ''scheduler''" "\<not> strcaseeq ''log_mask'' ''work_dir''"
    "\<not> strcaseeq ''log_mask'' ''container_runtime''" "\<not> strcaseeq ''log_mask'' ''vm_runtime''"
    "\<not> strcaseeq ''log_mask'' ''workload_timer''"
    by code_simp+
  assume "strcaseeq key ''log_mask''"
  note excl = strcaseeq_excl [OF this]
  from ne show ?thesis by (intro conjI excl)
qed

lemma params_ok_default: "params_ok p \<Longrightarrow> params_ok (set_default_params p)"
  by (simp add: params_ok_def set_default_params_def int_range_simps INI_MAX_LINE_def)

lemma params_ok_set:
  assumes "params_ok p" "length val < INI_MAX_LINE" "NUL \<notin> set val"
  shows "params_ok ((set_default_params p)\<lparr>scheduler := Some val\<rparr>)"
    "params_ok ((set_default_params p)\<lparr>work_dir := Some val\<rparr>)"
    "params_ok ((set_default_params p)\<lparr>container_runtime := Some val\<rparr>)"
    "params_ok ((set_default_params p)\<lparr>vm_runtime := Some val\<rparr>)"
    "params_ok ((set_default_params p)\<lparr>log_mask := Some val\<rparr>)"
  using assms by (simp_all add: params_ok_def set_default_params_def int_range_simps INI_MAX_LINE_def)

lemma params_ok_timer:
  "params_ok p \<Longrightarrow> int_range t \<Longrightarrow> params_ok ((set_default_params p)\<lparr>workload_timer := t\<rparr>)"
  by (simp add: params_ok_def set_default_params_def INI_MAX_LINE_def)

lemma init_params1_ok:
  assumes "params_ok p" "length val < INI_MAX_LINE" "NUL \<notin> set val" "init_params1 p key val = Inr p'"
  shows "params_ok p'"
proof (cases "strcaseeq key ''log_mask''")
  case True
  have "length (map toupper val) < INI_MAX_LINE" "NUL \<notin> set (map toupper val)"
    using assms(2,3) toupper_NUL by (simp, metis imageE list.set_map)
  from params_ok_set(5) [OF assms(1) this] True log_mask_key [OF True] assms(4) show ?thesis
    by (simp add: init_params1_def Let_def)
next
  case False
  with assms(4) show ?thesis
    by (auto simp: init_params1_def Let_def fault_simps params_ok_set [OF assms(1-3)]
        params_ok_timer [OF assms(1)] params_ok_default [OF assms(1)] atoi_range split: if_splits)
qed

lemma find_queue_None: "find_queue qs name = None \<longleftrightarrow> (\<forall>q \<in> set qs. \<not> strcaseeq name (q_name q))"
  by (induction qs) auto

lemma find_queue_Some:
  "find_queue qs name = Some i \<Longrightarrow> i < length qs \<and> strcaseeq name (q_name (qs ! i))"
  by (induction qs arbitrary: i) (auto split: if_splits)

text \<open>
  The contract of \<open>get_queue_by_name\<close>: a valid position, of a queue with the name asked for; a
  list of the same queues or of one more, with names that still differ.
\<close>

lemma get_queue_by_name_ok:
  assumes "get_queue_by_name qs name = (i, qs')"
  shows "i < length qs'" "strcaseeq name (q_name (qs' ! i))" "take (length qs) qs' = qs"
    "names_differ qs \<Longrightarrow> names_differ qs'"
    "is_word name \<Longrightarrow> length name < MAX_SECTION \<Longrightarrow> \<forall>q \<in> set qs. queue_ok q \<Longrightarrow> \<forall>q \<in> set qs'. queue_ok q"
  using assms
  by (auto simp: get_queue_by_name_def find_queue_None names_differ_def strcaseeq_def new_queue_def
      queue_ok_def type_defs int_range_simps split: option.splits dest: find_queue_Some)

lemma queue_type_known: "queue_type val \<in> {MACHINE_VMS, MACHINE_CONTAINERS, MACHINE_CLOUD}"
  by (simp add: queue_type_def)

lemma scan_factors_range:
  "scan_factors val f = Inr (i, j) \<Longrightarrow> int_range (fst f) \<Longrightarrow> int_range (snd f) \<Longrightarrow>
   int_range i \<and> int_range j"
  by (auto simp: scan_factors_def fault_simps split: option.splits prod.splits)

lemma set_queue_key_ok:
  assumes "queue_ok q" "set_queue_key q key val = Inr q'"
  shows "queue_ok q' \<and> q_name q' = q_name q"
proof -
  have "queue_ok q'" "q_name q' = q_name q"
    if "int_range (borrow_factor0 q')" "int_range (borrow_factor1 q')"
      "q_type q' = q_type q \<or> q_type q' = queue_type val" "q_name q' = q_name q"
    using that assms(1) queue_type_known [of val] by (auto simp: queue_ok_def)
  moreover have "int_range (borrow_factor0 q') \<and> int_range (borrow_factor1 q')"
    using assms by (auto simp: set_queue_key_def Let_def queue_ok_def fault_simps
      dest: scan_factors_range split: if_splits)
  moreover have "(q_type q' = q_type q \<or> q_type q' = queue_type val) \<and> q_name q' = q_name q"
    using assms(2) by (auto simp: set_queue_key_def Let_def fault_simps split: if_splits)
  ultimately show ?thesis by blast
qed

lemma names_differ_update:
  "names_differ qs \<Longrightarrow> i < length qs \<Longrightarrow> q_name q = q_name (qs ! i) \<Longrightarrow> names_differ (qs[i := q])"
  by (simp add: names_differ_def map_update) (metis list_update_id length_map nth_map)

lemma init_queue_wf:
  assumes "broker_wf b" "is_word qname" "length qname < MAX_SECTION" "init_queue b qname key val = Inr (b', r)"
  shows "broker_wf b'"
proof -
  obtain i qs where g: "get_queue_by_name (queues b) qname = (i, qs)" by fastforce
  with assms(4) obtain q where q: "set_queue_key (qs ! i) key val = Inr q" "b' = b\<lparr>queues := qs[i := q]\<rparr>"
    by (auto simp: init_queue_def fault_simps)
  note ok = get_queue_by_name_ok [OF g]
  have qs: "names_differ qs" "\<forall>q \<in> set qs. queue_ok q"
    using assms(1-3) ok(4,5) by (auto simp: broker_wf_def)
  from set_queue_key_ok [OF _ q(1)] qs(2) ok(1) have nq: "queue_ok q" "q_name q = q_name (qs ! i)" by auto
  have "\<forall>q' \<in> set (qs[i := q]). queue_ok q'"
    using qs(2) nq(1) by (auto dest: set_update_subset_insert [THEN subsetD])
  with names_differ_update [OF qs(1) ok(1) nq(2)] show ?thesis
    using assms(1) by (simp add: broker_wf_def q(2))
qed

lemma second_word_ok:
  assumes "second_word sec = Some w"
  shows "is_word w \<and> length w \<le> length sec"
proof -
  from assms obtain v r r' where "scan_s sec = Some (v, r)" "scan_s r = Some (w, r')"
    by (auto simp: second_word_def split: option.splits)
  from scan_s_result(3) [OF this(1)] scan_s_result(1,3) [OF this(2)] show ?thesis by simp
qed

text \<open>The handler as the client of the parser.\<close>

interpretation conf: ini_client handler broker_wf
proof
  fix u sec name val u' r
  assume wf: "broker_wf u" and fits: "call_fits sec name val" and h: "handler u sec name val = Inr (u', r)"
  show "broker_wf u'"
  proof (cases "strcaseeq sec ''params''")
    case True
    then have "\<not> strcaseeq sec ''resbd''" by (auto simp: strcaseeq_def)
    with True h fits wf show ?thesis
      by (auto simp: handler_def init_params_def fault_simps broker_wf_def call_fits_def
          intro: init_params1_ok [of "params u" val name])
  next
    case False
    have q: "broker_wf u'" if "initialised (second_word sec) = Inr w" "init_queue u w name val = Inr (u', r)" for w
      using that second_word_ok [of sec w] fits by (cases "second_word sec")
        (auto simp: call_fits_def intro: init_queue_wf [OF wf _ _ that(2)])
    from h False wf q show ?thesis
      by (auto simp: handler_def fault_simps init_resbd_wf [OF wf] split: if_splits)
  qed
qed

section \<open>Reading queue sections\<close>

text \<open>The keys of one section applied to its queue, in their order.\<close>

fun apply_keys :: "queue \<Rightarrow> (string \<times> string) list \<Rightarrow> queue res" where
  "apply_keys q [] = Inr q"
| "apply_keys q ((k, v) # ps) = rbind (set_queue_key q k v) (\<lambda>q'. apply_keys q' ps)"

lemma set_queue_key_name: "set_queue_key q k v = Inr q' \<Longrightarrow> q_name q' = q_name q"
  by (auto simp: set_queue_key_def Let_def fault_simps split: if_splits)

lemma apply_keys_name: "apply_keys q ps = Inr q' \<Longrightarrow> q_name q' = q_name q"
proof (induction q ps rule: apply_keys.induct)
  case (2 q k v ps)
  then obtain q1 where "set_queue_key q k v = Inr q1" "apply_keys q1 ps = Inr q'" by (auto simp: fault_simps)
  with 2(1) [of q1] set_queue_key_name [of q k v q1] show ?case by simp
qed simp

text \<open>A section that names a queue.\<close>

definition queue_section :: "string \<Rightarrow> string \<Rightarrow> bool" where
  "queue_section sec name \<longleftrightarrow> \<not> strcaseeq sec ''resbd'' \<and> \<not> strcaseeq sec ''params'' \<and>
     strstr sec ''queue'' \<and> second_word sec = Some name"

lemma handler_queue: "queue_section sec name \<Longrightarrow> handler b sec k v = init_queue b name k v"
  by (simp add: handler_def queue_section_def)

lemma find_queue_last:
  "find_queue qs name = None \<Longrightarrow> strcaseeq name (q_name q) \<Longrightarrow> find_queue (qs @ [q]) name = Some (length qs)"
  by (induction qs) (auto split: if_splits)

lemma init_queue_new:
  "find_queue (queues b) name = None \<Longrightarrow>
   init_queue b name k v =
     rbind (set_queue_key (new_queue name) k v) (\<lambda>q. Inr (b\<lparr>queues := queues b @ [q]\<rparr>, True))"
  by (simp add: init_queue_def get_queue_by_name_def)

lemma init_queue_last:
  "find_queue (queues b) name = None \<Longrightarrow> q_name q = name \<Longrightarrow>
   init_queue (b\<lparr>queues := queues b @ [q]\<rparr>) name k v =
     rbind (set_queue_key q k v) (\<lambda>q. Inr (b\<lparr>queues := queues b @ [q]\<rparr>, True))"
  by (simp add: init_queue_def get_queue_by_name_def find_queue_last)

lemma run_calls_queue_last:
  assumes "queue_section sec name" "find_queue (queues b) name = None"
  shows "q_name q = name \<Longrightarrow>
    run_calls handler (b\<lparr>queues := queues b @ [q]\<rparr>) (pair_calls n sec ps) =
      rbind (apply_keys q ps) (\<lambda>q. Inr (0, b\<lparr>queues := queues b @ [q]\<rparr>))"
proof (induction ps arbitrary: q n)
  case (Cons p ps)
  obtain k v where p: "p = (k, v)" by (cases p)
  show ?case
  proof (cases "set_queue_key q k v")
    case (Inr q')
    with set_queue_key_name [OF Inr] Cons.IH [of q'] Cons.prems assms show ?thesis
      by (simp add: p handler_queue init_queue_last)
  qed (use Cons.prems assms in \<open>simp add: p handler_queue init_queue_last\<close>)
qed simp

lemma run_calls_queue:
  assumes "queue_section sec name" "find_queue (queues b) name = None" "ps \<noteq> []"
  shows "run_calls handler b (pair_calls n sec ps) =
      rbind (apply_keys (new_queue name) ps) (\<lambda>q. Inr (0, b\<lparr>queues := queues b @ [q]\<rparr>))"
proof -
  obtain k v qs where ps: "ps = (k, v) # qs" using assms(3) by (cases ps) auto
  show ?thesis
  proof (cases "set_queue_key (new_queue name) k v")
    case (Inr q')
    have "q_name q' = name" using set_queue_key_name [OF Inr] by (simp add: new_queue_def)
    from run_calls_queue_last [OF assms(1,2) this] Inr assms show ?thesis
      by (simp add: ps handler_queue init_queue_new)
  qed (use assms in \<open>simp add: ps handler_queue init_queue_new\<close>)
qed

text \<open>
  A configuration of queues as the documentation describes it: for each queue a tag and a name, a
  type, a name space and the two factors, here separated by a blank.
\<close>

record queue_spec =
  qs_tag :: string
  qs_name :: string
  qs_type :: string
  qs_space :: string
  qs_every :: int
  qs_add :: int

definition spec_section :: "queue_spec \<Rightarrow> string \<times> (string \<times> string) list" where
  "spec_section s =
     (qs_tag s @ '' '' @ qs_name s,
      [(''type'', qs_type s), (''name_space'', qs_space s),
       (''borrow_factor'', fmt_d (qs_every s) @ '' '' @ fmt_d (qs_add s))])"

definition spec_queue :: "queue_spec \<Rightarrow> queue" where
  "spec_queue s = (new_queue (qs_name s))
     \<lparr>q_type := queue_type (qs_type s), name_space := Some (qs_space s),
      borrow_factor0 := qs_every s, borrow_factor1 := qs_add s\<rparr>"

definition spec_ok :: "queue_spec \<Rightarrow> bool" where
  "spec_ok s \<longleftrightarrow> is_word (qs_tag s) \<and> is_word (qs_name s) \<and> strstr (qs_tag s) ''queue'' \<and>
     int_range (qs_every s) \<and> int_range (qs_add s)"

lemma second_word_pair: "is_word t \<Longrightarrow> is_word n \<Longrightarrow> second_word (t @ '' '' @ n) = Some n"
  using scan_s_word [of t "'' '' @ n"] scan_s_word [of n "[]"] by (simp add: second_word_def)

lemma section_of_spec:
  assumes "spec_ok s"
  shows "queue_section (qs_tag s @ '' '' @ qs_name s) (qs_name s)"
proof -
  have blank: "CHR '' '' \<in> set (map tolower (qs_tag s @ '' '' @ qs_name s))" by (simp add: tolower_def)
  have "CHR '' '' \<notin> set (map tolower ''resbd'')" "CHR '' '' \<notin> set (map tolower ''params'')"
    by (simp_all add: tolower_def)
  with blank have "\<not> strcaseeq (qs_tag s @ '' '' @ qs_name s) ''resbd''"
    "\<not> strcaseeq (qs_tag s @ '' '' @ qs_name s) ''params''"
    unfolding strcaseeq_def by metis+
  moreover have "strstr (qs_tag s @ '' '' @ qs_name s) ''queue''"
    using assms by (fastforce simp: spec_ok_def strstr_iff)
  ultimately show ?thesis
    using assms second_word_pair [of "qs_tag s" "qs_name s"] by (simp add: queue_section_def spec_ok_def)
qed

lemma keys_differ:
  "\<not> strcaseeq ''type'' ''name_space''" "\<not> strcaseeq ''type'' ''borrow_factor''"
  "\<not> strcaseeq ''name_space'' ''type''" "\<not> strcaseeq ''name_space'' ''borrow_factor''"
  "\<not> strcaseeq ''borrow_factor'' ''type''" "\<not> strcaseeq ''borrow_factor'' ''name_space''"
  by code_simp+

text \<open>The factors: separated by a blank both are read, by a comma the second is not.\<close>

lemma scan_factors_blank:
  "int_range i \<Longrightarrow> int_range j \<Longrightarrow> scan_factors (fmt_d i @ CHR '' '' # fmt_d j) f = Inr (i, j)"
  using scan_d_fmt_d [of "CHR '' '' # fmt_d j" i] scan_d_fmt_d [of "[]" j]
  by (simp add: scan_factors_def isdigit_def)

lemma scan_factors_comma:
  "int_range i \<Longrightarrow> scan_factors (fmt_d i @ '','' @ t) f = Inr (i, snd f)"
  using scan_d_fmt_d [of "'','' @ t" i]
  by (simp add: scan_factors_def isdigit_def scan_d_def skip_space_def isspace_def scan_unsigned_def)

lemma apply_spec: "spec_ok s \<Longrightarrow> apply_keys (new_queue (qs_name s)) (snd (spec_section s)) = Inr (spec_queue s)"
  by (simp add: spec_section_def set_queue_key_def keys_differ scan_factors_blank spec_ok_def
      spec_queue_def new_queue_def)

lemma find_queue_append_None:
  "find_queue (qs @ [q]) name = None \<longleftrightarrow> find_queue qs name = None \<and> \<not> strcaseeq name (q_name q)"
  by (auto simp: find_queue_None)

lemma run_calls_specs:
  "\<forall>s \<in> set ss. spec_ok s \<Longrightarrow> distinct (map (map tolower \<circ> qs_name) ss) \<Longrightarrow>
   \<forall>s \<in> set ss. find_queue (queues b) (qs_name s) = None \<Longrightarrow>
   run_calls handler b (doc_calls (Suc n) (map spec_section ss)) =
     Inr (0, b\<lparr>queues := queues b @ map spec_queue ss\<rparr>)"
proof (induction ss arbitrary: b n)
  case (Cons s ss)
  let ?b = "b\<lparr>queues := queues b @ [spec_queue s]\<rparr>"
  obtain sec ps where sec: "spec_section s = (sec, ps)" by fastforce
  have ps: "ps \<noteq> []" "queue_section sec (qs_name s)" "find_queue (queues b) (qs_name s) = None"
    using Cons.prems(1,3) sec section_of_spec [of s] by (auto simp: spec_section_def)
  have fresh: "\<forall>s' \<in> set ss. find_queue (queues ?b) (qs_name s') = None"
  proof
    fix s' assume s': "s' \<in> set ss"
    then have "map tolower (qs_name s') \<noteq> map tolower (qs_name s)"
      using Cons.prems(2) by (simp add: image_iff) metis
    with s' Cons.prems(3) show "find_queue (queues ?b) (qs_name s') = None"
      by (simp add: find_queue_append_None spec_queue_def new_queue_def strcaseeq_def)
  qed
  have "run_calls handler b (pair_calls (Suc (Suc n)) sec ps) = Inr (0, ?b)"
    using run_calls_queue [OF ps(2,3,1)] apply_spec [of s] Cons.prems(1) sec by simp
  moreover have "run_calls handler ?b (doc_calls (Suc (Suc n + length ps)) (map spec_section ss)) =
      Inr (0, ?b\<lparr>queues := queues ?b @ map spec_queue ss\<rparr>)"
    using Cons.prems(1,2) fresh by (intro Cons.IH) auto
  ultimately show ?case
    using pair_calls_numbered [of "Suc (Suc n)" sec ps] by (simp add: sec run_calls_append)
qed simp

lemma read_config_render:
  "plain_doc doc \<Longrightarrow> run_calls handler b (doc_calls 1 doc) = Inr (e, b') \<Longrightarrow>
   read_config (Some (render_ini doc)) b = Inr (0, b')"
  by (simp add: read_config_def ini_parse_def ini_parse_file_doc)

section \<open>Reading the parameters\<close>

lemma handler_params: "handler b ''params'' k v = init_params b k v"
proof -
  have "\<not> strcaseeq ''params'' ''resbd''" by code_simp
  then show ?thesis by (simp add: handler_def)
qed

text \<open>Apart from \<open>work_dir\<close> a key leaves nothing of what the parameters were.\<close>

lemma init_params1_forgets:
  "init_params1 p k v = Inr p1 \<Longrightarrow>
   \<exists>p2. init_params1 q k v = Inr p2 \<and> p1 = p2\<lparr>work_dir := work_dir p1\<rparr>"
  using log_mask_key [of k]
  by (cases "strcaseeq k ''log_mask''")
    (auto simp: init_params1_def set_default_params_def Let_def fault_simps split: if_splits)

lemma run_calls_params_last:
  "run_calls handler b (pair_calls n ''params'' (ps @ [(k, v)])) = Inr (e, b') \<Longrightarrow>
   e = 0 \<and> (\<exists>p. init_params1 (params b) k v = Inr p \<and> params b' = p\<lparr>work_dir := work_dir (params b')\<rparr>) \<and>
   queues b' = queues b \<and> res b' = res b"
proof (induction ps arbitrary: b n)
  case Nil
  then show ?case by (auto simp: handler_params init_params_def fault_simps)
next
  case (Cons q ps)
  obtain k1 v1 where q: "q = (k1, v1)" by (cases q)
  from Cons.prems q obtain p1 where p1: "init_params1 (params b) k1 v1 = Inr p1"
    and rest: "run_calls handler (b\<lparr>params := p1\<rparr>) (pair_calls (Suc n) ''params'' (ps @ [(k, v)])) = Inr (e, b')"
    by (auto simp: handler_params init_params_def fault_simps)
  from Cons.IH [OF rest] obtain p where p: "init_params1 p1 k v = Inr p"
    "params b' = p\<lparr>work_dir := work_dir (params b')\<rparr>" and rest': "e = 0" "queues b' = queues b" "res b' = res b"
    by auto
  from init_params1_forgets [OF p(1), of "params b"] obtain p2 where
    "init_params1 (params b) k v = Inr p2" "p = p2\<lparr>work_dir := work_dir p\<rparr>" by blast
  moreover from this p(2) have "params b' = p2\<lparr>work_dir := work_dir (params b')\<rparr>"
    by (metis parameters.update_convs(2) parameters.surjective)
  ultimately show ?case using rest' by blast
qed

text \<open>The section resbd knows two keys; any other one is an error.\<close>

lemma handler_unknown_key:
  "\<not> strcaseeq k ''host'' \<Longrightarrow> \<not> strcaseeq k ''port'' \<Longrightarrow> handler b ''resbd'' k v = Inr (b, False)"
  by (simp add: handler_def init_resbd_def)

lemma run_calls_refused:
  "run_calls h u cs = Inr (0, u') \<Longrightarrow> \<forall>(n, x) \<in> set cs. n \<noteq> 0 \<Longrightarrow> h u' s k v = Inr (u', False) \<Longrightarrow>
   run_calls h u (cs @ (n, s, k, v) # ds) = Inr (n, u')"
  by (simp add: run_calls_append)

lemma pair_calls_append:
  "pair_calls n s (ps @ qs) = pair_calls n s ps @ pair_calls (n + length ps) s qs"
  by (induction n s ps rule: pair_calls.induct) auto

lemma conf_read_wf:
  assumes "read_config fp (init_main_data now sim) = Inr (r, b')"
  shows "broker_wf b' \<and> r = (if fp = None then -1 else 0)"
proof -
  from assms obtain e where e: "ini_parse fp handler (init_main_data now sim) = Inr (e, b')"
    "r = (if e < 0 then -1 else 0)" by (auto simp: read_config_def fault_simps)
  moreover have "e < 0 \<longleftrightarrow> fp = None" using e(1) by (auto simp: ini_parse_def fault_simps split: option.splits)
  ultimately show ?thesis using conf.ini_parse_keeps [OF broker_wf_init e(1)] by simp
qed

text \<open>A second client of the same contract: no key touches the servers.\<close>

lemma handler_servers:
  assumes "handler b sec key val = Inr (b', r)"
  shows "servers b' = servers b"
  using assms by (auto simp: handler_def init_resbd_def init_params_def init_queue_def fault_simps
      split_def Let_def split: if_splits)

interpretation conf_servers: ini_client handler "\<lambda>b. servers b = ss" for ss
  by unfold_locales (simp add: handler_servers)

lemma read_config_servers: "read_config fp b = Inr (r, b') \<Longrightarrow> servers b' = servers b"
  using conf_servers.ini_parse_keeps [of b "servers b" fp _ b'] by (auto simp: read_config_def fault_simps)

section \<open>Properties\<close>

text \<open>C15. Whatever the configuration file holds, if the daemon reads it without a fault, its state is
  well formed afterwards: queue names that differ even up to the case of letters, known machine
  types, numbers within int, and parameters whose lengths keep the status reply inside its buffer.\<close>

theorem read_config_wf:
  assumes "read_config fp (init_main_data now sim) = Inr (r, b')"
  shows "broker_wf b' \<and> r = (if fp = None then -1 else 0)"
  using conf_read_wf [OF assms] .

theorem read_config_wf_witness:
  "\<exists>b'. read_config (Some ''[q queue_a]'') (init_main_data 0 True) = Inr (0, b') \<and> broker_wf b'"
proof -
  have "read_config (Some ''[q queue_a]'') (init_main_data 0 True) = Inr (0, init_main_data 0 True)"
    by code_simp
  with read_config_wf [OF this] show ?thesis by simp
qed

text \<open>C8. Writing queues as sections and reading the file back gives the queues: for any list of
  queue descriptions with plain fields and names that differ, the daemon has exactly these queues
  after its old ones, in the order of the file, each with its type, name space and both factors.\<close>

theorem conf_queues_roundtrip:
  assumes "plain_doc (map spec_section ss)" "\<forall>s \<in> set ss. spec_ok s"
    and "distinct (map (map tolower \<circ> qs_name) ss)"
    and "\<forall>s \<in> set ss. find_queue (queues b) (qs_name s) = None"
  shows "read_config (Some (render_ini (map spec_section ss))) b =
    Inr (0, b\<lparr>queues := queues b @ map spec_queue ss\<rparr>)"
  using run_calls_specs [OF assms(2-4), of 0] by (intro read_config_render [OF assms(1)]) simp

definition demo_specs :: "queue_spec list" where
  "demo_specs =
     [\<lparr>qs_tag = ''queue_1'', qs_name = ''vm_queue'', qs_type = ''vm'', qs_space = ''dynamic'',
       qs_every = 10, qs_add = 2\<rparr>,
      \<lparr>qs_tag = ''queue_2'', qs_name = ''box'', qs_type = ''Container'', qs_space = ''dynamic'',
       qs_every = 5, qs_add = 1\<rparr>]"

theorem conf_queues_roundtrip_witness:
  "read_config (Some (render_ini (map spec_section demo_specs))) (init_main_data 0 True) =
    Inr (0, (init_main_data 0 True)\<lparr>queues := map spec_queue demo_specs\<rparr>) \<and>
   map q_type (map spec_queue demo_specs) = [MACHINE_VMS, MACHINE_CONTAINERS]"
proof -
  have "plain_doc (map spec_section demo_specs)" "\<forall>s \<in> set demo_specs. spec_ok s"
    "distinct (map (map tolower \<circ> qs_name) demo_specs)"
    "\<forall>s \<in> set demo_specs. find_queue (queues (init_main_data 0 True)) (qs_name s) = None"
    "map q_type (map spec_queue demo_specs) = [MACHINE_VMS, MACHINE_CONTAINERS]"
    by code_simp+
  from conf_queues_roundtrip [OF this(1-4)] this(5) show ?thesis
    by (simp add: init_main_data_def)
qed

text \<open>The factors written with a comma, as the shipped configuration file writes them: only the
  first is read. A queue section with \<open>borrow_factor = i,j\<close> gives a queue whose second factor
  is still 0, whatever \<open>j\<close> says.\<close>

theorem borrow_factor_comma:
  assumes "queue_section sec name" "find_queue (queues b) name = None" "int_range i"
    and "plain_doc [(sec, [(''borrow_factor'', fmt_d i @ '','' @ t)])]"
  shows "read_config (Some (render_ini [(sec, [(''borrow_factor'', fmt_d i @ '','' @ t)])])) b =
    Inr (0, b\<lparr>queues := queues b @ [(new_queue name)\<lparr>borrow_factor0 := i, borrow_factor1 := 0\<rparr>]\<rparr>)"
proof -
  have "apply_keys (new_queue name) [(''borrow_factor'', fmt_d i @ '','' @ t)] =
    Inr ((new_queue name)\<lparr>borrow_factor0 := i, borrow_factor1 := 0\<rparr>)"
    using scan_factors_comma [OF assms(3)] by (simp add: set_queue_key_def keys_differ new_queue_def)
  then show ?thesis
    using run_calls_queue [OF assms(1,2), of "[(''borrow_factor'', fmt_d i @ '','' @ t)]" "Suc (Suc 0)"]
    by (intro read_config_render [OF assms(4)]) simp
qed

theorem borrow_factor_comma_witness:
  "\<exists>b'. read_config (Some (render_ini [(''queue_1 vm_queue'', [(''borrow_factor'', ''10,2'')])]))
     (init_main_data 0 True) = Inr (0, b') \<and> map borrow_factor1 (queues b') = [0]"
proof -
  have "queue_section ''queue_1 vm_queue'' ''vm_queue''"
    "find_queue (queues (init_main_data 0 True)) ''vm_queue'' = None"
    "int_range 10" "fmt_d 10 = ''10''"
    "plain_doc [(''queue_1 vm_queue'', [(''borrow_factor'', fmt_d 10 @ '','' @ ''2'')])]"
    by code_simp+
  from borrow_factor_comma [OF this(1-3,5)] this(4) show ?thesis by (auto simp: init_main_data_def)
qed

text \<open>In the section params only the last key counts: every key first resets the parameters to
  their defaults, so after the section everything but \<open>work_dir\<close> is what reading the last
  key alone gives, whatever the keys before it set.\<close>

theorem params_only_last_key:
  assumes "plain_doc [(''params'', ps @ [(k, v)])]"
    and "read_config (Some (render_ini [(''params'', ps @ [(k, v)])])) b = Inr (r, b')"
  shows "\<exists>p. init_params1 (params b) k v = Inr p \<and> params b' = p\<lparr>work_dir := work_dir (params b')\<rparr> \<and>
    queues b' = queues b"
proof -
  from assms(2) obtain e where "run_calls handler b (pair_calls 2 ''params'' (ps @ [(k, v)])) = Inr (e, b')"
    by (auto simp: read_config_def ini_parse_def ini_parse_file_doc [OF assms(1)] fault_simps numeral_2_eq_2)
  from run_calls_params_last [OF this] show ?thesis by blast
qed

theorem params_only_last_key_witness:
  "\<exists>b'. read_config (Some (render_ini [(''params'', [(''scheduler'', ''lsf''), (''work_dir'', ''/tmp'')])]))
     (init_main_data 0 True) = Inr (0, b') \<and> scheduler (params b') = Some ''slurm''"
proof -
  let ?ps = "[(''scheduler'', ''lsf'')] :: (string \<times> string) list"
  let ?b = "(init_main_data 0 True)\<lparr>params := (set_default_params (params (init_main_data 0 True)))\<lparr>work_dir := Some ''/tmp''\<rparr>\<rparr>"
  have a: "plain_doc [(''params'', ?ps @ [(''work_dir'', ''/tmp'')])]"
    "read_config (Some (render_ini [(''params'', ?ps @ [(''work_dir'', ''/tmp'')])])) (init_main_data 0 True) = Inr (0, ?b)"
    "init_params1 (params (init_main_data 0 True)) ''work_dir'' ''/tmp'' = Inr (params ?b)"
    by code_simp+
  from params_only_last_key [OF a(1,2)] a(3) have "scheduler (params ?b) = Some ''slurm''"
    by (auto simp: set_default_params_def)
  with a(2) show ?thesis by auto
qed

text \<open>An unknown key in the section resbd ends the reading of the file without notice: everything
  after it is dropped, the queues included, and read_config still returns 0.\<close>

theorem unknown_key_drops_rest:
  assumes "plain_doc [(''resbd'', ps)]" "plain_doc ((''resbd'', ps @ (k, v) # ps') # doc)"
    and "\<not> strcaseeq k ''host''" "\<not> strcaseeq k ''port''"
    and "run_calls handler b (pair_calls 2 ''resbd'' ps) = Inr (0, b')"
  shows "read_config (Some (render_ini ((''resbd'', ps @ (k, v) # ps') # doc))) b = Inr (0, b') \<and>
    read_config (Some (render_ini [(''resbd'', ps)])) b = Inr (0, b')"
proof
  have n: "\<forall>(n, x) \<in> set (pair_calls 2 ''resbd'' ps). n \<noteq> 0" by (rule pair_calls_numbered) simp
  show "read_config (Some (render_ini ((''resbd'', ps @ (k, v) # ps') # doc))) b = Inr (0, b')"
    using run_calls_refused [OF assms(5) n handler_unknown_key [OF assms(3,4)]]
    by (intro read_config_render [OF assms(2)]) (simp add: pair_calls_append numeral_2_eq_2)
  show "read_config (Some (render_ini [(''resbd'', ps)])) b = Inr (0, b')"
    using assms(5) by (intro read_config_render [OF assms(1)]) (simp add: numeral_2_eq_2)
qed

theorem unknown_key_drops_rest_witness:
  "\<exists>b'. read_config (Some (render_ini [(''resbd'', [(''port'', ''412''), (''hots'', ''a'')]),
     (''q queue_1'', [(''type'', ''vm'')])])) (init_main_data 0 True) = Inr (0, b') \<and>
   port (res b') = 412 \<and> queues b' = []"
proof -
  let ?ps = "[(''port'', ''412'')] :: (string \<times> string) list"
  let ?b = "(init_main_data 0 True)\<lparr>res := (res (init_main_data 0 True))\<lparr>port := 412\<rparr>\<rparr>"
  have a: "plain_doc [(''resbd'', ?ps)]"
    "plain_doc ((''resbd'', ?ps @ (''hots'', ''a'') # []) # [(''q queue_1'', [(''type'', ''vm'')])])"
    "\<not> strcaseeq ''hots'' ''host''" "\<not> strcaseeq ''hots'' ''port''"
    "run_calls handler (init_main_data 0 True) (pair_calls 2 ''resbd'' ?ps) = Inr (0, ?b)"
    by code_simp+
  from unknown_key_drops_rest [OF a] show ?thesis by (auto simp: init_main_data_def)
qed

text \<open>A queue section with one word only, like \<open>[queue]\<close>, makes the daemon read a name that was
  never written.\<close>

theorem nameless_queue_section:
  assumes "plain_doc ((sec, (k, v) # ps) # doc)" "strstr sec ''queue''" "second_word sec = None"
    and "\<not> strcaseeq sec ''resbd''" "\<not> strcaseeq sec ''params''"
  shows "read_config (Some (render_ini ((sec, (k, v) # ps) # doc))) b = Inl Uninit_read"
proof -
  have "handler b sec k v = Inl Uninit_read" using assms(2-5) by (simp add: handler_def)
  then show ?thesis
    by (simp add: read_config_def ini_parse_def ini_parse_file_doc [OF assms(1)])
qed

theorem nameless_queue_section_witness:
  "read_config (Some (render_ini [(''queue'', [(''type'', ''vm'')])])) (init_main_data 0 True) = Inl Uninit_read"
proof -
  have a: "plain_doc [(''queue'', [(''type'', ''vm'')])]" "strstr ''queue'' ''queue''" "second_word ''queue'' = None"
    "\<not> strcaseeq ''queue'' ''resbd''" "\<not> strcaseeq ''queue'' ''params''"
    by code_simp+
  from nameless_queue_section [OF a] show ?thesis by simp
qed

end
