(* ===== verification/Clients.thy ===== *)
theory Clients
  imports Conf
begin

text \<open>
  The requests the broker answers, \<open>src/daemon/clients.c\<close>, and the client side of them,
  \<open>src/lib/libresb.c\<close>. A buffer on the stack is its size: printing more into it is a fault. A
  received buffer is read as memory: what arrived, then what lies behind it (\<open>junk\<close>).
\<close>

section \<open>Buffers\<close>

text \<open>\<open>sprintf\<close> into an array of \<open>sz\<close> bytes, the NUL included.\<close>

definition sprintf_buf :: "nat \<Rightarrow> string \<Rightarrow> string res" where
  "sprintf_buf sz s = (if length s < sz then Inr s else Inl Buffer_overflow)"

lemma sprintf_buf_fits [simp]: "length s < sz \<Longrightarrow> sprintf_buf sz s = Inr s"
  by (simp add: sprintf_buf_def)

text \<open>\<open>sscanf\<close> looks for the NUL that ends its input: there must be one.\<close>

definition c_text :: "char list \<Rightarrow> string res" where
  "c_text mem = (if NUL \<in> set mem then Inr (cstr mem) else Inl Over_read)"

lemma c_text_NUL: "NUL \<notin> set s \<Longrightarrow> c_text (s @ NUL # rest) = Inr s"
  by (simp add: c_text_def cstr_append_NUL)

section \<open>Printing and scanning a double\<close>

text \<open>
  A load average is kept as its value in millionths, which is what \<open>%lf\<close> prints (six decimals). The
  scanner gives the decimal number it reads, a mantissa and an exponent of ten, before its
  conversion to binary; an exponent letter without digits is a conversion that fails. The forms \<open>inf\<close>, \<open>nan\<close> and hexadecimal are not scanned.
\<close>

fun dec_fixed :: "nat \<Rightarrow> nat \<Rightarrow> string" where
  "dec_fixed 0 n = []"
| "dec_fixed (Suc k) n = dec_fixed k (n div 10) @ [digit (n mod 10)]"

definition fmt_lf :: "nat \<Rightarrow> string" where
  "fmt_lf u = dec_nat (u div 1000000) @ ''.'' @ dec_fixed 6 (u mod 1000000)"

definition scan_exponent :: "string \<Rightarrow> (int \<times> string) option" where
  "scan_exponent s =
     (case s of
        c # cs \<Rightarrow>
          (if c = CHR ''e'' \<or> c = CHR ''E'' then
             (case cs of
                d # ds \<Rightarrow>
                  (if d = CHR ''-'' then map_option (\<lambda>(n, r). (- int n, r)) (scan_unsigned ds)
                   else map_option (\<lambda>(n, r). (int n, r)) (scan_unsigned (if d = CHR ''+'' then ds else cs)))
              | [] \<Rightarrow> None)
           else Some (0, s))
      | [] \<Rightarrow> Some (0, s))"

definition scan_fraction :: "string \<Rightarrow> string \<times> string" where
  "scan_fraction s =
     (case s of
        c # cs \<Rightarrow> (if c = CHR ''.'' then (takeWhile isdigit cs, dropWhile isdigit cs) else ([], s))
      | [] \<Rightarrow> ([], s))"

definition scan_decimal :: "string \<Rightarrow> ((nat \<times> int) \<times> string) option" where
  "scan_decimal s =
     (let ip = takeWhile isdigit s;
          (fp, r) = scan_fraction (dropWhile isdigit s)
      in if ip @ fp = [] then None
         else map_option (\<lambda>(e, r). ((digits_value (ip @ fp), e - int (length fp)), r)) (scan_exponent r))"

definition scan_lf :: "string \<Rightarrow> ((int \<times> int) \<times> string) option" where
  "scan_lf s =
     (case skip_space s of
        [] \<Rightarrow> None
      | c # cs \<Rightarrow>
          (if c = CHR ''-'' then map_option (\<lambda>((m, e), r). ((- int m, e), r)) (scan_decimal cs)
           else map_option (\<lambda>((m, e), r). ((int m, e), r))
                  (scan_decimal (if c = CHR ''+'' then cs else c # cs))))"

section \<open>The broker's answers\<close>

text \<open>\<open>status_info\<close>, with what \<open>getpid\<close> and \<open>getloadavg\<close> return; the reply has no NUL.\<close>

definition status_text :: "int \<Rightarrow> int \<Rightarrow> nat \<Rightarrow> nat \<Rightarrow> nat \<Rightarrow> string" where
  "status_text up pid l0 l1 l2 =
     fmt_d up @ '' '' @ fmt_d pid @ '' '' @ fmt_lf l0 @ '' '' @ fmt_lf l1 @ '' '' @ fmt_lf l2"

definition status_info :: "broker \<Rightarrow> int \<Rightarrow> nat \<times> nat \<times> nat \<Rightarrow> net \<Rightarrow> int \<Rightarrow> (int \<times> net) res" where
  "status_info b pid load n s =
     (case load of (l0, l1, l2) \<Rightarrow>
        rbind (sprintf_buf 64 (status_text (my_uptime b) pid l0 l1 l2)) (\<lambda>buf.
          send_msg n s BROKER_OK buf))"

text \<open>\<open>params_info\<close>: the reply carries the NUL, and the socket is closed here too.\<close>

definition put_field :: "string \<Rightarrow> string option \<Rightarrow> string \<Rightarrow> string" where
  "put_field label v tail = (case v of None \<Rightarrow> [] | Some t \<Rightarrow> label @ t @ tail)"

definition params_text :: "parameters \<Rightarrow> string" where
  "params_text p =
     ''system parameters'' @ [newline] @
     put_field ''  scheduler:'' (scheduler p) [newline] @
     put_field ''  workdir:'' (work_dir p) [newline] @
     put_field ''  container_runtime:'' (container_runtime p) [newline] @
     put_field ''  vm_runtime:'' (vm_runtime p) [newline] @
     ''  workload_timer:'' @ fmt_d (workload_timer p) @ [newline] @
     put_field ''  log_mask:'' (log_mask p) []"

definition params_info :: "broker \<Rightarrow> net \<Rightarrow> int \<Rightarrow> (int \<times> net) res" where
  "params_info b n s =
     rbind (sprintf_buf 1024 (params_text (params b))) (\<lambda>buf.
       rbind (send_msg n s BROKER_OK (buf @ [NUL])) (\<lambda>(cc, n1).
         if cc < 0 then Inr (-1, n1) else Inr (0, sys_close n1 s)))"

definition queue_info :: "net \<Rightarrow> int \<Rightarrow> (int \<times> net) res" where
  "queue_info n s = Inr (0, n)"

text \<open>
  \<open>sscanf(buf, "%d %s %d", &srv->type, srv->name, &srv->max_instances)\<close> into a structure that
  \<open>calloc\<close> cleared, the name of \<open>MAXHOSTNAMELEN\<close> bytes.
\<close>

definition scan_registration :: "string \<Rightarrow> (int \<times> string \<times> int) res" where
  "scan_registration text =
     (case scan_d text of
        None \<Rightarrow> Inr (0, [], 0)
      | Some (t, r) \<Rightarrow> rbind (c_int t) (\<lambda>t.
          case scan_s r of
            None \<Rightarrow> Inr (t, [], 0)
          | Some (w, r2) \<Rightarrow> rbind (sprintf_buf MAXHOSTNAMELEN w) (\<lambda>w.
              case scan_d r2 of
                None \<Rightarrow> Inr (t, w, 0)
              | Some (m, _) \<Rightarrow> rbind (c_int m) (\<lambda>m. Inr (t, w, m)))))"

text \<open>
  \<open>server_register\<close>: the length comes from the peer; more bytes than the buffer holds that really
  arrive overflow it. The type that was sent is overwritten.
\<close>

definition arriving :: "net \<Rightarrow> int \<Rightarrow> nat" where
  "arriving n s = (case conns n s of None \<Rightarrow> 0 | Some c \<Rightarrow> length (stream_bytes (rx c)))"

definition server_register :: "broker \<Rightarrow> net \<Rightarrow> int \<Rightarrow> rb_header \<Rightarrow> (int \<times> broker \<times> net) res" where
  "server_register b n s hdr =
     (if 1024 < min (unat (len hdr)) (arriving n s) then Inl Buffer_overflow
      else rbind (net_readblock n s (unat (len hdr))) (\<lambda>(r, n1).
        case r of
          None \<Rightarrow> Inr (-1, b, n1)
        | Some bs \<Rightarrow>
            rbind (c_text (bs @ junk n1)) (\<lambda>text.
            rbind (scan_registration text) (\<lambda>(t, nm, mx).
              let srv = \<lparr>srv_socket = s, srv_name = nm, srv_status = SERVER_REGISTERED,
                         srv_type = SERVER_TYPE_VM, max_instances = mx\<rparr>
              in rbind (net_writeblock n1 s (encode_header (hdr_pad n1) \<lparr>opcode = BROKER_OK, len = 0\<rparr>))
                   (\<lambda>(cc, n2).
                     if cc < 0 then Inr (-1, b, n2)
                     else Inr (0, b\<lparr>servers := servers b @ [srv]\<rparr>, n2))))))"

section \<open>The client side\<close>

record rb_daemon_id =
  ip :: string
  id_port :: int

text \<open>\<open>get_daemon_id\<close>: \<open>strchr\<close> of NULL, or a string without \<open>@\<close>, ends in a NULL dereference.\<close>

definition get_daemon_id :: "string option \<Rightarrow> rb_daemon_id res" where
  "get_daemon_id s =
     rbind (nonnull s) (\<lambda>t.
       case dropWhile (\<lambda>c. c \<noteq> CHR ''@'') t of
         [] \<Rightarrow> Inl Null_deref
       | _ # p \<Rightarrow> rbind (atoi p) (\<lambda>n. Inr \<lparr>ip = takeWhile (\<lambda>c. c \<noteq> CHR ''@'') t, id_port = n\<rparr>))"

record rb_status =
  uptime :: int
  st_pid :: int
  load0 :: "int \<times> int"
  load1 :: "int \<times> int"
  load2 :: "int \<times> int"

text \<open>
  \<open>sscanf(rep.msg_buf, "%ld %d %lf %lf %lf", ...)\<close> into a cleared structure; the conversions stop at
  the first that fails.
\<close>

definition status0 :: rb_status where
  "status0 = \<lparr>uptime = 0, st_pid = 0, load0 = (0, 0), load1 = (0, 0), load2 = (0, 0)\<rparr>"

definition scan_status :: "string \<Rightarrow> rb_status res" where
  "scan_status text =
     (case scan_d text of None \<Rightarrow> Inr status0
      | Some (u, r) \<Rightarrow> (if u < - (2 ^ 63) \<or> 2 ^ 63 \<le> u then Inl Signed_overflow else
          (case scan_d r of None \<Rightarrow> Inr (status0\<lparr>uptime := u\<rparr>)
           | Some (p, r2) \<Rightarrow> rbind (c_int p) (\<lambda>p.
               let s1 = status0\<lparr>uptime := u, st_pid := p\<rparr> in
               (case scan_lf r2 of None \<Rightarrow> Inr s1
                | Some (a, r3) \<Rightarrow>
                    (case scan_lf r3 of None \<Rightarrow> Inr (s1\<lparr>load0 := a\<rparr>)
                     | Some (c, r4) \<Rightarrow>
                         (case scan_lf r4 of None \<Rightarrow> Inr (s1\<lparr>load0 := a, load1 := c\<rparr>)
                          | Some (d, _) \<Rightarrow> Inr (s1\<lparr>load0 := a, load1 := c, load2 := d\<rparr>))))))))"

text \<open>\<open>rb_broker_status\<close>: \<open>None\<close> is NULL.\<close>

definition rb_broker_status :: "net \<Rightarrow> sock_answers \<Rightarrow> (rb_status option \<times> net) res" where
  "rb_broker_status n a =
     rbind (nio_client_rw n a \<lparr>opcode = BROKER_STATUS, len = 0\<rparr> []) (\<lambda>(r, n1).
       case r of
         None \<Rightarrow> Inr (None, n1)
       | Some rep \<Rightarrow>
           if opcode (rep_header rep) \<noteq> BROKER_OK then Inr (None, n1)
           else rbind (initialised (rep_buf rep)) (\<lambda>buf.
             rbind (c_text (buf @ junk n1)) (\<lambda>text.
               rbind (scan_status text) (\<lambda>st. Inr (Some st, n1)))))"

text \<open>\<open>rb_broker_params\<close>: the buffer as it came; it is not assigned when the reply is empty.\<close>

definition rb_broker_params :: "net \<Rightarrow> sock_answers \<Rightarrow> (char list option \<times> net) res" where
  "rb_broker_params n a =
     rbind (nio_client_rw n a \<lparr>opcode = BROKER_PARAMS, len = 0\<rparr> []) (\<lambda>(r, n1).
       case r of
         None \<Rightarrow> Inr (None, n1)
       | Some rep \<Rightarrow>
           if opcode (rep_header rep) \<noteq> BROKER_OK then Inr (None, n1)
           else rbind (initialised (rep_buf rep)) (\<lambda>buf. Inr (Some buf, n1)))"

section \<open>What is printed is read back\<close>

lemma length_dec_fixed [simp]: "length (dec_fixed k n) = k"
  by (induction k n rule: dec_fixed.induct) auto

lemma dec_fixed_digits: "c \<in> set (dec_fixed k n) \<Longrightarrow> isdigit c"
  by (induction k n rule: dec_fixed.induct) auto

lemma digits_value_fixed: "digits_value (xs @ dec_fixed k n) = digits_value xs * 10 ^ k + n mod 10 ^ k"
proof (induction k n rule: dec_fixed.induct)
  case (2 k n)
  have "digits_value (xs @ dec_fixed (Suc k) n) = 10 * digits_value (xs @ dec_fixed k (n div 10)) + n mod 10"
    using digits_value_snoc [of "xs @ dec_fixed k (n div 10)" "digit (n mod 10)"] by simp
  with 2 show ?case by (simp add: mod_mult2_eq)
qed simp

text \<open>A text that does not continue a decimal number.\<close>

definition no_number_first :: "string \<Rightarrow> bool" where
  "no_number_first s \<longleftrightarrow> s = [] \<or> (\<not> isdigit (hd s) \<and> hd s \<noteq> CHR ''e'' \<and> hd s \<noteq> CHR ''E'')"

lemma no_number_first_simps [simp]: "no_number_first []"
  "no_number_first (c # s) = (\<not> isdigit c \<and> c \<noteq> CHR ''e'' \<and> c \<noteq> CHR ''E'')"
  by (simp_all add: no_number_first_def)

lemma scan_exponent_none: "no_number_first s \<Longrightarrow> scan_exponent s = Some (0, s)"
  by (cases s) (auto simp: scan_exponent_def)

lemma not_digit_dot [simp]: "\<not> isdigit (CHR ''.'')"
  by (simp add: isdigit_def)

lemma scan_decimal_fmt_lf:
  assumes "no_number_first rest"
  shows "scan_decimal (fmt_lf u @ rest) = Some ((u, -6), rest)"
proof -
  let ?i = "dec_nat (u div 1000000)" and ?f = "dec_fixed 6 (u mod 1000000)"
  have "takeWhile isdigit (fmt_lf u @ rest) = ?i" "dropWhile isdigit (fmt_lf u @ rest) = ''.'' @ ?f @ rest"
    using takeWhile_append_stop [of ?i isdigit "''.'' @ ?f @ rest"]
      dropWhile_append_stop [of ?i isdigit "''.'' @ ?f @ rest"] dec_nat_digits
    by (auto simp: fmt_lf_def)
  moreover have "takeWhile isdigit (?f @ rest) = ?f" "dropWhile isdigit (?f @ rest) = rest"
    using takeWhile_append_stop [of ?f isdigit rest] dropWhile_append_stop [of ?f isdigit rest]
      dec_fixed_digits assms by (auto simp: no_number_first_def)
  moreover have "digits_value (?i @ ?f) = u" by (simp only: digits_value_fixed digits_value_dec_nat) simp
  ultimately show ?thesis
    using scan_exponent_none [OF assms]
    by (simp add: scan_decimal_def scan_fraction_def)
qed

lemma scan_lf_digit:
  assumes "isdigit c"
  shows "scan_lf (c # t) = map_option (\<lambda>((m, e), r). ((int m, e), r)) (scan_decimal (c # t))"
proof -
  have "c \<noteq> CHR ''-''" "c \<noteq> CHR ''+''" "\<not> isspace c" using assms by (auto simp: isdigit_def isspace_def)
  then show ?thesis by (simp add: scan_lf_def skip_space_def)
qed

lemma scan_lf_fmt_lf:
  assumes "no_number_first rest"
  shows "scan_lf (fmt_lf u @ rest) = Some ((int u, -6), rest)"
proof -
  obtain c cs where c: "dec_nat (u div 1000000) = c # cs" "isdigit c" using dec_nat_hd by blast
  then obtain t where t: "fmt_lf u @ rest = c # t" by (simp add: fmt_lf_def)
  show ?thesis using scan_decimal_fmt_lf [OF assms, of u] by (simp add: t scan_lf_digit c(2))
qed

lemma scan_lf_blank [simp]: "isspace c \<Longrightarrow> scan_lf (c # s) = scan_lf s"
  by (simp add: scan_lf_def)

text \<open>The status reply.\<close>

definition status_ok :: "int \<times> int \<times> nat \<times> nat \<times> nat \<Rightarrow> bool" where
  "status_ok x \<longleftrightarrow> (case x of (up, pid, l0, l1, l2) \<Rightarrow>
     0 \<le> up \<and> up < 10 ^ 11 \<and> 0 \<le> pid \<and> pid < 10 ^ 7 \<and>
     l0 < 10 ^ 12 \<and> l1 < 10 ^ 12 \<and> l2 < 10 ^ 12)"

definition status_view :: "int \<times> int \<times> nat \<times> nat \<times> nat \<Rightarrow> rb_status" where
  "status_view x = (case x of (up, pid, l0, l1, l2) \<Rightarrow>
     \<lparr>uptime = up, st_pid = pid, load0 = (int l0, -6), load1 = (int l1, -6), load2 = (int l2, -6)\<rparr>)"

definition dec_status :: "char list \<Rightarrow> rb_status res" where
  "dec_status mem = rbind (c_text mem) scan_status"

definition enc_status :: "int \<times> int \<times> nat \<times> nat \<times> nat \<Rightarrow> char list" where
  "enc_status x = (case x of (up, pid, l0, l1, l2) \<Rightarrow> status_text up pid l0 l1 l2)"

text \<open>
  What may lie behind a text that was sent without its NUL: memory that has a NUL somewhere and does
  not start like the rest of a number.
\<close>

definition text_stops :: "char list \<Rightarrow> bool" where
  "text_stops mem \<longleftrightarrow> NUL \<in> set mem \<and> no_number_first mem"

lemma no_number_first_cstr: "no_number_first mem \<Longrightarrow> no_number_first (cstr mem)"
  by (cases mem) (auto simp: cstr_def)

lemma c_text_stops:
  "NUL \<notin> set s \<Longrightarrow> text_stops mem \<Longrightarrow> c_text (s @ mem) = Inr (s @ cstr mem) \<and> no_number_first (cstr mem)"
  by (simp add: c_text_def text_stops_def cstr_append no_number_first_cstr)

lemma no_number_no_digit: "no_number_first s \<Longrightarrow> no_digit_first s"
  by (auto simp: no_number_first_def no_digit_first_def)

lemma printed_no_NUL: "NUL \<notin> set (dec_nat n)" "NUL \<notin> set (dec_fixed k m)" "NUL \<notin> set (fmt_d i)" "NUL \<notin> set (fmt_lf u)"
proof -
  have "\<not> isdigit NUL" by (simp add: isdigit_def)
  then show "NUL \<notin> set (dec_nat n)" "NUL \<notin> set (dec_fixed k m)" for n k m
    using dec_nat_digits dec_fixed_digits by blast+
  then show "NUL \<notin> set (fmt_d i)" "NUL \<notin> set (fmt_lf u)" by (auto simp: fmt_d_def fmt_lf_def)
qed

lemma scan_status_text:
  assumes "status_ok x" "no_number_first rest"
  shows "scan_status (enc_status x @ rest) = Inr (status_view x)"
proof -
  obtain up pid l0 l1 l2 where x: "x = (up, pid, l0, l1, l2)" by (cases x)
  have ns: "\<not> isdigit (CHR '' '')" by (simp add: isdigit_def)
  have "\<not> (up < - (2 ^ 63) \<or> 2 ^ 63 \<le> up)" "int_range pid"
    using assms(1) by (auto simp: x status_ok_def int_range_simps)
  then show ?thesis
    using scan_lf_fmt_lf [OF assms(2), of l2]
    by (simp add: scan_status_def x enc_status_def status_text_def status_view_def status0_def ns
      scan_d_fmt_d scan_lf_fmt_lf)
qed

lemma length_fmt_lf: "u < 10 ^ (k + 6) \<Longrightarrow> 0 < k \<Longrightarrow> length (fmt_lf u) \<le> k + 7"
proof -
  assume u: "u < 10 ^ (k + 6)" "0 < k"
  then have "u div 1000000 < 10 ^ k" by (simp add: power_add div_less_iff_less_mult)
  from length_dec_nat [OF this u(2)] show ?thesis by (simp add: fmt_lf_def)
qed

lemma length_status_text: "status_ok x \<Longrightarrow> length (enc_status x) < 64"
proof -
  assume ok: "status_ok x"
  obtain up pid l0 l1 l2 where x: "x = (up, pid, l0, l1, l2)" by (cases x)
  have "length (fmt_lf l0) \<le> 13" "length (fmt_lf l1) \<le> 13" "length (fmt_lf l2) \<le> 13"
    using ok length_fmt_lf [of l0 6] length_fmt_lf [of l1 6] length_fmt_lf [of l2 6]
    by (simp_all add: x status_ok_def)
  moreover have "length (fmt_d up) \<le> 11" "length (fmt_d pid) \<le> 7"
    using ok length_dec_nat [of "nat up" 11] length_dec_nat [of "nat pid" 7]
    by (auto simp: x status_ok_def fmt_d_def nat_less_iff)
  ultimately show ?thesis by (simp add: x enc_status_def status_text_def)
qed

interpretation status: message_format enc_status dec_status status_view status_ok text_stops
proof
  fix x behind assume x: "status_ok x" "text_stops behind"
  have "NUL \<notin> set (enc_status x)"
    using printed_no_NUL by (cases x) (simp add: enc_status_def status_text_def)
  with c_text_stops [OF this x(2)] scan_status_text [OF x(1)]
  show "dec_status (enc_status x @ behind) = Inr (status_view x)" by (simp add: dec_status_def)
next
  fix x assume "status_ok x"
  from length_status_text [OF this] show "length (enc_status x) < 2 ^ 64" by simp
qed

lemma status_info_sends:
  assumes "status_ok (my_uptime b, pid, l0, l1, l2)"
  shows "status_info b pid (l0, l1, l2) n s = send_msg n s BROKER_OK (enc_status (my_uptime b, pid, l0, l1, l2))"
  using length_status_text [OF assms] by (simp add: status_info_def enc_status_def)

lemma rb_broker_status_reply:
  "nio_client_rw n a \<lparr>opcode = BROKER_STATUS, len = 0\<rparr> [] = Inr (Some r, n') \<Longrightarrow>
   opcode (rep_header r) = BROKER_OK \<Longrightarrow> rep_buf r = Some buf \<Longrightarrow>
   rb_broker_status n a = rbind (dec_status (buf @ junk n')) (\<lambda>st. Inr (Some st, n'))"
  by (simp add: rb_broker_status_def dec_status_def rbind_assoc)

text \<open>The parameters reply: it carries its NUL, so nothing is asked of the memory behind it.\<close>

definition enc_params :: "parameters \<Rightarrow> char list" where
  "enc_params p = params_text p @ [NUL]"

lemma length_put_field: "length (put_field label v t) \<le> length label + opt_len v + length t"
  by (simp add: put_field_def split: option.splits)

lemma length_params_text:
  assumes "params_ok p"
  shows "length (params_text p) < 1024"
proof -
  have "length (fmt_d (workload_timer p)) \<le> 11" using assms length_fmt_d_int by (simp add: params_ok_def)
  moreover note length_put_field [of "''  scheduler:''" "scheduler p" "[newline]"]
    length_put_field [of "''  workdir:''" "work_dir p" "[newline]"]
    length_put_field [of "''  container_runtime:''" "container_runtime p" "[newline]"]
    length_put_field [of "''  vm_runtime:''" "vm_runtime p" "[newline]"]
    length_put_field [of "''  log_mask:''" "log_mask p" "[]"]
  moreover have "opt_len (scheduler p) + opt_len (container_runtime p) + opt_len (vm_runtime p) + opt_len (log_mask p) < 280"
    "opt_len (work_dir p) < 256"
    using assms by (auto simp: params_ok_def INI_MAX_LINE_def)
  ultimately show ?thesis by (simp add: params_text_def)
qed

lemma put_field_no_NUL:
  "no_NUL_opt v \<Longrightarrow> NUL \<notin> set label \<Longrightarrow> NUL \<notin> set t \<Longrightarrow> NUL \<notin> set (put_field label v t)"
  by (auto simp: put_field_def no_NUL_opt_def split: option.splits)

lemma params_text_no_NUL: "params_ok p \<Longrightarrow> NUL \<notin> set (params_text p)"
  using printed_no_NUL(3) by (simp add: params_text_def params_ok_def put_field_no_NUL)

interpretation params_fmt: message_format enc_params c_text params_text params_ok "\<lambda>_. True"
proof
  fix p behind assume "params_ok p"
  from params_text_no_NUL [OF this] show "c_text (enc_params p @ behind) = Inr (params_text p)"
    using c_text_NUL [of "params_text p" behind] by (simp add: enc_params_def)
next
  fix p assume "params_ok p"
  then show "length (enc_params p) < 2 ^ 64"
    using length_params_text [of p] by (simp add: enc_params_def)
qed

lemma params_info_sends:
  assumes "params_ok (params b)" "conns n s = Some c" "accepts_msg (enc_params (params b)) (wx c)"
  shows "params_info b n s = Inr (0, sys_close (n\<lparr>conns := (conns n)(s \<mapsto>
    c\<lparr>wx := after_msg (enc_params (params b)) (wx c),
      tx := tx c @ message (hdr_pad n) BROKER_OK (enc_params (params b))\<rparr>)\<rparr>) s)"
proof -
  have "length (enc_params (params b)) < 2 ^ 64"
    using length_params_text [OF assms(1)] by (simp add: enc_params_def)
  from send_msg_ok [OF assms(2,3) this] length_params_text [OF assms(1)] show ?thesis
    by (simp add: params_info_def enc_params_def)
qed

text \<open>The registration of a server.\<close>

definition enc_registration :: "int \<times> string \<times> int \<Rightarrow> char list" where
  "enc_registration x = (case x of (t, nm, m) \<Rightarrow> fmt_d t @ '' '' @ nm @ '' '' @ fmt_d m)"

definition dec_registration :: "char list \<Rightarrow> (int \<times> string \<times> int) res" where
  "dec_registration mem = rbind (c_text mem) scan_registration"

definition registration_ok :: "int \<times> string \<times> int \<Rightarrow> bool" where
  "registration_ok x \<longleftrightarrow> (case x of (t, nm, m) \<Rightarrow>
     int_range t \<and> int_range m \<and> is_word nm \<and> NUL \<notin> set nm \<and> length nm < MAXHOSTNAMELEN)"

lemma scan_registration_text:
  assumes "registration_ok (t, nm, m)" "no_digit_first rest"
  shows "scan_registration (enc_registration (t, nm, m) @ rest) = Inr (t, nm, m)"
proof -
  have ns: "\<not> isdigit (CHR '' '')" by (simp add: isdigit_def)
  have "scan_s (nm @ CHR '' '' # fmt_d m @ rest) = Some (nm, CHR '' '' # fmt_d m @ rest)"
    using assms(1) by (intro scan_s_word) (auto simp: registration_ok_def)
  then show ?thesis
    using assms by (simp add: scan_registration_def enc_registration_def registration_ok_def ns scan_d_fmt_d)
qed

lemma registration_short: "registration_ok x \<Longrightarrow> length (enc_registration x) < 88"
proof -
  assume ok: "registration_ok x"
  obtain t nm m where x: "x = (t, nm, m)" by (cases x)
  have "length (fmt_d t) \<le> 11" "length (fmt_d m) \<le> 11"
    using ok length_fmt_d_int by (simp_all add: x registration_ok_def)
  with ok show ?thesis by (simp add: x registration_ok_def enc_registration_def MAXHOSTNAMELEN_def)
qed

lemma registration_no_NUL: "registration_ok x \<Longrightarrow> NUL \<notin> set (enc_registration x)"
  using printed_no_NUL(3) by (auto simp: registration_ok_def enc_registration_def)

interpretation registration: message_format enc_registration dec_registration id registration_ok text_stops
proof
  fix x behind assume x: "registration_ok x" "text_stops behind"
  obtain t nm m where y: "x = (t, nm, m)" by (cases x)
  from c_text_stops [OF registration_no_NUL [OF x(1)] x(2)] scan_registration_text [OF x(1) [unfolded y]]
  show "dec_registration (enc_registration x @ behind) = Inr (id x)"
    by (simp add: dec_registration_def y no_number_no_digit)
next
  fix x assume "registration_ok x"
  from registration_short [OF this] show "length (enc_registration x) < 2 ^ 64" by simp
qed

section \<open>Registering a server\<close>

definition registered :: "int \<Rightarrow> string \<Rightarrow> int \<Rightarrow> server" where
  "registered s nm m = \<lparr>srv_socket = s, srv_name = nm, srv_status = SERVER_REGISTERED,
     srv_type = SERVER_TYPE_VM, max_instances = m\<rparr>"

text \<open>A message of which the whole arrived, and what the broker makes of its text.\<close>

lemma server_register_reads:
  assumes "conns n s = Some c" "stream_bytes (rx c) = msg @ rest" "length msg \<le> 1024"
    and "takes_all sizeof_header (wx c)" "dec_registration (msg @ junk n) = Inr (t, nm, m)"
  shows "\<exists>n' c'. server_register b n s \<lparr>opcode = op, len = of_nat (length msg)\<rparr> =
      Inr (0, b\<lparr>servers := servers b @ [registered s nm m]\<rparr>, n') \<and>
    conns n' = (conns n)(s \<mapsto> c') \<and> tx c' = tx c @ message (hdr_pad n) BROKER_OK [] \<and>
    stream_bytes (rx c') = rest"
proof -
  have L: "unat (of_nat (length msg) :: 64 word) = length msg"
    using assms(3) by (simp add: unat_of_nat take_bit_nat_eq_self)
  have "length msg \<le> length (stream_bytes (rx c))" using assms(2) by simp
  from net_readblock_ok [OF assms(1) this] assms(2) obtain es where es:
    "net_readblock n s (length msg) = Inr (Some msg, n\<lparr>conns := (conns n)(s \<mapsto> c\<lparr>rx := es\<rparr>)\<rparr>)"
    "stream_bytes es = rest" by auto
  let ?n = "n\<lparr>conns := (conns n)(s \<mapsto> c\<lparr>rx := es\<rparr>)\<rparr>"
  have w: "net_writeblock ?n s (encode_header (hdr_pad n) \<lparr>opcode = BROKER_OK, len = 0\<rparr>) =
      Inr (int sizeof_header, ?n\<lparr>conns := (conns ?n)(s \<mapsto> (c\<lparr>rx := es\<rparr>)\<lparr>wx := after_write (wx c),
        tx := tx c @ encode_header (hdr_pad n) \<lparr>opcode = BROKER_OK, len = 0\<rparr>\<rparr>)\<rparr>)"
    using assms(4) by (subst send_header_ok [where c = "c\<lparr>rx := es\<rparr>"]) simp_all
  from assms(5) obtain tx1 where tx1: "c_text (msg @ junk n) = Inr tx1" "scan_registration tx1 = Inr (t, nm, m)"
    by (auto simp: dec_registration_def fault_simps)
  let ?c = "c\<lparr>rx := es, wx := after_write (wx c), tx := tx c @ encode_header (hdr_pad n) \<lparr>opcode = BROKER_OK, len = 0\<rparr>\<rparr>"
  have "\<not> 1024 < min (length msg) (arriving n s)" using assms(3) by simp
  then show ?thesis
    using es w tx1
    by (intro exI [of _ "n\<lparr>conns := (conns n)(s \<mapsto> ?c)\<rparr>"] exI [of _ ?c])
      (simp add: server_register_def L registered_def message_def)
qed

text \<open>Digits behind a printed number make it longer.\<close>

lemma scan_d_digits:
  assumes "ds \<noteq> []" "\<forall>c \<in> set ds. isdigit c" "no_digit_first rest"
  shows "scan_d (ds @ rest) = Some (int (digits_value ds), rest)"
proof -
  obtain c cs where c: "ds = c # cs" "isdigit c" using assms(1,2) by (cases ds) auto
  have "c \<noteq> CHR ''-''" "c \<noteq> CHR ''+''" "\<not> isspace c" using c(2) by (auto simp: isdigit_def isspace_def)
  moreover have "takeWhile isdigit (ds @ rest) = ds" "dropWhile isdigit (ds @ rest) = rest"
    using takeWhile_append_stop [OF assms(2)] dropWhile_append_stop [OF assms(2)] assms(3)
    by (simp_all add: no_digit_first_def)
  ultimately show ?thesis
    using c(1) by (simp add: scan_d_def skip_space_def scan_unsigned_def Let_def)
qed

lemma dec_registration_digit:
  assumes "registration_ok (t, nm, m)" "0 \<le> m" "int_range (10 * m + 9)" "isdigit d"
  shows "dec_registration (enc_registration (t, nm, m) @ d # NUL # rest) =
    Inr (t, nm, 10 * m + int (digit_val d))"
proof -
  have d: "d \<noteq> NUL" "digit_val d \<le> 9" using assms(4) by (auto simp: isdigit_def digit_val_def)
  have tx1: "c_text (enc_registration (t, nm, m) @ d # NUL # rest) = Inr (enc_registration (t, nm, m) @ [d])"
    using c_text_NUL [of "enc_registration (t, nm, m) @ [d]" rest] registration_no_NUL [OF assms(1)] d(1) by simp
  have m: "fmt_d m @ [d] = dec_nat (nat m) @ [d]" using assms(2) by (simp add: fmt_d_def)
  have num: "scan_d (fmt_d m @ [d]) = Some (10 * m + int (digit_val d), [])"
    using scan_d_digits [of "dec_nat (nat m) @ [d]" "[]"] dec_nat_digits assms(2,4)
    by (auto simp: m ball_Un)
  have "scan_s (nm @ CHR '' '' # fmt_d m @ [d]) = Some (nm, CHR '' '' # fmt_d m @ [d])"
    using assms(1) by (intro scan_s_word) (auto simp: registration_ok_def)
  moreover have "int_range (10 * m + int (digit_val d))" using assms(2,3) d(2) by (simp add: int_range_simps)
  moreover have "\<not> isdigit (CHR '' '')" by (simp add: isdigit_def)
  ultimately show ?thesis
    using tx1 num assms(1)
    by (simp add: dec_registration_def scan_registration_def enc_registration_def registration_ok_def scan_d_fmt_d)
qed

section \<open>Properties\<close>

text \<open>C9. The status request, end to end: for a start time of at most 11 digits, a process id of at most 7 and load
  averages below a million, the broker's reply fits its buffer of 64 bytes, and a client that can connect and
  send, and whose connection carries these bytes, gets exactly the same numbers (its connection closed again),
  provided the memory behind the received buffer, which has no NUL of its own, does not continue the last
  number and holds a NUL (\<open>text_stops\<close>): a digit there would be read as part of the last load average.\<close>

theorem status_end_to_end:
  assumes "status_ok (my_uptime b, pid, l0, l1, l2)"
    and "conns n s = Some c" "accepts_msg (enc_status (my_uptime b, pid, l0, l1, l2)) (wx c)"
    and "connects a" "accepts_msg [] (wx (an_conn a))" "text_stops (junk m)"
  shows "\<exists>n' c' sent. status_info b pid (l0, l1, l2) n s = Inr (0, n') \<and> conns n' s = Some c' \<and>
    tx c' = tx c @ sent \<and>
    (stream_bytes (rx (an_conn a)) = sent \<longrightarrow>
      (\<exists>m'. rb_broker_status m a = Inr (Some (status_view (my_uptime b, pid, l0, l1, l2)), m') \<and>
        conns m' = (conns m)(an_socket a := None)))"
proof -
  let ?x = "(my_uptime b, pid, l0, l1, l2)"
  let ?sent = "message (hdr_pad n) BROKER_OK (enc_status ?x)"
  let ?c = "c\<lparr>wx := after_msg (enc_status ?x) (wx c), tx := tx c @ ?sent\<rparr>"
  have "status_info b pid (l0, l1, l2) n s = Inr (0, n\<lparr>conns := (conns n)(s \<mapsto> ?c)\<rparr>)"
    using status_info_sends [OF assms(1)] send_msg_ok [OF assms(2,3) status.enc_short [OF assms(1)]] by simp
  moreover have "\<exists>m'. rb_broker_status m a = Inr (Some (status_view ?x), m') \<and>
      conns m' = (conns m)(an_socket a := None)" if "stream_bytes (rx (an_conn a)) = ?sent"
  proof -
    have "enc_status ?x \<noteq> []" by (simp add: enc_status_def status_text_def)
    from status.request_reply [OF assms(1) this assms(4-6) that] obtain m' r buf where
      r: "nio_client_rw m a \<lparr>opcode = BROKER_STATUS, len = 0\<rparr> [] = Inr (Some r, m')"
      "opcode (rep_header r) = BROKER_OK" "rep_buf r = Some buf"
      "dec_status (buf @ junk m') = Inr (status_view ?x)" "conns m' = (conns m)(an_socket a := None)"
      by blast
    from rb_broker_status_reply [OF r(1-3)] r(4,5) show ?thesis by simp
  qed
  ultimately show ?thesis by (intro exI [of _ "n\<lparr>conns := (conns n)(s \<mapsto> ?c)\<rparr>"] exI [of _ ?c] exI [of _ ?sent]) simp
qed

text \<open>A process with one connection, and a request that will be answered, for the witnesses.\<close>

definition demo_conn :: "rd_event list \<Rightarrow> conn" where
  "demo_conn es = \<lparr>rx = es, wx = [Accept 2000, Accept 2000], tx = []\<rparr>"

definition demo_net :: "rd_event list \<Rightarrow> char list \<Rightarrow> net" where
  "demo_net es behind = \<lparr>conns = [5 \<mapsto> demo_conn es], polled = {5}, junk = behind, hdr_pad = [], bad_closes = 0\<rparr>"

definition demo_answers :: "rd_event list \<Rightarrow> sock_answers" where
  "demo_answers es = \<lparr>an_socket = 7, an_setsockopt = 0, an_bind = 0, an_listen = 0, an_connect = 0,
     an_epoll_ctl = 0, an_conn = demo_conn es\<rparr>"

lemma demo_simps [simp]:
  "conns (demo_net es behind) s = (if s = 5 then Some (demo_conn es) else None)"
  "junk (demo_net es behind) = behind" "hdr_pad (demo_net es behind) = []"
  "rx (demo_conn es) = es" "tx (demo_conn es) = []"
  "connects (demo_answers es)" "an_conn (demo_answers es) = demo_conn es" "an_socket (demo_answers es) = 7"
  by (simp_all add: demo_net_def demo_conn_def demo_answers_def connects_def)

lemma demo_accepts: "length buf < 2000 \<Longrightarrow> accepts_msg buf (wx (demo_conn es))"
  by (simp add: demo_conn_def accepts_msg_def sizeof_header_def)

lemma text_stops_NUL: "text_stops (NUL # rest)"
  by (simp add: text_stops_def isdigit_def)

theorem status_end_to_end_witness:
  "\<exists>m'. rb_broker_status (demo_net [] [NUL])
      (demo_answers [Data (message [] BROKER_OK (enc_status (1700000000, 4242, 250000, 1500000, 0)))]) =
    Inr (Some \<lparr>uptime = 1700000000, st_pid = 4242, load0 = (250000, -6), load1 = (1500000, -6), load2 = (0, -6)\<rparr>, m')"
proof -
  let ?b = "init_main_data 1700000000 True" and ?x = "(1700000000, 4242, 250000, 1500000, 0) :: int \<times> int \<times> nat \<times> nat \<times> nat"
  let ?a = "demo_answers [Data (message [] BROKER_OK (enc_status ?x))]" and ?n = "demo_net [] [NUL]"
  have up: "my_uptime ?b = 1700000000" by (simp add: init_main_data_def)
  have ok: "status_ok (my_uptime ?b, 4242, 250000, 1500000, 0)" by (simp add: up status_ok_def)
  have len: "length (enc_status (my_uptime ?b, 4242, 250000, 1500000, 0)) < 2000"
    using length_status_text [OF ok] by simp
  have acc: "accepts_msg [] (wx (an_conn ?a))" by (simp add: demo_accepts)
  from status_end_to_end [OF ok _ demo_accepts [OF len] demo_simps(6) acc, of ?n 5 "[]" ?n]
  obtain n' c' sent where r: "status_info ?b 4242 (250000, 1500000, 0) ?n 5 = Inr (0, n')" "conns n' 5 = Some c'"
    "tx c' = sent" and reply: "stream_bytes (rx (an_conn ?a)) = sent \<longrightarrow>
      (\<exists>m'. rb_broker_status ?n ?a = Inr (Some (status_view ?x), m'))"
    unfolding up by (auto simp: text_stops_NUL)
  have "status_info ?b 4242 (250000, 1500000, 0) ?n 5 = Inr (0, ?n\<lparr>conns := (conns ?n)(5 \<mapsto>
      (demo_conn [])\<lparr>wx := after_msg (enc_status ?x) (wx (demo_conn [])), tx := message [] BROKER_OK (enc_status ?x)\<rparr>)\<rparr>)"
    using status_info_sends [OF ok] send_msg_ok [of ?n 5 "demo_conn []" "enc_status ?x" BROKER_OK] len
      demo_accepts [OF len] by (simp add: up)
  with r have "sent = message [] BROKER_OK (enc_status ?x)" by auto
  with reply show ?thesis by (auto simp: status_view_def)
qed



text \<open>A registration that a server prints is taken over by the broker: it appends exactly one server
  with the name and the number of machines sent, on this socket, and answers with an empty OK. The
  type that was sent is not kept: every server is recorded as one of virtual machines.\<close>

theorem server_register_adds:
  assumes "registration_ok (t, nm, m)" "text_stops (junk n)"
    and "conns n s = Some c" "stream_bytes (rx c) = enc_registration (t, nm, m) @ rest"
    and "takes_all sizeof_header (wx c)"
  shows "\<exists>n' c'. server_register b n s \<lparr>opcode = op, len = of_nat (length (enc_registration (t, nm, m)))\<rparr> =
      Inr (0, b\<lparr>servers := servers b @ [registered s nm m]\<rparr>, n') \<and>
    srv_type (registered s nm m) = SERVER_TYPE_VM \<and>
    conns n' = (conns n)(s \<mapsto> c') \<and> tx c' = tx c @ message (hdr_pad n) BROKER_OK [] \<and>
    stream_bytes (rx c') = rest"
proof -
  have "dec_registration (enc_registration (t, nm, m) @ junk n) = Inr (t, nm, m)"
    using registration.dec_enc [OF assms(1,2)] by simp
  from server_register_reads [OF assms(3,4) _ assms(5) this] registration_short [OF assms(1)]
  show ?thesis by (simp add: registered_def)
qed

theorem server_register_adds_witness:
  "\<exists>b' n'. server_register (init_main_data 0 True)
      (demo_net [Data (enc_registration (SERVER_TYPE_CONTAINER, ''node7'', 3))] [NUL]) 5
      \<lparr>opcode = BROKER_SERVER_REGISTER, len = of_nat (length (enc_registration (SERVER_TYPE_CONTAINER, ''node7'', 3)))\<rparr> =
    Inr (0, b', n') \<and> servers b' = [registered 5 ''node7'' 3]"
proof -
  let ?x = "(SERVER_TYPE_CONTAINER, ''node7'', 3) :: int \<times> string \<times> int"
  have ok: "registration_ok ?x"
    by (simp add: registration_ok_def int_range_simps type_defs is_word_def isspace_def MAXHOSTNAMELEN_def)
  from server_register_adds [OF ok, of "demo_net [Data (enc_registration ?x)] [NUL]" 5 "demo_conn [Data (enc_registration ?x)]"
      "[]" "init_main_data 0 True" BROKER_SERVER_REGISTER]
  show ?thesis by (auto simp: text_stops_NUL demo_conn_def sizeof_header_def init_main_data_def)
qed

text \<open>The registration is sent without its NUL into a buffer that is not cleared. A digit left behind
  it on the stack becomes part of the number of machines: the broker records ten times the number
  that was sent, plus that digit.\<close>

theorem server_register_stale_digit:
  assumes "registration_ok (t, nm, m)" "0 \<le> m" "int_range (10 * m + 9)"
    and "isdigit d" "junk n = d # NUL # behind"
    and "conns n s = Some c" "stream_bytes (rx c) = enc_registration (t, nm, m)"
    and "takes_all sizeof_header (wx c)"
  shows "\<exists>n'. server_register b n s \<lparr>opcode = op, len = of_nat (length (enc_registration (t, nm, m)))\<rparr> =
      Inr (0, b\<lparr>servers := servers b @ [registered s nm (10 * m + int (digit_val d))]\<rparr>, n')"
proof -
  have "dec_registration (enc_registration (t, nm, m) @ junk n) = Inr (t, nm, 10 * m + int (digit_val d))"
    using dec_registration_digit [OF assms(1-4)] assms(5) by simp
  from server_register_reads [OF assms(6) _ _ assms(8) this, of "[]"] assms(7) registration_short [OF assms(1)]
  show ?thesis by fastforce
qed

theorem server_register_stale_digit_witness:
  "\<exists>b' n'. server_register (init_main_data 0 True) (demo_net [Data (enc_registration (0, ''n'', 3))] (''7'' @ [NUL])) 5
      \<lparr>opcode = BROKER_SERVER_REGISTER, len = of_nat (length (enc_registration (0, ''n'', 3)))\<rparr> =
    Inr (0, b', n') \<and> map max_instances (servers b') = [37]"
proof -
  let ?x = "(0, ''n'', 3) :: int \<times> string \<times> int"
  have ok: "registration_ok ?x"
    by (simp add: registration_ok_def int_range_simps is_word_def isspace_def MAXHOSTNAMELEN_def)
  have d: "isdigit (CHR ''7'')" "digit_val (CHR ''7'') = 7" by code_simp+
  from server_register_stale_digit [OF ok _ _ d(1), of "demo_net [Data (enc_registration ?x)] (''7'' @ [NUL])" "[]" 5
      "demo_conn [Data (enc_registration ?x)]" "init_main_data 0 True" BROKER_SERVER_REGISTER]
  show ?thesis by (auto simp: d int_range_simps demo_conn_def sizeof_header_def registered_def init_main_data_def)
qed

text \<open>The length in a registration's header is not checked: when it announces more than 1024 bytes
  and that many arrive, the broker's stack buffer is overrun, whatever the bytes are.\<close>

lemma server_register_overflow:
  assumes "1024 < unat (len hdr)" "conns n s = Some c" "1024 < length (stream_bytes (rx c))"
  shows "server_register b n s hdr = Inl Buffer_overflow"
  using assms by (simp add: server_register_def arriving_def)

text \<open>The address of a daemon, \<open>ip@port\<close>, is split at the first \<open>@\<close> and the port read back; an
  argument without \<open>@\<close> (or a missing argument) makes the client dereference NULL.\<close>

theorem get_daemon_id_roundtrip:
  "(CHR ''@'' \<notin> set host_ip \<longrightarrow> int_range p \<longrightarrow>
     get_daemon_id (Some (host_ip @ ''@'' @ fmt_d p)) = Inr \<lparr>ip = host_ip, id_port = p\<rparr>) \<and>
   (CHR ''@'' \<notin> set host_ip \<longrightarrow> get_daemon_id (Some host_ip) = Inl Null_deref) \<and>
   get_daemon_id None = Inl Null_deref"
proof (intro conjI impI)
  assume a: "CHR ''@'' \<notin> set host_ip" "int_range p"
  then have ball_neq: "\<forall>c \<in> set host_ip. c \<noteq> CHR ''@''" by auto
  then have "takeWhile (\<lambda>c. c \<noteq> CHR ''@'') (host_ip @ ''@'' @ fmt_d p) = host_ip"
    "dropWhile (\<lambda>c. c \<noteq> CHR ''@'') (host_ip @ ''@'' @ fmt_d p) = ''@'' @ fmt_d p"
    by (simp_all add: takeWhile_append_stop dropWhile_append_stop ball_neq)
  moreover have "atoi (fmt_d p) = Inr p" using scan_d_fmt_d [of "[]" p] a(2) by (simp add: atoi_def)
  ultimately show "get_daemon_id (Some (host_ip @ ''@'' @ fmt_d p)) = Inr \<lparr>ip = host_ip, id_port = p\<rparr>"
    by (simp add: get_daemon_id_def)
next
  assume "CHR ''@'' \<notin> set host_ip"
  then have "dropWhile (\<lambda>c. c \<noteq> CHR ''@'') host_ip = []" by (auto simp: dropWhile_eq_Nil_conv)
  then show "get_daemon_id (Some host_ip) = Inl Null_deref"
    by (simp add: get_daemon_id_def del: dropWhile_eq_Nil_conv)
qed (simp add: get_daemon_id_def)

theorem get_daemon_id_roundtrip_witness:
  "get_daemon_id (Some (''10.0.0.1'' @ ''@'' @ fmt_d 41200)) = Inr \<lparr>ip = ''10.0.0.1'', id_port = 41200\<rparr> \<and>
   get_daemon_id (Some ''10.0.0.1'') = Inl Null_deref"
  using get_daemon_id_roundtrip [of "''10.0.0.1''" 41200] by (simp add: int_range_simps)

end
