(* ===== verification/Syslog.thy ===== *)
theory Syslog
  imports C_String
begin

text \<open>
  The log levels that \<open>open_log\<close> of \<open>src/daemon/resbd.c\<close> and \<open>open_server_log\<close> of
  \<open>src/server/rbserver.c\<close> know, ordered by how much they let through.
\<close>

datatype log_level = LOG_ERR | LOG_WARNING | LOG_INFO | LOG_DEBUG

fun level_number :: "log_level \<Rightarrow> nat" where
  "level_number LOG_ERR = 3"
| "level_number LOG_WARNING = 4"
| "level_number LOG_INFO = 6"
| "level_number LOG_DEBUG = 7"

lemma level_number_inject [simp]: "level_number a = level_number b \<longleftrightarrow> a = b"
  by (cases a; cases b) auto

instantiation log_level :: linorder
begin

definition less_eq_log_level :: "log_level \<Rightarrow> log_level \<Rightarrow> bool" where
  "less_eq_log_level a b \<longleftrightarrow> level_number a \<le> level_number b"

definition less_log_level :: "log_level \<Rightarrow> log_level \<Rightarrow> bool" where
  "less_log_level a b \<longleftrightarrow> level_number a < level_number b"

instance
  by standard (auto simp: less_eq_log_level_def less_log_level_def)

end

text \<open>The mask a name selects; an unknown name, or none, selects \<open>LOG_INFO\<close>.\<close>

definition log_mask_of :: "string \<Rightarrow> log_level" where
  "log_mask_of s =
     (if s = ''LOG_ERR'' then LOG_ERR
      else if s = ''LOG_WARNING'' then LOG_WARNING
      else if s = ''LOG_INFO'' then LOG_INFO
      else if s = ''LOG_DEBUG'' then LOG_DEBUG
      else LOG_INFO)"

text \<open>\<open>setlogmask(LOG_UPTO(mask))\<close>: the messages that are logged.\<close>

definition logged :: "log_level \<Rightarrow> log_level \<Rightarrow> bool" where
  "logged lm level \<longleftrightarrow> level \<le> lm"

lemma logged_err: "logged lm LOG_ERR"
  by (cases lm) (simp_all add: logged_def less_eq_log_level_def)

lemma logged_mono: "lm \<le> lm' \<Longrightarrow> logged lm level \<Longrightarrow> logged lm' level"
  by (auto simp: logged_def)

end
