(* ===== verification/RbServer.thy ===== *)
theory RbServer
  imports Clients Syslog
begin

text \<open>
  The server daemon: its options and its machine file (\<open>src/server/rbserver.c\<close>), and its
  conversation with the broker (\<open>src/server/rbio.c\<close>). The options are what \<open>getopt\<close> returns: a
  letter and its argument. The file system is a function from names to contents. The event loop faults at its
  first event, since the index it uses was never written.
\<close>

section \<open>The state\<close>

record rb_machine =
  m_name :: string
  m_type :: int
  m_status :: int

record rb_server =
  s_socket :: int
  s_name :: "string option"
  s_type :: int
  s_num_machines :: int
  s_m :: "rb_machine list"

definition empty_server :: rb_server where
  "empty_server = \<lparr>s_socket = 0, s_name = None, s_type = 0, s_num_machines = 0, s_m = []\<rparr>"

section \<open>The machine file\<close>

text \<open>
  The chunks that successive calls of \<open>fgets(buf, sizeof(buf), fp)\<close> return; the program's buffer
  has 64 bytes (with a size below 2, which it never uses, nothing would be read).
\<close>

function file_chunks :: "nat \<Rightarrow> string \<Rightarrow> string list" where
  "file_chunks n s =
     (if n < 2 then [] else
      (case fgets n s of None \<Rightarrow> [] | Some (l, r) \<Rightarrow> l # file_chunks n r))"
  by pat_completeness auto
termination
  by (relation "measure (\<lambda>(n, s). length s)") (auto dest: fgets_shorter)

declare file_chunks.simps [simp del]

text \<open>
  One machine: the last character of the string in the buffer is cut, whatever it is; with an
  empty string the byte before the buffer is written.
\<close>

definition machine_of :: "int \<Rightarrow> string \<Rightarrow> rb_machine res" where
  "machine_of t chunk =
     (if cstr chunk = [] then Inl Buffer_overflow
      else Inr \<lparr>m_name = butlast (cstr chunk), m_type = t, m_status = MACHINE_OFF\<rparr>)"

fun machines_of :: "int \<Rightarrow> string list \<Rightarrow> rb_machine list res" where
  "machines_of t [] = Inr []"
| "machines_of t (l # ls) = rbind (machine_of t l) (\<lambda>m. rbind (machines_of t ls) (\<lambda>ms. Inr (m # ms)))"

definition process_machine_file :: "(string \<Rightarrow> string option) \<Rightarrow> string \<Rightarrow> rb_server \<Rightarrow> (int \<times> rb_server) res" where
  "process_machine_file fs name srv =
     (case fs name of
        None \<Rightarrow> Inr (-1, srv)
      | Some content \<Rightarrow>
          (let chunks = file_chunks 64 content; n = length chunks
           in rbind (c_int (int n)) (\<lambda>n.
              rbind (machines_of (s_type srv) chunks) (\<lambda>ms.
                Inr (0, srv\<lparr>s_num_machines := n, s_m := ms\<rparr>)))))"

section \<open>The options\<close>

record srv_opts =
  o_srv :: rb_server
  o_id :: "rb_daemon_id option"
  o_debug :: bool
  o_mask :: "log_level option"

definition opts0 :: srv_opts where
  "opts0 = \<lparr>o_srv = empty_server, o_id = None, o_debug = False, o_mask = None\<rparr>"

definition open_server_log :: "string option \<Rightarrow> log_level" where
  "open_server_log level = log_mask_of (case level of None \<Rightarrow> ''LOG_INFO'' | Some l \<Rightarrow> l)"

text \<open>One turn of the \<open>getopt\<close> loop of \<open>main\<close>; \<open>None\<close> is the return with -1.\<close>

definition option_step ::
  "(string \<Rightarrow> string option) \<Rightarrow> char \<times> string option \<Rightarrow> srv_opts \<Rightarrow> srv_opts option res" where
  "option_step fs opt st =
     (let c = fst opt; arg = snd opt; srv = o_srv st in
      if c = CHR ''t'' then rbind (nonnull arg) (\<lambda>a.
        if strcaseeq a ''vm'' then Inr (Some (st\<lparr>o_srv := srv\<lparr>s_type := SERVER_TYPE_VM\<rparr>\<rparr>))
        else if strcaseeq a ''container'' then Inr (Some (st\<lparr>o_srv := srv\<lparr>s_type := SERVER_TYPE_CONTAINER\<rparr>\<rparr>))
        else if strcaseeq a ''cloud'' then Inr (Some (st\<lparr>o_srv := srv\<lparr>s_type := SERVER_TYPE_CLOUD\<rparr>\<rparr>))
        else Inr None)
      else if c = CHR ''s'' then rbind (get_daemon_id arg) (\<lambda>d. Inr (Some (st\<lparr>o_id := Some d\<rparr>)))
      else if c = CHR ''m'' then rbind (nonnull arg) (\<lambda>a.
        rbind (process_machine_file fs a srv) (\<lambda>(cc, srv').
          Inr (if cc < 0 then None else Some (st\<lparr>o_srv := srv'\<rparr>))))
      else if c = CHR ''d'' then Inr (Some (st\<lparr>o_debug := True, o_mask := Some (open_server_log arg)\<rparr>))
      else if c = CHR ''n'' then rbind (nonnull arg) (\<lambda>a. Inr (Some (st\<lparr>o_srv := srv\<lparr>s_name := Some a\<rparr>\<rparr>)))
      else if c = CHR ''?'' \<or> c = CHR ''h'' then Inr None
      else Inr (Some st))"

fun option_loop ::
  "(string \<Rightarrow> string option) \<Rightarrow> (char \<times> string option) list \<Rightarrow> srv_opts \<Rightarrow> srv_opts option res" where
  "option_loop fs [] st = Inr (Some st)"
| "option_loop fs (opt # opts) st =
     rbind (option_step fs opt st) (\<lambda>r. case r of None \<Rightarrow> Inr None | Some st' \<Rightarrow> option_loop fs opts st')"

section \<open>Registering with the broker\<close>

definition registration_text :: "rb_server \<Rightarrow> string \<Rightarrow> string" where
  "registration_text srv nm = fmt_d (s_type srv) @ '' '' @ nm @ '' '' @ fmt_d (s_num_machines srv)"

text \<open>
  \<open>register_with_broker\<close>. The result of \<open>nio_client_init\<close> is tested and then used all the same.
  Printing a NULL name is a fault. The second insertion into the epoll set fails unnoticed.
\<close>

definition register_with_broker :: "net \<Rightarrow> sock_answers \<Rightarrow> rb_server \<Rightarrow> (int \<times> net) res" where
  "register_with_broker n a srv =
     (let (s, n1) = nio_client_init n a in
      rbind (nonnull (s_name srv)) (\<lambda>nm.
      rbind (sprintf_buf 64 (registration_text srv nm)) (\<lambda>buf.
      rbind (send_msg n1 s BROKER_SERVER_REGISTER buf) (\<lambda>(cc, n2).
        if cc < 0 then Inr (-1, sys_close n2 s)
        else rbind (read_header n2 s) (\<lambda>(h, n3).
          case h of
            None \<Rightarrow> Inr (-1, sys_close n3 s)
          | Some hdr2 \<Rightarrow>
              if opcode hdr2 \<noteq> BROKER_OK then Inr (-1, sys_close n3 s)
              else Inr (s, snd (nio_epoll_add n3 s)))))))"

section \<open>Requests of the broker\<close>

text \<open>
  \<open>boot_resources\<close>: the smaller of the machines there are and the number asked for, printed one after
  the other into a buffer of \<open>BUFSIZ/8\<close> bytes.
\<close>

definition machine_list_text :: "string list \<Rightarrow> string" where
  "machine_list_text names = fmt_d (int (length names)) @ '' '' @ concat (map (\<lambda>m. '' '' @ m) names)"

definition boot_count :: "rb_server \<Rightarrow> rb_header \<Rightarrow> nat" where
  "boot_count srv hdr = min (nat (s_num_machines srv)) (unat (len hdr))"

definition boot_resources :: "rb_server \<Rightarrow> net \<Rightarrow> int \<Rightarrow> rb_header \<Rightarrow> (int \<times> net) res" where
  "boot_resources srv n s hdr =
     (let k = boot_count srv hdr in
      if length (s_m srv) < k then Inl Over_read
      else rbind (sprintf_buf 1024 (machine_list_text (map m_name (take k (s_m srv))))) (\<lambda>buf.
        send_msg n s SERVER_RESOURCES_OK buf))"

definition shut_resources :: "net \<Rightarrow> int \<Rightarrow> (int \<times> net) res" where
  "shut_resources n s = Inr (0, n)"

definition process_broker_request :: "rb_server \<Rightarrow> net \<Rightarrow> int \<Rightarrow> (int \<times> net) res" where
  "process_broker_request srv n s =
     rbind (read_header n s) (\<lambda>(h, n1).
       case h of
         None \<Rightarrow> Inr (-1, snd (nio_epoll_del (sys_close n1 s) s))
       | Some hdr \<Rightarrow>
           if opcode hdr = SERVER_BOOT_RESOURCES then
             rbind (boot_resources srv n1 s hdr) (\<lambda>(cc, n2). Inr (0, n2))
           else if opcode hdr = SERVER_SHUT_RESOURCES then
             rbind (shut_resources n1 s) (\<lambda>(cc, n2). Inr (0, n2))
           else Inr (0, n1))"

text \<open>
  \<open>handle_broker_events\<close>. In the body of its loop \<open>int cc = process_broker_request(ev[cc].data.fd)\<close> declares a second
  \<open>cc\<close>, whose scope begins before its initialiser: the index is not that of the loop but this new variable, to
  which nothing has been written. The loop itself counts with the outer one and stops at the first
  request that fails.
\<close>

definition event_request :: "rb_server \<Rightarrow> net \<Rightarrow> int list \<Rightarrow> nat option \<Rightarrow> (int \<times> net) res" where
  "event_request srv n ev inner =
     rbind (initialised inner) (\<lambda>cc. if cc < length ev then process_broker_request srv n (ev ! cc) else Inl Over_read)"

fun handle_event_loop :: "rb_server \<Rightarrow> net \<Rightarrow> int list \<Rightarrow> nat \<Rightarrow> (int \<times> net) res" where
  "handle_event_loop srv n ev 0 = Inr (0, n)"
| "handle_event_loop srv n ev (Suc left) =
     rbind (event_request srv n ev None) (\<lambda>(cc, n1).
       if cc < 0 then Inr (-1, n1) else handle_event_loop srv n1 ev left)"

definition handle_broker_events :: "rb_server \<Rightarrow> net \<Rightarrow> int list \<Rightarrow> (int \<times> net) res" where
  "handle_broker_events srv n ev = handle_event_loop srv n ev (length ev)"

text \<open>
  \<open>main\<close> up to its loop: the options, the registration. \<open>None\<close> is a return with -1; an address that
  no option set is read uninitialised, and the machine list is printed to the log first.
\<close>

definition rbserver_start ::
  "(string \<Rightarrow> string option) \<Rightarrow> (char \<times> string option) list \<Rightarrow> net \<Rightarrow> sock_answers \<Rightarrow>
   ((rb_server \<times> net) option) res" where
  "rbserver_start fs opts n a =
     rbind (option_loop fs opts opts0) (\<lambda>r.
       case r of
         None \<Rightarrow> Inr None
       | Some st \<Rightarrow>
           rbind (initialised (o_id st)) (\<lambda>d.
             rbind (register_with_broker n a (o_srv st)) (\<lambda>(s, n1).
               if s < 0 then Inr None
               else Inr (Some ((o_srv st)\<lparr>s_socket := s\<rparr>, n1)))))"

text \<open>
  A turn of the loop of \<open>main\<close>: \<open>epoll_wait\<close> without a time limit returns descriptors of the epoll set, at
  least one; they are handled and the value that \<open>handle_broker_events\<close> returns is ignored. The result of a turn
  is the new state or a fault.
\<close>

inductive rbserver_step :: "rb_server \<Rightarrow> net \<Rightarrow> net res \<Rightarrow> bool" for srv where
  ready: "fds \<noteq> [] \<Longrightarrow> distinct fds \<Longrightarrow> set fds \<subseteq> polled n \<Longrightarrow> length fds \<le> 32 \<Longrightarrow>
    rbserver_step srv n (rbind (handle_broker_events srv n fds) (\<lambda>(cc, n'). Inr n'))"

inductive_cases rbserver_stepE: "rbserver_step srv n r"

section \<open>Reading the machine file\<close>

definition machine_line :: "string \<Rightarrow> bool" where
  "machine_line w \<longleftrightarrow> newline \<notin> set w \<and> NUL \<notin> set w \<and> length w < 63"

definition machine_entry :: "int \<Rightarrow> string \<Rightarrow> rb_machine" where
  "machine_entry t w = \<lparr>m_name = w, m_type = t, m_status = MACHINE_OFF\<rparr>"

lemma file_chunks_Nil [simp]: "file_chunks 64 [] = []"
  by (simp add: file_chunks.simps fgets_def)

lemma file_chunks_line: "machine_line w \<Longrightarrow> file_chunks 64 (w @ newline # rest) = (w @ [newline]) # file_chunks 64 rest"
proof -
  assume "machine_line w"
  then have "fgets 64 (w @ newline # rest) = Some (w @ [newline], rest)"
    by (simp add: fgets_def line_chunk_line machine_line_def)
  then show ?thesis by (simp add: file_chunks.simps [of 64 "w @ newline # rest"])
qed

lemma line_chunk_all: "newline \<notin> set w \<Longrightarrow> length w \<le> k \<Longrightarrow> line_chunk k w = (w, [])"
proof (induction w arbitrary: k)
  case Nil
  show ?case by (cases k) auto
next
  case (Cons c w)
  then show ?case by (cases k) auto
qed

lemma file_chunks_last: "machine_line w \<Longrightarrow> w \<noteq> [] \<Longrightarrow> file_chunks 64 w = [w]"
  by (simp add: file_chunks.simps [of 64 w] fgets_def line_chunk_all machine_line_def)

definition machine_lines :: "string list \<Rightarrow> string" where
  "machine_lines ws = concat (map (\<lambda>w. w @ [newline]) ws)"

lemma file_chunks_lines:
  "\<forall>w \<in> set ws. machine_line w \<Longrightarrow>
   file_chunks 64 (machine_lines ws @ rest) = map (\<lambda>w. w @ [newline]) ws @ file_chunks 64 rest"
  by (induction ws) (auto simp: machine_lines_def file_chunks_line)

lemma machines_of_append:
  "machines_of t (xs @ ys) = rbind (machines_of t xs) (\<lambda>ms. rbind (machines_of t ys) (\<lambda>ns. Inr (ms @ ns)))"
proof (induction xs)
  case Nil
  show ?case by (cases "machines_of t ys") auto
qed (simp add: rbind_assoc)

lemma machines_of_lines:
  "\<forall>w \<in> set ws. machine_line w \<Longrightarrow> machines_of t (map (\<lambda>w. w @ [newline]) ws) = Inr (map (machine_entry t) ws)"
  by (induction ws) (auto simp: machine_of_def machine_line_def machine_entry_def cstr_id)

lemma process_machine_file_lines:
  assumes "\<forall>w \<in> set ws. machine_line w" "int (length ws) \<le> INT_MAX" "fs nm = Some (machine_lines ws)"
  shows "process_machine_file fs nm srv =
    Inr (0, srv\<lparr>s_num_machines := int (length ws), s_m := map (machine_entry (s_type srv)) ws\<rparr>)"
  using file_chunks_lines [OF assms(1), of "[]"] machines_of_lines [OF assms(1)] assms(2,3)
  by (simp add: process_machine_file_def Let_def int_range_def INT_MIN_def)

lemma process_machine_file_unfinished:
  assumes "\<forall>w \<in> set ws. machine_line w" "machine_line w" "w \<noteq> []" "int (length ws) < INT_MAX"
    and "fs nm = Some (machine_lines ws @ w)"
  shows "process_machine_file fs nm srv =
    Inr (0, srv\<lparr>s_num_machines := int (length ws) + 1, s_m := map (machine_entry (s_type srv)) (ws @ [butlast w])\<rparr>)"
proof -
  have "machine_of (s_type srv) w = Inr (machine_entry (s_type srv) (butlast w))"
    using assms(2,3) by (simp add: machine_of_def cstr_id machine_line_def machine_entry_def)
  then show ?thesis
    using file_chunks_lines [OF assms(1), of w] machines_of_lines [OF assms(1)] assms(2-5)
    by (simp add: process_machine_file_def Let_def int_range_def INT_MIN_def file_chunks_last
        machines_of_append)
qed

section \<open>The conversation with the broker\<close>

lemma nio_client_init_ok:
  "connects a \<Longrightarrow> 0 \<le> an_epoll_ctl a \<Longrightarrow>
   nio_client_init n a = (an_socket a, n\<lparr>conns := (conns n)(an_socket a \<mapsto> an_conn a), polled := {an_socket a}\<rparr>)"
  by (simp add: connects_def nio_client_init_def nio_client_connect_def Let_def open_socket_def
      epoll_add_or_close_def epoll_create_def)

lemma registration_text_enc: "registration_text srv nm = enc_registration (s_type srv, nm, s_num_machines srv)"
  by (simp add: registration_text_def enc_registration_def)

lemma register_ok:
  assumes "connects a" "0 \<le> an_epoll_ctl a" "s_name srv = Some nm" "length (registration_text srv nm) < 64"
    and "accepts_msg (registration_text srv nm) (wx (an_conn a))"
    and "stream_bytes (rx (an_conn a)) = message pad BROKER_OK []"
  shows "\<exists>n' c'. register_with_broker n a srv = Inr (an_socket a, n') \<and> conns n' = (conns n)(an_socket a \<mapsto> c') \<and>
    polled n' = {an_socket a} \<and>
    tx c' = tx (an_conn a) @ message (hdr_pad n) BROKER_SERVER_REGISTER (registration_text srv nm)"
proof -
  let ?s = "an_socket a" and ?c = "an_conn a" and ?buf = "registration_text srv nm"
  let ?n1 = "n\<lparr>conns := (conns n)(?s \<mapsto> ?c), polled := {?s}\<rparr>"
  let ?c2 = "?c\<lparr>wx := after_msg ?buf (wx ?c), tx := tx ?c @ message (hdr_pad n) BROKER_SERVER_REGISTER ?buf\<rparr>"
  let ?n2 = "?n1\<lparr>conns := (conns ?n1)(?s \<mapsto> ?c2)\<rparr>"
  have "length ?buf < 2 ^ 64" using assms(4) by simp
  then have send: "send_msg ?n1 ?s BROKER_SERVER_REGISTER ?buf = Inr (0, ?n2)"
    using assms(5) by (subst send_msg_ok [where c = ?c]) simp_all
  have "stream_bytes (rx ?c2) = encode_header pad \<lparr>opcode = BROKER_OK, len = 0\<rparr> @ []"
    using assms(6) by (simp add: message_def)
  from read_header_ok [OF _ this, of ?n2 ?s] obtain es where
    "read_header ?n2 ?s = Inr (Some \<lparr>opcode = BROKER_OK, len = 0\<rparr>, ?n2\<lparr>conns := (conns ?n2)(?s \<mapsto> ?c2\<lparr>rx := es\<rparr>)\<rparr>)"
    by auto
  with send nio_client_init_ok [OF assms(1,2), of n] assms(3,4) show ?thesis
    by (intro exI [of _ "?n2\<lparr>conns := (conns ?n2)(?s \<mapsto> ?c2\<lparr>rx := es\<rparr>)\<rparr>"] exI [of _ "?c2\<lparr>rx := es\<rparr>"])
      (simp add: register_with_broker_def nio_epoll_add_def)
qed

lemma boot_resources_sends:
  assumes "length (s_m srv) = nat (s_num_machines srv)"
    and "length (machine_list_text (map m_name (take (boot_count srv hdr) (s_m srv)))) < 1024"
  shows "boot_resources srv n s hdr =
    send_msg n s SERVER_RESOURCES_OK (machine_list_text (map m_name (take (boot_count srv hdr) (s_m srv))))"
  using assms by (simp add: boot_resources_def Let_def boot_count_def)

lemma process_broker_request_end:
  assumes "conns n s = Some c" "length (stream_bytes (rx c)) < sizeof_header" "stream_ends (rx c)"
  shows "\<exists>n'. process_broker_request srv n s = Inr (-1, n') \<and> conns n' = (conns n)(s := None) \<and>
    polled n' = polled n - {s} \<and> bad_closes n' = bad_closes n"
proof -
  from net_readblock_short [OF assms] obtain es where
    "net_readblock n s sizeof_header = Inr (None, n\<lparr>conns := (conns n)(s \<mapsto> c\<lparr>rx := es\<rparr>)\<rparr>)" by blast
  then show ?thesis
    by (simp add: process_broker_request_def read_header_def sys_close_def nio_epoll_del_def)
qed

lemma boot_resources_same: "boot_resources srv n s hdr = Inr (r, n') \<Longrightarrow> same_sockets n n'"
  by (auto simp: boot_resources_def Let_def fault_simps split: if_splits dest: send_msg_same)

text \<open>One request keeps the epoll set within the open sockets, and closes only an open one.\<close>

lemma process_broker_request_keeps:
  assumes "process_broker_request srv n s = Inr (cc, n')" "net_wf n" "conns n s \<noteq> None"
  shows "net_wf n' \<and> bad_closes n' = bad_closes n \<and> polled n' \<subseteq> polled n \<and>
    dom (conns n) - {s} \<subseteq> dom (conns n')"
proof -
  from assms(1) obtain h n1 where h: "read_header n s = Inr (h, n1)" by (auto simp: process_broker_request_def fault_simps)
  note same = read_header_same [OF h]
  show ?thesis
  proof (cases h)
    case None
    have open_s: "conns n1 s \<noteq> None" using same assms(3) by (auto simp: same_sockets_def)
    have n': "n' = snd (nio_epoll_del (sys_close n1 s) s)"
      using assms(1) h None by (simp add: process_broker_request_def)
    have "net_wf n1" using net_wf_same [OF same assms(2)] .
    then have "net_wf n'" unfolding n' by (intro net_wf_del net_wf_close)
    moreover have "bad_closes n' = bad_closes n"
      using same bad_closes_close [OF open_s] by (simp add: n' same_sockets_def)
    moreover have "polled n' \<subseteq> polled n"
      using same polled_close [of n1 s] by (auto simp: n' same_sockets_def nio_epoll_del_def)
    moreover have "dom (conns n) - {s} \<subseteq> dom (conns n')"
      using same by (auto simp: n' same_sockets_def sys_close_def)
    ultimately show ?thesis by blast
  next
    case (Some hdr)
    have "same_sockets n1 n'"
      using assms(1) h Some
      by (auto simp: process_broker_request_def fault_simps shut_resources_def boot_resources_same split: if_splits)
    with same have "same_sockets n n'" by (rule same_sockets_trans)
    with assms(2) show ?thesis by (auto simp: same_sockets_def net_wf_def)
  qed
qed

lemma broker_events_fault: "ev \<noteq> [] \<Longrightarrow> handle_broker_events srv n ev = Inl Uninit_read"
  by (cases ev) (simp_all add: handle_broker_events_def event_request_def)

lemma register_polled:
  assumes "register_with_broker n a srv = Inr (s, n')" "\<not> s < 0"
  shows "s \<in> polled n'"
proof -
  obtain s0 n1 where i: "nio_client_init n a = (s0, n1)" by (cases "nio_client_init n a")
  from assms i obtain buf cc n2 h n3 where
    r: "send_msg n1 s0 BROKER_SERVER_REGISTER buf = Inr (cc, n2)" "read_header n2 s0 = Inr (Some h, n3)" "s = s0" "n' = snd (nio_epoll_add n3 s0)"
    by (auto simp: register_with_broker_def fault_simps split: if_split_asm option.split_asm)
  from i assms(2) r(3) have "s0 \<in> polled n1" by (auto simp: nio_client_init_def epoll_add_or_close_def Let_def split: prod.splits if_splits)
  with r send_msg_same [OF r(1)] read_header_same [OF r(2)] show ?thesis by (auto simp: same_sockets_def nio_epoll_add_def)
qed

text \<open>A server with two machines, for the witnesses.\<close>

definition demo_server :: rb_server where
  "demo_server = \<lparr>s_socket = 0, s_name = Some ''node7'', s_type = SERVER_TYPE_VM, s_num_machines = 2,
     s_m = [machine_entry 0 ''rocky9'', machine_entry 0 ''blaze'']\<rparr>"

section \<open>Properties\<close>

text \<open>A machine file of complete lines (each name at most 62 characters) gives exactly the machines
  it names, in order, all switched off and counted.\<close>

theorem machine_file_roundtrip:
  assumes "\<forall>w \<in> set ws. machine_line w" "int (length ws) \<le> INT_MAX" "fs nm = Some (machine_lines ws)"
  shows "\<exists>srv'. process_machine_file fs nm srv = Inr (0, srv') \<and> map m_name (s_m srv') = ws \<and>
    s_num_machines srv' = int (length (s_m srv')) \<and> (\<forall>m \<in> set (s_m srv'). m_status m = MACHINE_OFF)"
  using process_machine_file_lines [where fs = fs and nm = nm, OF assms] by (simp add: machine_entry_def comp_def)

theorem machine_file_roundtrip_witness:
  "\<exists>srv'. process_machine_file [''m'' \<mapsto> machine_lines [''rocky9'', ''blaze'']] ''m'' empty_server = Inr (0, srv') \<and>
    map m_name (s_m srv') = [''rocky9'', ''blaze'']"
  using machine_file_roundtrip [of "[''rocky9'', ''blaze'']" "[''m'' \<mapsto> machine_lines [''rocky9'', ''blaze'']]" "''m''" empty_server]
  by (auto simp: machine_line_def INT_MAX_def)

text \<open>The last character of every line that is read is cut without looking at it: when the last line
  of the machine file has no newline, its machine loses the last character of its name.\<close>

theorem machine_file_last_line:
  assumes "\<forall>w \<in> set ws. machine_line w" "machine_line w" "w \<noteq> []" "int (length ws) < INT_MAX"
    and "fs nm = Some (machine_lines ws @ w)"
  shows "\<exists>srv'. process_machine_file fs nm srv = Inr (0, srv') \<and> map m_name (s_m srv') = ws @ [butlast w]"
  using process_machine_file_unfinished [where fs = fs and nm = nm, OF assms] by (simp add: machine_entry_def comp_def)

theorem machine_file_last_line_witness:
  "\<exists>srv'. process_machine_file [''m'' \<mapsto> machine_lines [''rocky9''] @ ''rocky92''] ''m'' empty_server = Inr (0, srv') \<and>
    map m_name (s_m srv') = [''rocky9'', ''rocky9'']"
  using machine_file_last_line [of "[''rocky9'']" "''rocky92''" "[''m'' \<mapsto> machine_lines [''rocky9''] @ ''rocky92'']" "''m''" empty_server]
  by (auto simp: machine_line_def INT_MAX_def)

text \<open>The order of the options -m and -t matters: the machines take the type known when the file
  is read. With -t before -m the machines of a container server are containers; with -m before
  -t the server announces containers while its machines are recorded as virtual machines.\<close>

theorem machine_type_option_order:
  assumes "\<forall>w \<in> set ws. machine_line w" "int (length ws) \<le> INT_MAX" "fs nm = Some (machine_lines ws)"
  shows "(\<exists>st. option_loop fs [(CHR ''t'', Some ''container''), (CHR ''m'', Some nm)] opts0 = Inr (Some st) \<and>
      s_type (o_srv st) = SERVER_TYPE_CONTAINER \<and> (\<forall>m \<in> set (s_m (o_srv st)). m_type m = MACHINE_CONTAINERS)) \<and>
    (\<exists>st. option_loop fs [(CHR ''m'', Some nm), (CHR ''t'', Some ''container'')] opts0 = Inr (Some st) \<and>
      s_type (o_srv st) = SERVER_TYPE_CONTAINER \<and> (\<forall>m \<in> set (s_m (o_srv st)). m_type m = MACHINE_VMS))"
proof -
  have "\<not> strcaseeq ''container'' ''vm''" by code_simp
  then show ?thesis
    using process_machine_file_lines [where fs = fs and nm = nm, OF assms]
    by (simp add: option_step_def opts0_def empty_server_def machine_entry_def type_defs)
qed

theorem machine_type_option_order_witness:
  "\<exists>st. option_loop [''f'' \<mapsto> machine_lines [''c1'']] [(CHR ''m'', Some ''f''), (CHR ''t'', Some ''container'')] opts0 =
    Inr (Some st) \<and> s_type (o_srv st) = SERVER_TYPE_CONTAINER \<and> (\<forall>m \<in> set (s_m (o_srv st)). m_type m = MACHINE_VMS)"
  using machine_type_option_order [of "[''c1'']" "[''f'' \<mapsto> machine_lines [''c1'']]" "''f''"]
  by (auto simp: machine_line_def INT_MAX_def)

text \<open>C38. The server cannot answer its broker. A server that has registered waits on the connection to the broker, so its loop has
  a turn as soon as the broker sends something or goes away; and every turn, whatever it reports, reads the index of the
  event from a variable that has just been declared and never written. No turn ends in another state.\<close>

theorem server_first_turn_faults:
  assumes "rbserver_start fs opts n a = Inr (Some (srv, n1))"
  shows "s_socket srv \<in> polled n1 \<and> (\<exists>r. rbserver_step srv n1 r) \<and> (\<forall>r. rbserver_step srv n1 r \<longrightarrow> r = Inl Uninit_read)"
proof -
  have s: "s_socket srv \<in> polled n1" using assms register_polled by (auto simp: rbserver_start_def fault_simps split: option.splits if_splits)
  from rbserver_step.ready [of "[s_socket srv]" n1 srv] s have "\<exists>r. rbserver_step srv n1 r" by auto
  with s show ?thesis by (auto elim!: rbserver_stepE simp: broker_events_fault)
qed

theorem server_first_turn_faults_witness:
  "\<exists>srv n1. rbserver_start Map.empty [(CHR ''n'', Some ''node7''), (CHR ''s'', Some ''h@1'')] (demo_net [] [NUL])
      (demo_answers [Data (message [] BROKER_OK [])]) = Inr (Some (srv, n1)) \<and> s_socket srv = 7 \<and> rbserver_step srv n1 (Inl Uninit_read)"
proof -
  let ?a = "demo_answers [Data (message [] BROKER_OK [])]" and ?srv = "empty_server\<lparr>s_name := Some ''node7''\<rparr>"
  have t: "registration_text ?srv ''node7'' = ''0 node7 0''" by code_simp
  have "connects ?a" "0 \<le> an_epoll_ctl ?a" "s_name ?srv = Some ''node7''" "length (registration_text ?srv ''node7'') < 64"
    "accepts_msg (registration_text ?srv ''node7'') (wx (an_conn ?a))" "stream_bytes (rx (an_conn ?a)) = message [] BROKER_OK []"
    unfolding t by (simp_all add: demo_simps(6) demo_accepts) (simp_all add: demo_answers_def)
  from register_ok [OF this, of "demo_net [] [NUL]"] obtain n1 where "register_with_broker (demo_net [] [NUL]) ?a ?srv = Inr (an_socket ?a, n1)" by blast
  moreover have "get_daemon_id (Some ''h@1'') = Inr \<lparr>ip = ''h'', id_port = 1\<rparr>" by code_simp
  ultimately have st: "rbserver_start Map.empty [(CHR ''n'', Some ''node7''), (CHR ''s'', Some ''h@1'')] (demo_net [] [NUL]) ?a = Inr (Some (?srv\<lparr>s_socket := 7\<rparr>, n1))"
    by (simp add: rbserver_start_def option_step_def opts0_def empty_server_def demo_answers_def initialised_def)
  from server_first_turn_faults [OF st] obtain r where "rbserver_step (?srv\<lparr>s_socket := 7\<rparr>) n1 r" "r = Inl Uninit_read" by blast
  with st show ?thesis by (intro exI [of _ "?srv\<lparr>s_socket := 7\<rparr>"] exI [of _ n1]) simp
qed

end
