(* ===== verification/Resources.thy ===== *)
theory Resources
  imports RbServer
begin

text \<open>
  The request of resources, \<open>src/daemon/resources.c\<close>: how many machines each queue needs, and the
  exchange with the first registered server. The simulation reads the number of pending jobs from a
  file named like the queue; the file system is a function from names to contents.
\<close>

section \<open>Pending jobs and machines needed\<close>

text \<open>A file that does not start with a number leaves \<open>jobs\<close> unwritten.\<close>

definition get_pend_jobs_sim :: "(string \<Rightarrow> string option) \<Rightarrow> string \<Rightarrow> int res" where
  "get_pend_jobs_sim fs name =
     (case fs name of
        None \<Rightarrow> Inr (-1)
      | Some content \<Rightarrow>
          (case scan_d content of None \<Rightarrow> Inl Uninit_read | Some (j, _) \<Rightarrow> c_int j))"

definition get_num_machines :: "queue \<Rightarrow> int res" where
  "get_num_machines q =
     rbind (c_div (num_pend_jobs q) (borrow_factor0 q)) (\<lambda>nmach.
       if nmach = 0 then Inr 0
       else rbind (c_int (nmach * borrow_factor1 q)) (\<lambda>num.
         if num \<le> int (length (machines q)) then Inr 0
         else c_int (num - int (length (machines q)))))"

section \<open>The exchange with a server\<close>

text \<open>
  The loop over the names: \<open>sscanf(buf, "%s%n", machine, &nbytes)\<close> at the current place in memory. A
  conversion that fails leaves \<open>machine\<close> and \<open>nbytes\<close> as they were, and the pointer still moves by
  \<open>nbytes\<close>. The result is the names that are logged.
\<close>

fun parse_names :: "nat \<Rightarrow> char list \<Rightarrow> string option \<Rightarrow> nat \<Rightarrow> string list res" where
  "parse_names 0 mem machine nbytes = Inr []"
| "parse_names (Suc i) mem machine nbytes =
     rbind (c_text mem) (\<lambda>t.
     rbind (case scan_s t of
              None \<Rightarrow> Inr (machine, nbytes)
            | Some (w, r) \<Rightarrow> rbind (sprintf_buf MAXHOSTNAMELEN w) (\<lambda>w. Inr (Some w, length t - length r)))
       (\<lambda>(machine', nbytes').
          if length mem < nbytes' then Inl Over_read
          else rbind (initialised machine') (\<lambda>m.
            rbind (parse_names i (drop nbytes' mem) machine' nbytes') (\<lambda>ms. Inr (m # ms)))))"

definition parse_machines :: "char list \<Rightarrow> string list res" where
  "parse_machines mem =
     rbind (c_text mem) (\<lambda>t.
       case scan_d t of
         None \<Rightarrow> Inl Uninit_read
       | Some (nsend, r) \<Rightarrow> rbind (c_int nsend) (\<lambda>nsend.
           let nbytes = length t - length r
           in parse_names (nat nsend) (drop nbytes mem) None nbytes))"

text \<open>\<open>get_server_resources\<close>: the result, and the names that arrived.\<close>

definition get_server_resources :: "broker \<Rightarrow> net \<Rightarrow> int \<Rightarrow> ((int \<times> string list) \<times> net) res" where
  "get_server_resources b n num =
     (case servers b of
        [] \<Rightarrow> Inl Uninit_read
      | s # _ \<Rightarrow>
          rbind (net_writeblock n (srv_socket s)
                   (encode_header (hdr_pad n) \<lparr>opcode = SERVER_BOOT_RESOURCES, len = of_int num\<rparr>)) (\<lambda>(cc, n1).
            if cc < 0 then Inr ((-1, []), n1)
            else rbind (read_header n1 (srv_socket s)) (\<lambda>(h, n2).
              case h of
                None \<Rightarrow> Inr ((-1, []), n2)
              | Some hdr2 \<Rightarrow>
                  rbind (net_readblock n2 (srv_socket s) (unat (len hdr2))) (\<lambda>(r, n3).
                    case r of
                      None \<Rightarrow> Inr ((-1, []), n3)
                    | Some buf \<Rightarrow> rbind (parse_machines (buf @ junk n3)) (\<lambda>ms. Inr ((0, ms), n3))))))"

section \<open>The queues\<close>

definition run_simulator :: "(string \<Rightarrow> string option) \<Rightarrow> broker \<Rightarrow> net \<Rightarrow> nat \<Rightarrow> (int \<times> broker \<times> net) res" where
  "run_simulator fs b n i =
     (let q = queues b ! i in
      rbind (get_pend_jobs_sim fs (q_name q)) (\<lambda>pend_jobs.
        if pend_jobs < 0 then Inr (-1, b, n)
        else
          (let q' = q\<lparr>num_pend_jobs := pend_jobs\<rparr>; b' = b\<lparr>queues := (queues b)[i := q']\<rparr>
           in rbind (get_num_machines q') (\<lambda>nmach.
                if nmach = 0 then Inr (0, b', n)
                else rbind (get_server_resources b' n nmach) (\<lambda>(r, n'). Inr (0, b', n'))))))"

fun workload_loop :: "(string \<Rightarrow> string option) \<Rightarrow> broker \<Rightarrow> net \<Rightarrow> nat list \<Rightarrow> (broker \<times> net) res" where
  "workload_loop fs b n [] = Inr (b, n)"
| "workload_loop fs b n (i # is) =
     (if simulate b then rbind (run_simulator fs b n i) (\<lambda>(r, b', n'). workload_loop fs b' n' is)
      else workload_loop fs b n is)"

definition check_queue_workload :: "(string \<Rightarrow> string option) \<Rightarrow> broker \<Rightarrow> net \<Rightarrow> (broker \<times> net) res" where
  "check_queue_workload fs b n =
     (if servers b = [] then Inr (b, n)
      else workload_loop fs b n [0..<length (queues b)])"

section \<open>The list of machines on the wire\<close>

definition names_ok :: "string list \<Rightarrow> bool" where
  "names_ok ws \<longleftrightarrow> (\<forall>w \<in> set ws. is_word w \<and> NUL \<notin> set w \<and> length w < MAXHOSTNAMELEN) \<and>
     length (machine_list_text ws) < 1024"

definition name_stops :: "char list \<Rightarrow> bool" where
  "name_stops mem \<longleftrightarrow> NUL \<in> set mem \<and> space_first (cstr mem)"

definition blank_names :: "string list \<Rightarrow> string" where
  "blank_names ws = concat (map (\<lambda>m. '' '' @ m) ws)"

lemma length_blank_names: "length ws \<le> length (blank_names ws)"
  by (induction ws) (auto simp: blank_names_def)

lemma names_ok_count:
  assumes "names_ok ws"
  shows "length ws < 1024"
proof -
  have "length (blank_names ws) < 1024"
    using assms by (simp add: names_ok_def machine_list_text_def blank_names_def)
  with length_blank_names [of ws] show ?thesis by linarith
qed

lemma blank_names_space_first: "space_first rest \<Longrightarrow> space_first (blank_names ws @ rest)"
  by (cases ws) (auto simp: blank_names_def)

lemma blank_names_no_NUL: "\<forall>w \<in> set ws. NUL \<notin> set w \<Longrightarrow> NUL \<notin> set (blank_names ws)"
  by (auto simp: blank_names_def)

lemma c_text_word_list:
  "\<forall>w \<in> set ws. NUL \<notin> set w \<Longrightarrow> NUL \<in> set behind \<Longrightarrow>
   c_text (blank_names ws @ behind) = Inr (blank_names ws @ cstr behind)"
  by (simp add: c_text_def cstr_append blank_names_no_NUL)

text \<open>The loop reads the words back one after the other.\<close>

lemma parse_names_words:
  "\<forall>w \<in> set ws. is_word w \<and> NUL \<notin> set w \<and> length w < MAXHOSTNAMELEN \<Longrightarrow> name_stops behind \<Longrightarrow>
   parse_names (length ws) (blank_names ws @ behind) machine nbytes = Inr ws"
proof (induction ws arbitrary: machine nbytes)
  case (Cons w ws)
  let ?rest = "blank_names ws @ cstr behind"
  have w: "is_word w" "length w < MAXHOSTNAMELEN" "NUL \<in> set behind" "space_first (cstr behind)"
    using Cons.prems by (auto simp: name_stops_def)
  have mem: "blank_names (w # ws) @ behind = CHR '' '' # w @ blank_names ws @ behind"
    by (simp add: blank_names_def)
  have t: "c_text (CHR '' '' # w @ blank_names ws @ behind) = Inr (CHR '' '' # w @ ?rest)"
    using c_text_word_list [of "w # ws" behind] Cons.prems(1) w(3) by (simp add: blank_names_def)
  have s: "scan_s (CHR '' '' # w @ ?rest) = Some (w, ?rest)"
    using scan_s_word [OF w(1) blank_names_space_first [OF w(4)], of ws] by simp
  have "parse_names (length ws) (blank_names ws @ behind) (Some w) (Suc (length w)) = Inr ws"
    using Cons.prems by (intro Cons.IH) auto
  then show ?case unfolding mem using t s w(2) by simp
qed simp

text \<open>One more blank in front of the first name changes nothing.\<close>

lemma parse_names_blank:
  assumes "\<forall>w \<in> set ws. is_word w \<and> NUL \<notin> set w \<and> length w < MAXHOSTNAMELEN" "name_stops behind"
  shows "parse_names (length ws) (CHR '' '' # blank_names ws @ behind) machine nbytes = Inr ws"
proof (cases ws)
  case (Cons w ws')
  let ?rest = "blank_names ws' @ cstr behind"
  have w: "is_word w" "length w < MAXHOSTNAMELEN" "NUL \<in> set behind" "space_first (cstr behind)"
    using assms Cons by (auto simp: name_stops_def)
  have mem: "blank_names ws @ behind = CHR '' '' # w @ blank_names ws' @ behind"
    by (simp add: blank_names_def Cons)
  have t: "c_text (CHR '' '' # CHR '' '' # w @ blank_names ws' @ behind) = Inr (CHR '' '' # CHR '' '' # w @ ?rest)"
    using c_text_word_list [of "[] # w # ws'" behind] assms(1) w(3) by (simp add: blank_names_def Cons)
  have s: "scan_s (CHR '' '' # CHR '' '' # w @ ?rest) = Some (w, ?rest)"
    using scan_s_word [OF w(1) blank_names_space_first [OF w(4)], of ws'] by simp
  have "parse_names (length ws') (blank_names ws' @ behind) (Some w) (Suc (Suc (length w))) = Inr ws'"
    using assms Cons by (intro parse_names_words) auto
  then show ?thesis unfolding mem using t s w(2) by (simp add: Cons)
qed simp

lemma parse_machines_text:
  assumes "names_ok ws" "name_stops behind"
  shows "parse_machines (machine_list_text ws @ behind) = Inr ws"
proof -
  let ?num = "fmt_d (int (length ws))"
  have ws: "\<forall>w \<in> set ws. is_word w \<and> NUL \<notin> set w \<and> length w < MAXHOSTNAMELEN"
    using assms(1) by (simp add: names_ok_def)
  have enc: "machine_list_text ws = ?num @ '' '' @ blank_names ws"
    by (simp add: machine_list_text_def blank_names_def)
  have "NUL \<notin> set (machine_list_text ws)"
    using ws printed_no_NUL(3) by (auto simp: enc blank_names_def)
  then have t: "c_text (machine_list_text ws @ behind) = Inr (?num @ '' '' @ blank_names ws @ cstr behind)"
    using assms(2) by (simp add: c_text_def cstr_append cstr_Cons name_stops_def enc)
  have d: "scan_d (?num @ '' '' @ blank_names ws @ cstr behind) = Some (int (length ws), '' '' @ blank_names ws @ cstr behind)"
    by (rule scan_d_fmt_d) (simp add: isdigit_def)
  have "int_range (int (length ws))" using names_ok_count [OF assms(1)] by (simp add: int_range_simps)
  then show ?thesis
    using t d parse_names_blank [OF ws assms(2)] by (simp add: parse_machines_def enc Let_def)
qed

interpretation machine_fmt: message_format machine_list_text parse_machines id names_ok name_stops
proof
  show "names_ok ws \<Longrightarrow> name_stops behind \<Longrightarrow> parse_machines (machine_list_text ws @ behind) = Inr (id ws)" for ws behind
    using parse_machines_text by simp
  show "names_ok ws \<Longrightarrow> length (machine_list_text ws) < 2 ^ 64" for ws by (simp add: names_ok_def)
qed

section \<open>Both sides of a request\<close>

lemma get_server_resources_ok:
  assumes "servers b = s # ss" "conns n (srv_socket s) = Some c" "takes_all sizeof_header (wx c)"
    and "names_ok ws" "name_stops (junk n)" "stream_bytes (rx c) = message pad op (machine_list_text ws)"
  shows "\<exists>n' c'. get_server_resources b n num = Inr ((0, ws), n') \<and> conns n' = (conns n)(srv_socket s \<mapsto> c') \<and>
    tx c' = tx c @ encode_header (hdr_pad n) \<lparr>opcode = SERVER_BOOT_RESOURCES, len = of_int num\<rparr>"
proof -
  let ?s = "srv_socket s" and ?req = "encode_header (hdr_pad n) \<lparr>opcode = SERVER_BOOT_RESOURCES, len = of_int num\<rparr>"
  let ?c1 = "c\<lparr>wx := after_write (wx c), tx := tx c @ ?req\<rparr>" let ?n1 = "n\<lparr>conns := (conns n)(?s \<mapsto> ?c1)\<rparr>"
  have w: "net_writeblock n ?s ?req = Inr (int sizeof_header, ?n1)"
    by (rule send_header_ok [OF assms(2,3)])
  have recv: "conns ?n1 ?s = Some ?c1" "stream_bytes (rx ?c1) = message pad op (machine_list_text ws) @ []"
    using assms(6) by simp_all
  from recv_msg_ok [OF this machine_fmt.enc_short [OF assms(4)]] obtain es where
    "recv_msg ?n1 ?s = Inr (Some (\<lparr>opcode = op, len = of_nat (length (machine_list_text ws))\<rparr>, machine_list_text ws),
      ?n1\<lparr>conns := (conns ?n1)(?s \<mapsto> ?c1\<lparr>rx := es\<rparr>)\<rparr>)" by blast
  then obtain hdr n2 where h: "read_header ?n1 ?s = Inr (Some hdr, n2)"
    "net_readblock n2 ?s (unat (len hdr)) = Inr (Some (machine_list_text ws), n\<lparr>conns := (conns n)(?s \<mapsto> ?c1\<lparr>rx := es\<rparr>)\<rparr>)"
    by (auto simp: recv_msg_def fault_simps split: option.splits)
  have "parse_machines (machine_list_text ws @ junk n) = Inr ws" using machine_fmt.dec_enc [OF assms(4,5)] by simp
  with w h assms(1) show ?thesis
    by (intro exI [of _ "n\<lparr>conns := (conns n)(?s \<mapsto> ?c1\<lparr>rx := es\<rparr>)\<rparr>"] exI [of _ "?c1\<lparr>rx := es\<rparr>"])
      (simp add: get_server_resources_def)
qed

lemma process_boot_request:
  assumes "conns m t = Some c" "stream_bytes (rx c) = encode_header pad \<lparr>opcode = SERVER_BOOT_RESOURCES, len = l\<rparr> @ rest"
    and "length (s_m d) = nat (s_num_machines d)"
    and "ws = take (min (unat l) (length (s_m d))) (map m_name (s_m d))" "names_ok ws"
    and "accepts_msg (machine_list_text ws) (wx c)"
  shows "\<exists>m' c'. process_broker_request d m t = Inr (0, m') \<and> conns m' = (conns m)(t \<mapsto> c') \<and>
    tx c' = tx c @ message (hdr_pad m) SERVER_RESOURCES_OK (machine_list_text ws)"
proof -
  let ?h = "\<lparr>opcode = SERVER_BOOT_RESOURCES, len = l\<rparr> :: rb_header"
  from read_header_ok [OF assms(1,2)] obtain es where
    h: "read_header m t = Inr (Some ?h, m\<lparr>conns := (conns m)(t \<mapsto> c\<lparr>rx := es\<rparr>)\<rparr>)" by blast
  let ?m = "m\<lparr>conns := (conns m)(t \<mapsto> c\<lparr>rx := es\<rparr>)\<rparr>"
  have ws: "map m_name (take (boot_count d ?h) (s_m d)) = ws"
    using assms(3,4) by (simp add: boot_count_def take_map min.commute)
  let ?c = "(c\<lparr>rx := es\<rparr>)\<lparr>wx := after_msg (machine_list_text ws) (wx c),
      tx := tx c @ message (hdr_pad m) SERVER_RESOURCES_OK (machine_list_text ws)\<rparr>"
  have "boot_resources d ?m t ?h = send_msg ?m t SERVER_RESOURCES_OK (machine_list_text ws)"
    using boot_resources_sends [OF assms(3), of ?h ?m t] assms(5) by (simp add: ws names_ok_def)
  also have "\<dots> = Inr (0, ?m\<lparr>conns := (conns ?m)(t \<mapsto> ?c)\<rparr>)"
    using assms(6) by (subst send_msg_ok [where c = "c\<lparr>rx := es\<rparr>", OF _ _ machine_fmt.enc_short [OF assms(5)]]) simp_all
  finally show ?thesis
    using h by (intro exI [of _ "m\<lparr>conns := (conns m)(t \<mapsto> ?c)\<rparr>"] exI [of _ ?c])
      (simp add: process_broker_request_def)
qed

section \<open>What a round changes\<close>

text \<open>The parts of the queues that no round touches.\<close>

definition same_queues :: "broker \<Rightarrow> broker \<Rightarrow> bool" where
  "same_queues b b' \<longleftrightarrow> map (\<lambda>q. q\<lparr>num_pend_jobs := 0\<rparr>) (queues b') = map (\<lambda>q. q\<lparr>num_pend_jobs := 0\<rparr>) (queues b) \<and>
     servers b' = servers b \<and> params b' = params b \<and> res b' = res b \<and> simulate b' = simulate b"

lemma same_queues_refl: "same_queues b b"
  by (simp add: same_queues_def)

lemma same_queues_trans: "same_queues b b' \<Longrightarrow> same_queues b' b'' \<Longrightarrow> same_queues b b''"
  by (simp add: same_queues_def)

lemma same_queues_length: "same_queues b b' \<Longrightarrow> length (queues b') = length (queues b)"
  unfolding same_queues_def by (metis length_map)

lemma net_exchange_same: "get_server_resources b n num = Inr (r, n') \<Longrightarrow> same_sockets n n'"
  by (auto simp: get_server_resources_def fault_simps split: list.splits option.splits if_splits
      dest!: net_writeblock_same read_header_same net_readblock_same
      intro: same_sockets_trans same_sockets_trans [OF same_sockets_trans])

lemma run_simulator_same:
  assumes "run_simulator fs b n i = Inr (r, b', n')" "i < length (queues b)"
  shows "same_queues b b' \<and> same_sockets n n'"
proof -
  let ?q = "\<lambda>p. (queues b ! i)\<lparr>num_pend_jobs := p\<rparr>"
  have upd: "same_queues b (b\<lparr>queues := (queues b)[i := ?q p]\<rparr>)" for p
    using assms(2) by (simp add: same_queues_def map_update list_update_same_conv)
  from assms(1) obtain p where p: "get_pend_jobs_sim fs (q_name (queues b ! i)) = Inr p"
    by (auto simp: run_simulator_def fault_simps Let_def)
  show ?thesis
  proof (cases "p < 0")
    case True
    with assms(1) p show ?thesis by (simp add: run_simulator_def same_queues_refl)
  next
    case False
    then show ?thesis
      using assms(1) p upd [of p]
      by (auto simp: run_simulator_def Let_def fault_simps split: if_splits dest: net_exchange_same)
  qed
qed

lemma workload_loop_same:
  "workload_loop fs b n is = Inr (b', n') \<Longrightarrow> \<forall>i \<in> set is. i < length (queues b) \<Longrightarrow>
   same_queues b b' \<and> same_sockets n n'"
proof (induction "is" arbitrary: b n)
  case Nil
  then show ?case by (simp add: same_queues_refl)
next
  case (Cons i "is")
  show ?case
  proof (cases "simulate b")
    case False
    with Cons show ?thesis by simp
  next
    case True
    with Cons.prems(1) obtain r b1 n1 where step: "run_simulator fs b n i = Inr (r, b1, n1)"
      and rest: "workload_loop fs b1 n1 is = Inr (b', n')" by (auto simp: fault_simps)
    from run_simulator_same [OF step] Cons.prems(2) have same: "same_queues b b1" "same_sockets n n1" by auto
    have "\<forall>i \<in> set is. i < length (queues b1)" using Cons.prems(2) same_queues_length [OF same(1)] by simp
    from Cons.IH [OF rest this] same show ?thesis
      using same_queues_trans same_sockets_trans by blast
  qed
qed

lemma check_queue_workload_same:
  "check_queue_workload fs b n = Inr (b', n') \<Longrightarrow> same_queues b b' \<and> same_sockets n n'"
  by (auto simp: check_queue_workload_def same_queues_refl split: if_splits dest!: workload_loop_same)

lemma scan_pend_jobs: "int_range j \<Longrightarrow> get_pend_jobs_sim [nm \<mapsto> fmt_d j @ [newline]] nm = Inr j"
  using scan_d_fmt_d [of "[newline]" j] by (simp add: get_pend_jobs_sim_def isdigit_def)

section \<open>Properties\<close>

text \<open>C35. The number of machines a queue needs: for every full \<open>borrow_factor[0]\<close> of pending jobs it adds
  \<open>borrow_factor[1]\<close>, less the machines it has, and never less than none; with the second factor 0
  (what the shipped configuration's \<open>10,2\<close> is read as) the answer is always none, and with the
  first factor 0 the daemon divides by zero.\<close>

theorem get_num_machines_correct:
  "(0 \<le> num_pend_jobs q \<longrightarrow> int_range (num_pend_jobs q) \<longrightarrow> 0 < borrow_factor0 q \<longrightarrow> 0 \<le> borrow_factor1 q \<longrightarrow>
     int_range (num_pend_jobs q div borrow_factor0 q * borrow_factor1 q) \<longrightarrow>
     get_num_machines q = Inr (max 0 (num_pend_jobs q div borrow_factor0 q * borrow_factor1 q - int (length (machines q))))) \<and>
   (0 \<le> num_pend_jobs q \<longrightarrow> int_range (num_pend_jobs q) \<longrightarrow> 0 < borrow_factor0 q \<longrightarrow> borrow_factor1 q = 0 \<longrightarrow>
     get_num_machines q = Inr 0) \<and>
   (borrow_factor0 q = 0 \<longrightarrow> get_num_machines q = Inl Div_by_zero)"
proof (intro conjI impI)
  assume a: "0 \<le> num_pend_jobs q" "int_range (num_pend_jobs q)" "0 < borrow_factor0 q" "0 \<le> borrow_factor1 q"
    "int_range (num_pend_jobs q div borrow_factor0 q * borrow_factor1 q)"
  let ?num = "num_pend_jobs q div borrow_factor0 q * borrow_factor1 q" and ?have = "int (length (machines q))"
  have "?num \<le> ?have \<or> int_range (?num - ?have)" using a(5) by (auto simp: int_range_simps)
  with a show "get_num_machines q = Inr (max 0 (?num - ?have))"
    by (auto simp: get_num_machines_def c_div_pos)
next
  assume a: "0 \<le> num_pend_jobs q" "int_range (num_pend_jobs q)" "0 < borrow_factor0 q" "borrow_factor1 q = 0"
  then show "get_num_machines q = Inr 0"
    by (auto simp: get_num_machines_def c_div_pos int_range_simps)
qed (simp add: get_num_machines_def)

theorem get_num_machines_correct_witness:
  "get_num_machines ((new_queue ''q'')\<lparr>borrow_factor0 := 10, borrow_factor1 := 2, num_pend_jobs := 35\<rparr>) = Inr 6 \<and>
   get_num_machines ((new_queue ''q'')\<lparr>borrow_factor0 := 10, num_pend_jobs := 35\<rparr>) = Inr 0 \<and>
   get_num_machines (new_queue ''q'') = Inl Div_by_zero"
  using get_num_machines_correct [of "(new_queue ''q'')\<lparr>borrow_factor0 := 10, borrow_factor1 := 2, num_pend_jobs := 35\<rparr>"]
    get_num_machines_correct [of "(new_queue ''q'')\<lparr>borrow_factor0 := 10, num_pend_jobs := 35\<rparr>"]
    get_num_machines_correct [of "new_queue ''q''"]
  by (simp add: new_queue_def int_range_simps)

text \<open>A queue section without \<open>borrow_factor\<close> stops the daemon: in simulation mode, with a server
  registered and a job file for the first queue, the first round divides by zero.\<close>

theorem unset_factor_divides_by_zero:
  assumes "queues b = q # qs" "borrow_factor0 q = 0" "servers b \<noteq> []" "simulate b"
    and "get_pend_jobs_sim fs (q_name q) = Inr j" "0 \<le> j"
  shows "check_queue_workload fs b n = Inl Div_by_zero"
proof -
  have "get_num_machines (q\<lparr>num_pend_jobs := j\<rparr>) = Inl Div_by_zero"
    using assms(2) by (simp add: get_num_machines_def)
  then have "run_simulator fs b n 0 = Inl Div_by_zero"
    using assms(1,5,6) by (simp add: run_simulator_def)
  then show ?thesis
    using assms(1,3,4) by (simp add: check_queue_workload_def upt_conv_Cons del: upt_Suc)
qed

theorem unset_factor_divides_by_zero_witness:
  "check_queue_workload [''q'' \<mapsto> fmt_d 12 @ [newline]]
     ((init_main_data 0 True)\<lparr>queues := [new_queue ''q''], servers := [registered 5 ''node7'' 2]\<rparr>) (demo_net [] []) =
   Inl Div_by_zero"
  by (rule unset_factor_divides_by_zero [where q = "new_queue ''q''" and qs = "[]" and j = 12])
    (simp_all add: new_queue_def init_main_data_def scan_pend_jobs int_range_simps)

text \<open>The broker never remembers what it borrowed: a round of the workload check changes nothing but
  the numbers of pending jobs (in particular not the queues' machines, so the next round asks for the
  same machines again), and it opens and closes no connection.\<close>

theorem workload_never_records_machines:
  assumes "check_queue_workload fs b n = Inr (b', n')"
  shows "map machines (queues b') = map machines (queues b) \<and> map q_name (queues b') = map q_name (queues b) \<and>
    map q_status (queues b') = map q_status (queues b) \<and> servers b' = servers b \<and> same_sockets n n'"
proof -
  from check_queue_workload_same [OF assms] have same: "same_sockets n n'" "servers b' = servers b"
    and q: "map (\<lambda>q. q\<lparr>num_pend_jobs := 0\<rparr>) (queues b') = map (\<lambda>q. q\<lparr>num_pend_jobs := 0\<rparr>) (queues b)"
    by (auto simp: same_queues_def)
  show ?thesis
    using same arg_cong [OF q, of "map machines"] arg_cong [OF q, of "map q_name"] arg_cong [OF q, of "map q_status"]
    by (simp add: comp_def)
qed

theorem workload_never_records_machines_witness:
  "\<exists>b' n'. check_queue_workload Map.empty
      ((init_main_data 0 True)\<lparr>queues := [new_queue ''q''], servers := [registered 5 ''node7'' 2]\<rparr>) (demo_net [] []) =
    Inr (b', n') \<and> map machines (queues b') = [[]]"
proof -
  let ?b = "(init_main_data 0 True)\<lparr>queues := [new_queue ''q''], servers := [registered 5 ''node7'' 2]\<rparr>"
  have r: "check_queue_workload Map.empty ?b (demo_net [] []) = Inr (?b, demo_net [] [])"
    by (simp add: check_queue_workload_def run_simulator_def get_pend_jobs_sim_def init_main_data_def)
  from workload_never_records_machines [OF r] r show ?thesis by (auto simp: new_queue_def)
qed

end
