(* ===== verification/Resbd.thy ===== *)
theory Resbd
  imports Resources
begin

text \<open>
  The broker daemon, \<open>src/daemon/resbd.c\<close>: one request of a client, one batch of epoll events, the
  periodic check, and the main loop as a step relation. What the kernel and the clock answer are
  arguments: the descriptor and connection of \<open>accept\<close>, the process id, the load averages, the time.
\<close>

section \<open>Starting\<close>

definition open_log :: "broker \<Rightarrow> broker \<times> log_level" where
  "open_log b =
     (let m = (case log_mask (params b) of None \<Rightarrow> ''LOG_INFO'' | Some m \<Rightarrow> m)
      in (b\<lparr>params := (params b)\<lparr>log_mask := Some m\<rparr>\<rparr>, log_mask_of m))"

text \<open>The lines \<open>dump_config\<close> logs, one for each queue.\<close>

definition dump_config :: "broker \<Rightarrow> (string \<times> queue_stat_t \<times> string option \<times> int \<times> int) list" where
  "dump_config b =
     map (\<lambda>q. (q_name q, q_status q, name_space q, borrow_factor0 q, borrow_factor1 q)) (queues b)"

record daemon =
  d_broker :: broker
  d_net :: net
  d_last :: int

text \<open>\<open>main\<close> up to its loop; the results of \<open>read_config\<close> and of \<open>nio_server_init\<close> are not tested.\<close>

definition resbd_start :: "string option \<Rightarrow> int \<Rightarrow> bool \<Rightarrow> net \<Rightarrow> sock_answers \<Rightarrow> daemon res" where
  "resbd_start cfile now sim n a =
     rbind (read_config cfile (init_main_data now sim)) (\<lambda>(r, b).
       let (b1, lm) = open_log b; (s, n1) = nio_server_init n a
       in Inr \<lparr>d_broker = b1\<lparr>res := (res b1)\<lparr>sock := s\<rparr>\<rparr>, d_net = n1, d_last = 0\<rparr>)"

section \<open>One connection\<close>

record kernel =
  k_accept :: "net \<Rightarrow> (int \<times> conn) option"
  k_pid :: int
  k_load :: "nat \<times> nat \<times> nat"

definition drop_conn :: "net \<Rightarrow> int \<Rightarrow> net" where
  "drop_conn n s = sys_close (snd (nio_epoll_del n s)) s"

text \<open>
  \<open>handle_connection\<close>. A registration is dropped only if \<open>server_register\<close> returns a positive
  number; an unknown request leaves the connection as it is.
\<close>

definition handle_connection :: "kernel \<Rightarrow> broker \<Rightarrow> net \<Rightarrow> int \<Rightarrow> (broker \<times> net) res" where
  "handle_connection k b n s =
     rbind (read_header n s) (\<lambda>(h, n1).
       case h of
         None \<Rightarrow> Inr (b, drop_conn n1 s)
       | Some hdr \<Rightarrow>
           if opcode hdr = BROKER_STATUS then
             rbind (status_info b (k_pid k) (k_load k) n1 s) (\<lambda>(cc, n2). Inr (b, drop_conn n2 s))
           else if opcode hdr = BROKER_PARAMS then
             rbind (params_info b n1 s) (\<lambda>(cc, n2). Inr (b, drop_conn n2 s))
           else if opcode hdr = BROKER_QUEUE_STATUS then
             rbind (queue_info n1 s) (\<lambda>(cc, n2). Inr (b, drop_conn n2 s))
           else if opcode hdr = BROKER_SERVER_REGISTER then
             rbind (server_register b n1 s hdr) (\<lambda>(cc, b2, n2).
               Inr (b2, if 0 < cc then drop_conn n2 s else n2))
           else Inr (b, n1))"

section \<open>A batch of events\<close>

record event =
  ev_fd :: int
  ev_error :: bool
  ev_in :: bool

text \<open>\<open>handle_events\<close>: a failing \<open>accept\<close> ends it, and the events behind are dropped.\<close>

fun handle_events :: "kernel \<Rightarrow> broker \<Rightarrow> net \<Rightarrow> event list \<Rightarrow> (int \<times> broker \<times> net) res" where
  "handle_events k b n [] = Inr (0, b, n)"
| "handle_events k b n (e # es) =
     (let fd = ev_fd e in
      if fd = sock (res b) then
        (case k_accept k n of
           None \<Rightarrow> Inr (-1, b, n)
         | Some (as, c) \<Rightarrow>
             handle_events k b (snd (nio_epoll_add (n\<lparr>conns := (conns n)(as \<mapsto> c)\<rparr>) as)) es)
      else if ev_error e then handle_events k b (snd (nio_epoll_del (sys_close n fd) fd)) es
      else if ev_in e then
        rbind (handle_connection k b n fd) (\<lambda>(b', n'). handle_events k b' n' es)
      else handle_events k b n es)"

section \<open>The periodic check\<close>

text \<open>\<open>manage_resources\<close> at time \<open>t\<close>; the flag tells whether the workload was checked.\<close>

definition manage_resources :: "(string \<Rightarrow> string option) \<Rightarrow> int \<Rightarrow> daemon \<Rightarrow> (bool \<times> daemon) res" where
  "manage_resources fs t d =
     (if d_last d = 0 then Inr (False, d\<lparr>d_last := t\<rparr>)
      else if \<not> (t - d_last d \<ge> RESOURCE_DETECT_TIMER) then Inr (False, d)
      else rbind (check_queue_workload fs (d_broker d) (d_net d)) (\<lambda>(b, n).
        Inr (True, d\<lparr>d_broker := b, d_net := n, d_last := t\<rparr>)))"

section \<open>The main loop\<close>

text \<open>One turn, from the events that \<open>epoll_wait\<close> returned and the time after handling them.\<close>

definition resbd_turn ::
  "(string \<Rightarrow> string option) \<Rightarrow> kernel \<Rightarrow> event list \<Rightarrow> int \<Rightarrow> daemon \<Rightarrow> (bool \<times> daemon) res" where
  "resbd_turn fs k es t d =
     rbind (handle_events k (d_broker d) (d_net d) es) (\<lambda>(r, b, n).
       manage_resources fs t (d\<lparr>d_broker := b, d_net := n\<rparr>))"

text \<open>
  What the kernel guarantees: an accepted descriptor is not open yet; the events are of different
  descriptors of the epoll set, at most \<open>MAX_EVENTS\<close>.
\<close>

definition kernel_ok :: "kernel \<Rightarrow> bool" where
  "kernel_ok k \<longleftrightarrow> (\<forall>n fd c. k_accept k n = Some (fd, c) \<longrightarrow> conns n fd = None)"

definition events_ok :: "net \<Rightarrow> event list \<Rightarrow> bool" where
  "events_ok n es \<longleftrightarrow> distinct (map ev_fd es) \<and> ev_fd ` set es \<subseteq> polled n \<and> length es \<le> MAX_EVENTS"

inductive resbd_step :: "daemon \<Rightarrow> daemon \<Rightarrow> bool" where
  turn: "kernel_ok k \<Longrightarrow> events_ok (d_net d) es \<Longrightarrow> resbd_turn fs k es t d = Inr (chk, d') \<Longrightarrow> resbd_step d d'"

inductive_cases resbd_stepE: "resbd_step d d'"

section \<open>What one request keeps\<close>

definition same_config :: "broker \<Rightarrow> broker \<Rightarrow> bool" where
  "same_config b b' \<longleftrightarrow> queues b' = queues b \<and> params b' = params b \<and> res b' = res b \<and>
     simulate b' = simulate b \<and> (\<exists>new. servers b' = servers b @ new)"

lemma same_config_refl [simp]: "same_config b b"
  by (simp add: same_config_def)

lemma same_config_trans: "same_config b b' \<Longrightarrow> same_config b' b'' \<Longrightarrow> same_config b b''"
  by (auto simp: same_config_def)

text \<open>A descriptor may go; all others stay, open and polled.\<close>

definition only_drops :: "int \<Rightarrow> net \<Rightarrow> net \<Rightarrow> bool" where
  "only_drops s n n' \<longleftrightarrow> net_wf n' \<and> dom (conns n) - {s} \<subseteq> dom (conns n') \<and>
     dom (conns n') \<subseteq> dom (conns n) \<and> polled n - {s} \<subseteq> polled n' \<and> polled n' \<subseteq> polled n"

lemma only_drops_same: "same_sockets n n' \<Longrightarrow> net_wf n \<Longrightarrow> only_drops s n n'"
  by (auto simp: only_drops_def same_sockets_def net_wf_def)

lemma only_drops_close: "net_wf n \<Longrightarrow> only_drops s n (sys_close n s)"
  by (auto simp: only_drops_def sys_close_def net_wf_def)

lemma only_drops_del: "net_wf n \<Longrightarrow> only_drops s n (snd (nio_epoll_del n s))"
  by (auto simp: only_drops_def nio_epoll_del_def net_wf_def)

lemma only_drops_trans: "only_drops s n n' \<Longrightarrow> only_drops s n' n'' \<Longrightarrow> only_drops s n n''"
  unfolding only_drops_def by blast

lemma only_drops_wf: "only_drops s n n' \<Longrightarrow> net_wf n'"
  by (simp add: only_drops_def)

lemma drop_conn_drops: "net_wf n \<Longrightarrow> only_drops s n (drop_conn n s)"
  unfolding drop_conn_def by (meson only_drops_close only_drops_del only_drops_trans only_drops_wf)

lemma status_info_same: "status_info b pid load n s = Inr (r, n') \<Longrightarrow> same_sockets n n'"
  by (cases load) (auto simp: status_info_def fault_simps dest: send_msg_same)

lemma params_info_drops: "params_info b n s = Inr (r, n') \<Longrightarrow> net_wf n \<Longrightarrow> only_drops s n n'"
  by (auto simp: params_info_def fault_simps split: if_splits dest!: send_msg_same
      intro: only_drops_same only_drops_trans [OF only_drops_same only_drops_close] net_wf_same)

lemma server_register_same:
  "server_register b n s hdr = Inr (cc, b', n') \<Longrightarrow> same_sockets n n' \<and> same_config b b' \<and> cc \<le> 0"
  by (auto simp: server_register_def fault_simps Let_def same_config_def split: if_splits option.splits
      dest!: net_readblock_same net_writeblock_same intro: same_sockets_trans)

lemma handle_connection_keeps:
  assumes "handle_connection k b n s = Inr (b', n')" "net_wf n"
  shows "same_config b b' \<and> only_drops s n n'"
proof -
  from assms(1) obtain h n1 where h: "read_header n s = Inr (h, n1)"
    by (auto simp: handle_connection_def fault_simps)
  have d1: "only_drops s n n1" by (rule only_drops_same [OF read_header_same [OF h] assms(2)])
  note wf1 = only_drops_wf [OF d1]
  have drop: "only_drops s n (drop_conn n2 s)" if "only_drops s n1 n2" for n2
    using d1 that drop_conn_drops [OF only_drops_wf [OF that]] only_drops_trans by blast
  show ?thesis
  proof (cases h)
    case None
    with assms(1) h drop [of n1] wf1 show ?thesis
      by (simp add: handle_connection_def) (metis only_drops_same same_sockets_refl)
  next
    case (Some hdr)
    consider (status) "opcode hdr = BROKER_STATUS" | (params) "opcode hdr = BROKER_PARAMS"
      | (queue) "opcode hdr = BROKER_QUEUE_STATUS" | (reg) "opcode hdr = BROKER_SERVER_REGISTER"
      | (other) "opcode hdr \<notin> {BROKER_STATUS, BROKER_PARAMS, BROKER_QUEUE_STATUS, BROKER_SERVER_REGISTER}" by blast
    then show ?thesis
    proof cases
      case status
      with assms(1) h Some obtain r n2 where "status_info b (k_pid k) (k_load k) n1 s = Inr (r, n2)"
        "b' = b" "n' = drop_conn n2 s" by (auto simp: handle_connection_def fault_simps)
      with drop [OF only_drops_same [OF status_info_same wf1]] show ?thesis by simp
    next
      case params
      with assms(1) h Some obtain r n2 where "params_info b n1 s = Inr (r, n2)" "b' = b" "n' = drop_conn n2 s"
        by (auto simp: handle_connection_def fault_simps opcode_defs)
      with drop [OF params_info_drops [OF _ wf1]] show ?thesis by simp
    next
      case queue
      with assms(1) h Some have "b' = b" "n' = drop_conn n1 s"
        by (auto simp: handle_connection_def fault_simps opcode_defs queue_info_def)
      with drop [OF only_drops_same [OF same_sockets_refl wf1]] show ?thesis by simp
    next
      case reg
      with assms(1) h Some obtain cc n2 where r: "server_register b n1 s hdr = Inr (cc, b', n2)"
        "n' = (if 0 < cc then drop_conn n2 s else n2)"
        by (auto simp: handle_connection_def fault_simps opcode_defs)
      from server_register_same [OF r(1)] r(2) have "same_sockets n1 n'" "same_config b b'" by auto
      with only_drops_trans [OF d1 only_drops_same [OF _ wf1]] show ?thesis by blast
    next
      case other
      with assms(1) h Some d1 show ?thesis by (simp add: handle_connection_def)
    qed
  qed
qed

section \<open>What a turn keeps\<close>

lemma handle_events_keeps:
  "handle_events k b n es = Inr (r, b', n') \<Longrightarrow> kernel_ok k \<Longrightarrow> net_wf n \<Longrightarrow> sock (res b) \<in> polled n \<Longrightarrow>
   same_config b b' \<and> net_wf n' \<and> sock (res b) \<in> polled n'"
proof (induction es arbitrary: b n)
  case (Cons e es)
  show ?case
  proof (cases "ev_fd e = sock (res b)")
    case True
    show ?thesis
    proof (cases "k_accept k n")
      case None
      with Cons.prems True show ?thesis by simp
    next
      case (Some p)
      obtain as c where p: "p = (as, c)" by (cases p)
      let ?n = "snd (nio_epoll_add (n\<lparr>conns := (conns n)(as \<mapsto> c)\<rparr>) as)"
      have "net_wf ?n" using Cons.prems(3) by (intro net_wf_add) (auto simp: net_wf_def)
      moreover have "sock (res b) \<in> polled ?n" using Cons.prems(4) by (simp add: nio_epoll_add_def)
      moreover have "handle_events k b ?n es = Inr (r, b', n')" using Cons.prems(1) True Some p by simp
      ultimately show ?thesis using Cons.IH Cons.prems(2) by blast
    qed
  next
    case False
    have kept: "sock (res b) \<in> polled n1" if "only_drops (ev_fd e) n n1" for n1
      using that Cons.prems(4) False by (auto simp: only_drops_def)
    consider (err) "ev_error e" | (inp) "\<not> ev_error e" "ev_in e" | (none) "\<not> ev_error e" "\<not> ev_in e" by blast
    then show ?thesis
    proof cases
      case err
      let ?n = "snd (nio_epoll_del (sys_close n (ev_fd e)) (ev_fd e))"
      have "only_drops (ev_fd e) n ?n"
        using only_drops_close [OF Cons.prems(3)] only_drops_del [OF net_wf_close [OF Cons.prems(3)]]
          only_drops_trans by blast
      with Cons.IH [of b ?n] kept [of ?n] Cons.prems(1,2) False err show ?thesis
        by (simp add: only_drops_wf Let_def)
    next
      case inp
      with Cons.prems(1) False obtain b1 n1 where step: "handle_connection k b n (ev_fd e) = Inr (b1, n1)"
        and rest: "handle_events k b1 n1 es = Inr (r, b', n')" by (auto simp: fault_simps)
      from handle_connection_keeps [OF step Cons.prems(3)] have k: "same_config b b1" "only_drops (ev_fd e) n n1" by auto
      then have "sock (res b1) \<in> polled n1" "res b1 = res b" using kept [OF k(2)] by (simp_all add: same_config_def)
      with Cons.IH [OF rest Cons.prems(2) only_drops_wf [OF k(2)]] k(1) show ?thesis
        using same_config_trans by simp
    next
      case none
      with Cons False show ?thesis by simp
    qed
  qed
qed simp

lemma broker_wf_same_config: "same_config b b' \<Longrightarrow> broker_wf b \<Longrightarrow> broker_wf b'"
  by (simp add: broker_wf_def same_config_def)

lemma broker_wf_same_queues:
  assumes "same_queues b b'" "broker_wf b"
  shows "broker_wf b'"
proof -
  let ?z = "\<lambda>q. q\<lparr>num_pend_jobs := 0\<rparr> :: queue"
  have q: "map ?z (queues b') = map ?z (queues b)" using assms(1) by (simp add: same_queues_def)
  have names: "names_differ qs \<longleftrightarrow> names_differ (map ?z qs)" for qs by (simp add: names_differ_def comp_def)
  have ok: "(\<forall>x \<in> set qs. queue_ok x) \<longleftrightarrow> (\<forall>x \<in> set (map ?z qs). queue_ok x)" for qs by (simp add: queue_ok_def)
  show ?thesis
    using assms names [of "queues b"] names [of "queues b'"] ok [of "queues b"] ok [of "queues b'"]
    unfolding broker_wf_def q by (simp add: same_queues_def)
qed

definition daemon_ok :: "daemon \<Rightarrow> bool" where
  "daemon_ok d \<longleftrightarrow> broker_wf (d_broker d) \<and> net_wf (d_net d) \<and> sock (res (d_broker d)) \<in> polled (d_net d)"

text \<open>What stays from one state to any later one: the configuration, and every server.\<close>

definition evolves :: "daemon \<Rightarrow> daemon \<Rightarrow> bool" where
  "evolves d d' \<longleftrightarrow> map q_name (queues (d_broker d')) = map q_name (queues (d_broker d)) \<and>
     params (d_broker d') = params (d_broker d) \<and> res (d_broker d') = res (d_broker d) \<and>
     (\<exists>new. servers (d_broker d') = servers (d_broker d) @ new)"

lemma evolves_trans: "evolves d d' \<Longrightarrow> evolves d' d'' \<Longrightarrow> evolves d d''"
  by (auto simp: evolves_def)

lemma same_queues_names: "same_queues b b' \<Longrightarrow> map q_name (queues b') = map q_name (queues b)"
proof -
  assume "same_queues b b'"
  then have q: "map (\<lambda>q. q\<lparr>num_pend_jobs := 0\<rparr>) (queues b') = map (\<lambda>q. q\<lparr>num_pend_jobs := 0\<rparr>) (queues b)"
    by (simp add: same_queues_def)
  show ?thesis using arg_cong [OF q, of "map q_name"] by (simp add: comp_def)
qed

lemma manage_resources_keeps:
  assumes "manage_resources fs t d = Inr (chk, d')"
  shows "same_queues (d_broker d) (d_broker d') \<and> same_sockets (d_net d) (d_net d')"
  using assms check_queue_workload_same
  by (auto simp: manage_resources_def fault_simps same_queues_refl split: if_splits)

lemma resbd_step_keeps:
  assumes "resbd_step d d'" "daemon_ok d"
  shows "daemon_ok d' \<and> evolves d d'"
proof -
  from assms(1) obtain k es fs t chk where k: "kernel_ok k" "events_ok (d_net d) es"
    "resbd_turn fs k es t d = Inr (chk, d')" by (auto elim: resbd_stepE)
  then obtain r b n where ev: "handle_events k (d_broker d) (d_net d) es = Inr (r, b, n)"
    and man: "manage_resources fs t (d\<lparr>d_broker := b, d_net := n\<rparr>) = Inr (chk, d')"
    by (auto simp: resbd_turn_def fault_simps)
  from handle_events_keeps [OF ev k(1)] assms(2)
  have c: "same_config (d_broker d) b" "net_wf n" "sock (res (d_broker d)) \<in> polled n" by (auto simp: daemon_ok_def)
  from manage_resources_keeps [OF man] have m: "same_queues b (d_broker d')" "same_sockets n (d_net d')" by simp_all
  have "broker_wf (d_broker d')"
    using broker_wf_same_queues [OF m(1) broker_wf_same_config [OF c(1)]] assms(2) by (simp add: daemon_ok_def)
  moreover have "net_wf (d_net d')" using net_wf_same [OF m(2) c(2)] .
  moreover have "sock (res (d_broker d')) \<in> polled (d_net d')"
    using c m by (simp add: same_config_def same_queues_def same_sockets_def)
  moreover have "evolves d d'"
    using c(1) m(1) same_queues_names [OF m(1)] by (auto simp: evolves_def same_config_def same_queues_def)
  ultimately show ?thesis by (simp add: daemon_ok_def)
qed

definition server_socket_made :: "sock_answers \<Rightarrow> bool" where
  "server_socket_made a \<longleftrightarrow> 0 \<le> an_socket a \<and> 0 \<le> an_setsockopt a \<and> 0 \<le> an_bind a \<and> 0 \<le> an_listen a \<and>
     0 \<le> an_epoll_ctl a"

lemma nio_server_init_ok:
  "server_socket_made a \<Longrightarrow> nio_server_init n a =
     (an_socket a, n\<lparr>conns := (conns n)(an_socket a \<mapsto> an_conn a), polled := {an_socket a}\<rparr>)"
  by (simp add: server_socket_made_def nio_server_init_def Let_def open_socket_def epoll_create_def epoll_add_or_close_def)

lemma open_log_wf: "broker_wf b \<Longrightarrow> broker_wf (fst (open_log b))"
  by (auto simp: open_log_def broker_wf_def params_ok_def Let_def split: option.splits)

lemma resbd_start_ok:
  assumes "resbd_start cfile now sim n a = Inr d" "server_socket_made a"
  shows "daemon_ok d \<and> servers (d_broker d) = []"
proof -
  from assms(1) obtain r b where b: "read_config cfile (init_main_data now sim) = Inr (r, b)"
    and d: "d = \<lparr>d_broker = (fst (open_log b))\<lparr>res := (res (fst (open_log b)))\<lparr>sock := an_socket a\<rparr>\<rparr>,
       d_net = n\<lparr>conns := (conns n)(an_socket a \<mapsto> an_conn a), polled := {an_socket a}\<rparr>, d_last = 0\<rparr>"
    by (auto simp: resbd_start_def fault_simps nio_server_init_ok [OF assms(2)] split_def Let_def)
  have "broker_wf (fst (open_log b))" using open_log_wf conf_read_wf [OF b] by blast
  then have "daemon_ok d" by (simp add: d daemon_ok_def broker_wf_def net_wf_def)
  moreover have "servers (d_broker d) = []"
    using read_config_servers [OF b] by (simp add: d open_log_def Let_def init_main_data_def)
  ultimately show ?thesis ..
qed

section \<open>Sequences of turns\<close>

text \<open>Several turns one after the other, with the times at which the workload was checked.\<close>

fun run_turns ::
  "(string \<Rightarrow> string option) \<Rightarrow> (kernel \<times> event list \<times> int) list \<Rightarrow> daemon \<Rightarrow> (int list \<times> daemon) res" where
  "run_turns fs [] d = Inr ([], d)"
| "run_turns fs ((k, es, t) # ts) d =
     rbind (resbd_turn fs k es t d) (\<lambda>(chk, d1).
     rbind (run_turns fs ts d1) (\<lambda>(cs, d2). Inr (if chk then t # cs else cs, d2)))"

lemma resbd_turn_last:
  assumes "resbd_turn fs k es t d = Inr (chk, d')"
  shows "d_last d' = (if chk \<or> d_last d = 0 then t else d_last d) \<and>
    (chk \<longrightarrow> d_last d \<noteq> 0 \<and> d_last d + RESOURCE_DETECT_TIMER \<le> t)"
proof -
  from assms obtain r b n where man: "manage_resources fs t (d\<lparr>d_broker := b, d_net := n\<rparr>) = Inr (chk, d')"
    by (auto simp: resbd_turn_def fault_simps)
  consider "d_last d = 0" | "d_last d \<noteq> 0" "\<not> t - d_last d \<ge> RESOURCE_DETECT_TIMER"
    | "d_last d \<noteq> 0" "t - d_last d \<ge> RESOURCE_DETECT_TIMER" by blast
  then show ?thesis
    by cases (use man in \<open>auto simp: manage_resources_def fault_simps\<close>)
qed

lemma run_turns_spaced:
  "run_turns fs ts d = Inr (cs, d') \<Longrightarrow> \<forall>(k, es, t) \<in> set ts. 0 < t \<Longrightarrow> 0 < d_last d \<Longrightarrow>
   sorted_wrt (\<lambda>a b. a + RESOURCE_DETECT_TIMER \<le> b) (d_last d # cs)"
proof (induction ts arbitrary: d cs)
  case (Cons x ts)
  obtain k es t where x: "x = (k, es, t)" by (cases x)
  from Cons.prems(1) x obtain chk d1 cs1 where turn: "resbd_turn fs k es t d = Inr (chk, d1)"
    and rest: "run_turns fs ts d1 = Inr (cs1, d')" and cs: "cs = (if chk then t # cs1 else cs1)"
    by (auto simp: fault_simps)
  note last = resbd_turn_last [OF turn]
  have t: "0 < t" using Cons.prems(2) x by simp
  then have "0 < d_last d1" using last Cons.prems(3) by auto
  from Cons.IH [OF rest _ this] Cons.prems(2)
  have IH: "sorted_wrt (\<lambda>a b. a + RESOURCE_DETECT_TIMER \<le> b) (d_last d1 # cs1)" by simp
  show ?case
  proof (cases chk)
    case True
    then have "d_last d1 = t" "d_last d + RESOURCE_DETECT_TIMER \<le> t" using last by auto
    with IH show ?thesis using True cs t by (fastforce simp: RESOURCE_DETECT_TIMER_def)
  next
    case False
    then have "d_last d1 = d_last d" using last Cons.prems(3) by auto
    with IH show ?thesis using False cs by simp
  qed
qed simp

text \<open>Servers are never removed, whatever the state.\<close>

lemma handle_connection_config:
  assumes "handle_connection k b n s = Inr (b', n')"
  shows "same_config b b'"
proof -
  from assms have "b' = b \<or> (\<exists>n1 hdr cc n2. server_register b n1 s hdr = Inr (cc, b', n2))"
    unfolding handle_connection_def by (auto simp: rbind_eq_Inr split: option.split_asm if_split_asm)
  then show ?thesis using server_register_same by (metis same_config_refl)
qed

lemma handle_events_config: "handle_events k b n es = Inr (r, b', n') \<Longrightarrow> same_config b b'"
proof (induction es arbitrary: b n)
  case (Cons e es)
  let ?fd = "ev_fd e"
  consider (acc) fd c where "?fd = sock (res b)" "k_accept k n = Some (fd, c)" | (fail) "?fd = sock (res b)" "k_accept k n = None"
    | (err) "?fd \<noteq> sock (res b)" "ev_error e" | (inp) "?fd \<noteq> sock (res b)" "\<not> ev_error e" "ev_in e"
    | (none) "?fd \<noteq> sock (res b)" "\<not> ev_error e" "\<not> ev_in e" by (cases "k_accept k n") auto
  then show ?case
  proof cases
    case inp
    with Cons.prems obtain b1 n1 where "handle_connection k b n ?fd = Inr (b1, n1)" "handle_events k b1 n1 es = Inr (r, b', n')"
      by (auto simp: fault_simps)
    with Cons.IH handle_connection_config same_config_trans show ?thesis by blast
  qed (use Cons in \<open>auto simp: Let_def\<close>)
qed simp

lemma resbd_step_servers:
  assumes "resbd_step d d'"
  shows "\<exists>new. servers (d_broker d') = servers (d_broker d) @ new"
proof -
  from assms obtain k es fs t chk r b n where ev: "handle_events k (d_broker d) (d_net d) es = Inr (r, b, n)"
    and man: "manage_resources fs t (d\<lparr>d_broker := b, d_net := n\<rparr>) = Inr (chk, d')"
    by (auto elim!: resbd_stepE simp: resbd_turn_def fault_simps)
  from handle_events_config [OF ev] manage_resources_keeps [OF man] show ?thesis
    by (auto simp: same_config_def same_queues_def)
qed

lemma later_servers: "resbd_step\<^sup>*\<^sup>* d d' \<Longrightarrow> \<exists>new. servers (d_broker d') = servers (d_broker d) @ new"
proof (induction rule: rtranclp_induct)
  case (step d1 d2)
  with resbd_step_servers [OF step.hyps(2)] show ?case by auto
qed simp

text \<open>A server whose connection is gone, and one whose descriptor is that of another connection.\<close>

lemma net_readblock_tx:
  "net_readblock n s L = Inr (r, n') \<Longrightarrow> conns n s = Some c \<Longrightarrow> \<exists>c'. conns n' s = Some c' \<and> tx c' = tx c"
  by (auto simp: net_readblock_def split: if_splits prod.splits rd_result.splits)

lemma read_header_tx:
  "read_header n s = Inr (r, n') \<Longrightarrow> conns n s = Some c \<Longrightarrow> \<exists>c'. conns n' s = Some c' \<and> tx c' = tx c"
  by (auto simp: read_header_def fault_simps dest: net_readblock_tx)

lemma get_server_resources_other:
  assumes "servers b = srv # ss" "conns n (srv_socket srv) = Some c" "takes_all sizeof_header (wx c)"
    and "get_server_resources b n num = Inr (r, n')"
  shows "\<exists>c'. conns n' (srv_socket srv) = Some c' \<and>
    tx c' = tx c @ encode_header (hdr_pad n) \<lparr>opcode = SERVER_BOOT_RESOURCES, len = of_int num\<rparr>"
proof -
  let ?s = "srv_socket srv" and ?req = "encode_header (hdr_pad n) \<lparr>opcode = SERVER_BOOT_RESOURCES, len = of_int num\<rparr>"
  let ?n1 = "n\<lparr>conns := (conns n)(?s \<mapsto> c\<lparr>wx := after_write (wx c), tx := tx c @ ?req\<rparr>)\<rparr>"
  have "net_writeblock n ?s ?req = Inr (int sizeof_header, ?n1)" by (rule send_header_ok [OF assms(2,3)])
  with assms(1,4) obtain h n2 where h: "read_header ?n1 ?s = Inr (h, n2)" and
    b: "(case h of None \<Rightarrow> Inr ((-1, []), n2) | Some hdr2 \<Rightarrow>
      rbind (net_readblock n2 ?s (unat (len hdr2))) (\<lambda>(r, n3). case r of None \<Rightarrow> Inr ((-1, []), n3)
        | Some buf \<Rightarrow> rbind (parse_machines (buf @ junk n3)) (\<lambda>ms. Inr ((0, ms), n3)))) = Inr (r, n')"
    by (auto simp: get_server_resources_def rbind_eq_Inr)
  from b have r: "n' = n2 \<or> (\<exists>L x. net_readblock n2 ?s L = Inr (x, n'))"
    by (cases h) (auto simp: rbind_eq_Inr split: option.splits)
  from read_header_tx [OF h] obtain c2 where "conns n2 ?s = Some c2" "tx c2 = tx c @ ?req" by auto
  with r net_readblock_tx show ?thesis by metis
qed

lemma get_server_resources_gone:
  "servers b = s # ss \<Longrightarrow> conns n (srv_socket s) = None \<Longrightarrow> get_server_resources b n num = Inr ((-1, []), n)"
  by (simp add: get_server_resources_def net_writeblock_def)

lemma read_header_short:
  assumes "conns n s = Some c" "length (stream_bytes (rx c)) < sizeof_header" "stream_ends (rx c)"
  shows "\<exists>es. read_header n s = Inr (None, n\<lparr>conns := (conns n)(s \<mapsto> c\<lparr>rx := es\<rparr>)\<rparr>)"
  using net_readblock_short [OF assms] by (auto simp: read_header_def)

lemma drop_conn_gone: "conns (drop_conn n s) s = None"
  by (simp add: drop_conn_def sys_close_def)

section \<open>Properties\<close>


definition demo_listen :: sock_answers where
  "demo_listen = \<lparr>an_socket = 3, an_setsockopt = 0, an_bind = 0, an_listen = 0, an_connect = 0,
     an_epoll_ctl = 0, an_conn = demo_conn []\<rparr>"

definition no_net :: net where
  "no_net = \<lparr>conns = Map.empty, polled = {}, junk = [NUL], hdr_pad = [], bad_closes = 0\<rparr>"

definition demo_kernel :: kernel where
  "demo_kernel = \<lparr>k_accept = (\<lambda>n. if conns n 5 = None then Some (5, demo_conn []) else None),
     k_pid = 4242, k_load = (0, 0, 0)\<rparr>"

definition demo_daemon :: daemon where
  "demo_daemon = \<lparr>d_broker = (fst (open_log (init_main_data 100 True)))\<lparr>res := (res (init_main_data 100 True))\<lparr>sock := 3\<rparr>\<rparr>,
     d_net = no_net\<lparr>conns := [3 \<mapsto> demo_conn []], polled := {3}\<rparr>, d_last = 0\<rparr>"

lemma demo_start: "resbd_start None 100 True no_net demo_listen = Inr demo_daemon" "server_socket_made demo_listen"
proof -
  show "server_socket_made demo_listen" by (simp add: server_socket_made_def demo_listen_def)
  from nio_server_init_ok [OF this, of no_net]
  show "resbd_start None 100 True no_net demo_listen = Inr demo_daemon"
    by (simp add: resbd_start_def read_config_def ini_parse_def split_def demo_listen_def no_net_def demo_daemon_def
        open_log_def init_main_data_def Let_def)
qed

lemma demo_kernel_ok: "kernel_ok demo_kernel"
  by (simp add: kernel_ok_def demo_kernel_def)


text \<open>C36. The resource check is paced: over any sequence of turns from the start, the first check comes
  at least ten seconds after the first turn, and two checks are at least ten seconds apart.\<close>

theorem workload_checks_spaced:
  assumes "run_turns fs ((k, es, t0) # ts) d = Inr (cs, d')" "d_last d = 0"
    and "\<forall>(k, es, t) \<in> set ((k, es, t0) # ts). 0 < t"
  shows "sorted_wrt (\<lambda>a b. a + RESOURCE_DETECT_TIMER \<le> b) (t0 # cs)"
proof -
  from assms(1) obtain chk d1 cs1 where turn: "resbd_turn fs k es t0 d = Inr (chk, d1)"
    and rest: "run_turns fs ts d1 = Inr (cs1, d')" and cs: "cs = (if chk then t0 # cs1 else cs1)"
    by (auto simp: fault_simps)
  from resbd_turn_last [OF turn] assms(2) have "\<not> chk" "d_last d1 = t0" by auto
  with run_turns_spaced [OF rest] assms(3) cs show ?thesis by simp
qed

theorem workload_checks_spaced_witness:
  "\<exists>cs d'. run_turns Map.empty [(demo_kernel, [], 100), (demo_kernel, [], 105), (demo_kernel, [], 112)] demo_daemon =
    Inr (cs, d') \<and> cs = [112] \<and> sorted_wrt (\<lambda>a b. a + RESOURCE_DETECT_TIMER \<le> b) (100 # cs)"
proof -
  let ?d = "demo_daemon\<lparr>d_last := 112\<rparr>"
  have r: "run_turns Map.empty [(demo_kernel, [], 100), (demo_kernel, [], 105), (demo_kernel, [], 112)] demo_daemon =
      Inr ([112], ?d)"
    by (simp add: resbd_turn_def demo_daemon_def manage_resources_def RESOURCE_DETECT_TIMER_def
        check_queue_workload_def open_log_def init_main_data_def Let_def)
  from workload_checks_spaced [OF r] r show ?thesis by (simp add: demo_daemon_def)
qed

text \<open>The requests the broker does not simply answer. A request for the parameters is answered and its
  connection closed twice, the second time on a descriptor that is no longer open. A queue status
  request gets no answer at all, only the end of its connection. A request with an unknown code is
  neither answered nor closed.\<close>

theorem request_dispatch:
  assumes "conns n s = Some c" "stream_bytes (rx c) = encode_header pad \<lparr>opcode = op, len = 0\<rparr>"
  shows "(op = BROKER_PARAMS \<longrightarrow> params_ok (params b) \<longrightarrow> accepts_msg (enc_params (params b)) (wx c) \<longrightarrow>
      (\<exists>n'. handle_connection k b n s = Inr (b, n') \<and> conns n' s = None \<and> bad_closes n' = Suc (bad_closes n))) \<and>
    (op = BROKER_QUEUE_STATUS \<longrightarrow>
      (\<exists>n'. handle_connection k b n s = Inr (b, n') \<and> conns n' s = None \<and> bad_closes n' = bad_closes n)) \<and>
    (op \<notin> {BROKER_STATUS, BROKER_QUEUE_STATUS, BROKER_PARAMS, BROKER_SERVER_REGISTER} \<longrightarrow>
      (\<exists>n' c'. handle_connection k b n s = Inr (b, n') \<and> conns n' s = Some c' \<and> tx c' = tx c \<and> polled n' = polled n))"
proof -
  let ?h = "\<lparr>opcode = op, len = 0\<rparr> :: rb_header"
  have "stream_bytes (rx c) = encode_header pad ?h @ []" using assms(2) by simp
  from read_header_ok [OF assms(1) this] obtain es where
    h: "read_header n s = Inr (Some ?h, n\<lparr>conns := (conns n)(s \<mapsto> c\<lparr>rx := es\<rparr>)\<rparr>)" by blast
  let ?n = "n\<lparr>conns := (conns n)(s \<mapsto> c\<lparr>rx := es\<rparr>)\<rparr>"
  have "\<exists>n'. handle_connection k b n s = Inr (b, n') \<and> conns n' s = None \<and> bad_closes n' = Suc (bad_closes n)"
    if op: "op = BROKER_PARAMS" and ok: "params_ok (params b)" "accepts_msg (enc_params (params b)) (wx c)"
  proof -
    have "accepts_msg (enc_params (params b)) (wx (c\<lparr>rx := es\<rparr>))" using ok(2) by simp
    from params_info_sends [OF ok(1) _ this, of ?n s] h op show ?thesis
      by (simp add: handle_connection_def opcode_defs drop_conn_def sys_close_def nio_epoll_del_def)
  qed
  then show ?thesis
    using h by (auto simp: handle_connection_def queue_info_def opcode_defs drop_conn_def sys_close_def nio_epoll_del_def)
qed

theorem request_dispatch_witness:
  "\<exists>n'. handle_connection demo_kernel (init_main_data 0 True)
      (demo_net [Data (encode_header [] \<lparr>opcode = BROKER_PARAMS, len = 0\<rparr>)] []) 5 =
    Inr (init_main_data 0 True, n') \<and> bad_closes n' = 1"
proof -
  let ?b = "init_main_data 0 True" and ?es = "[Data (encode_header [] \<lparr>opcode = BROKER_PARAMS, len = 0\<rparr>)]"
  have ok: "params_ok (params ?b)" using broker_wf_init by (simp add: broker_wf_def)
  have len: "length (enc_params (params ?b)) < 2000"
    using length_params_text [OF ok] by (simp add: enc_params_def)
  have st: "conns (demo_net ?es []) 5 = Some (demo_conn ?es)"
    "stream_bytes (rx (demo_conn ?es)) = encode_header [] \<lparr>opcode = BROKER_PARAMS, len = 0\<rparr>" by simp_all
  from request_dispatch [OF st, THEN conjunct1, rule_format, OF refl ok demo_accepts [OF len], of demo_kernel]
  show ?thesis by (auto simp: demo_net_def)
qed

text \<open>A registration that fails is not cleaned up: \<open>server_register\<close> never returns a positive number,
  the only case in which its connection would be dropped, so when the body of the registration does
  not arrive the connection stays open and polled, and no server is added.\<close>

theorem failed_registration_stays:
  assumes "conns n s = Some c" "stream_bytes (rx c) = encode_header pad \<lparr>opcode = BROKER_SERVER_REGISTER, len = l\<rparr> @ part"
    and "length part < unat l" "length part \<le> 1024" "stream_ends (rx c)"
  shows "\<exists>n'. handle_connection k b n s = Inr (b, n') \<and> conns n' s \<noteq> None \<and> polled n' = polled n"
proof -
  let ?h = "\<lparr>opcode = BROKER_SERVER_REGISTER, len = l\<rparr> :: rb_header"
  from read_header_ok [OF assms(1,2)] obtain es where
    h: "read_header n s = Inr (Some ?h, n\<lparr>conns := (conns n)(s \<mapsto> c\<lparr>rx := es\<rparr>)\<rparr>)"
    "stream_bytes es = part" "stream_ends es = stream_ends (rx c)" by blast
  let ?n = "n\<lparr>conns := (conns n)(s \<mapsto> c\<lparr>rx := es\<rparr>)\<rparr>"
  have "conns ?n s = Some (c\<lparr>rx := es\<rparr>)" "length (stream_bytes (rx (c\<lparr>rx := es\<rparr>))) < unat l"
    "stream_ends (rx (c\<lparr>rx := es\<rparr>))" using h(2,3) assms(3,5) by simp_all
  from net_readblock_short [OF this] obtain es2 where
    r: "net_readblock ?n s (unat l) = Inr (None, ?n\<lparr>conns := (conns ?n)(s \<mapsto> (c\<lparr>rx := es\<rparr>)\<lparr>rx := es2\<rparr>)\<rparr>)" by blast
  have "\<not> 1024 < min (unat l) (arriving ?n s)" using h(2) assms(4) by (simp add: arriving_def)
  then show ?thesis
    using h(1) r by (simp add: handle_connection_def server_register_def opcode_defs)
qed

theorem failed_registration_stays_witness:
  "\<exists>n'. handle_connection demo_kernel (init_main_data 0 True)
      (demo_net [Data (encode_header [] \<lparr>opcode = BROKER_SERVER_REGISTER, len = 9\<rparr> @ ''0 n''), Rd_eof] []) 5 =
    Inr (init_main_data 0 True, n') \<and> conns n' 5 \<noteq> None"
  using failed_registration_stays [of "demo_net [Data (encode_header [] \<lparr>opcode = BROKER_SERVER_REGISTER, len = 9\<rparr> @ ''0 n''), Rd_eof] []"
      5 "demo_conn [Data (encode_header [] \<lparr>opcode = BROKER_SERVER_REGISTER, len = 9\<rparr> @ ''0 n''), Rd_eof]" "[]" 9 "''0 n''"
      demo_kernel "init_main_data 0 True"] by auto

text \<open>C40. A server that disconnects is never forgotten, and only the first server is ever asked. When the first
  server's connection ends, the broker closes it but keeps the server in its list; in every later state of the
  daemon this server is still the first, whatever other servers have registered. Every request for machines
  fails as long as its descriptor is not open again; and once accept has given the same descriptor to
  another client, the request is written to that client.\<close>

theorem dead_first_server:
  assumes "servers (d_broker d) = srv # others"
    and "conns (d_net d) (srv_socket srv) = Some c" "length (stream_bytes (rx c)) < sizeof_header" "stream_ends (rx c)"
  shows "(\<exists>n'. handle_connection k (d_broker d) (d_net d) (srv_socket srv) = Inr (d_broker d, n') \<and> conns n' (srv_socket srv) = None) \<and>
    (\<forall>d2. resbd_step\<^sup>*\<^sup>* d d2 \<longrightarrow>
      (\<exists>more. servers (d_broker d2) = srv # more) \<and>
      (conns (d_net d2) (srv_socket srv) = None \<longrightarrow>
        (\<forall>num. get_server_resources (d_broker d2) (d_net d2) num = Inr ((-1, []), d_net d2))) \<and>
      (\<forall>c2 num r n3. conns (d_net d2) (srv_socket srv) = Some c2 \<longrightarrow> takes_all sizeof_header (wx c2) \<longrightarrow>
        get_server_resources (d_broker d2) (d_net d2) num = Inr (r, n3) \<longrightarrow>
        (\<exists>c3. conns n3 (srv_socket srv) = Some c3 \<and>
          tx c3 = tx c2 @ encode_header (hdr_pad (d_net d2)) \<lparr>opcode = SERVER_BOOT_RESOURCES, len = of_int num\<rparr>)))"
proof -
  from read_header_short [OF assms(2-4)] obtain n1 where "read_header (d_net d) (srv_socket srv) = Inr (None, n1)" by blast
  then have "handle_connection k (d_broker d) (d_net d) (srv_socket srv) = Inr (d_broker d, drop_conn n1 (srv_socket srv))"
    by (simp add: handle_connection_def)
  with drop_conn_gone have "\<exists>n'. handle_connection k (d_broker d) (d_net d) (srv_socket srv) = Inr (d_broker d, n') \<and>
    conns n' (srv_socket srv) = None" by blast
  moreover have "\<exists>more. servers (d_broker d2) = srv # more" if "resbd_step\<^sup>*\<^sup>* d d2" for d2
    using later_servers [OF that] assms(1) by auto
  ultimately show ?thesis using get_server_resources_gone get_server_resources_other by blast
qed

text \<open>The first of two servers, on socket 5, is gone; then accept returns 5 for another client.\<close>

definition demo_two :: daemon where
  "demo_two = demo_daemon\<lparr>d_broker := (d_broker demo_daemon)\<lparr>servers := [registered 5 ''a'' 2, registered 6 ''b'' 9]\<rparr>,
     d_net := (d_net demo_daemon)\<lparr>conns := [3 \<mapsto> demo_conn [], 5 \<mapsto> demo_conn [Rd_eof]], polled := {3, 5}\<rparr>\<rparr>"

theorem dead_first_server_witness:
  "\<exists>d1 d2. resbd_step demo_two d1 \<and> conns (d_net d1) 5 = None \<and>
    get_server_resources (d_broker d1) (d_net d1) 1 = Inr ((-1, []), d_net d1) \<and>
    resbd_step d1 d2 \<and> (\<exists>more. servers (d_broker d2) = registered 5 ''a'' 2 # more) \<and> conns (d_net d2) 5 = Some (demo_conn [])"
proof -
  let ?e = "\<lparr>ev_fd = 5, ev_error = False, ev_in = True\<rparr>" and ?a = "\<lparr>ev_fd = 3, ev_error = False, ev_in = True\<rparr>"
  have s: "servers (d_broker demo_two) = registered 5 ''a'' 2 # [registered 6 ''b'' 9]" "srv_socket (registered 5 ''a'' 2) = 5"
    by (simp_all add: demo_two_def registered_def)
  have c: "conns (d_net demo_two) 5 = Some (demo_conn [Rd_eof])" "length (stream_bytes (rx (demo_conn [Rd_eof]))) < sizeof_header"
    "stream_ends (rx (demo_conn [Rd_eof]))" by (simp_all add: demo_two_def demo_conn_def sizeof_header_def)
  note dead = dead_first_server [of demo_two "registered 5 ''a'' 2", unfolded s(2), OF s(1) c]
  from dead obtain n' where h: "handle_connection demo_kernel (d_broker demo_two) (d_net demo_two) 5 = Inr (d_broker demo_two, n')"
    "conns n' 5 = None" by blast
  let ?d1 = "demo_two\<lparr>d_net := n', d_last := 100\<rparr>"
  have "resbd_turn Map.empty demo_kernel [?e] 100 demo_two = Inr (False, ?d1)"
    using h by (simp add: resbd_turn_def manage_resources_def) (simp add: demo_two_def demo_daemon_def)
  moreover have "events_ok (d_net demo_two) [?e]" by (simp add: events_ok_def demo_two_def MAX_EVENTS_def)
  ultimately have t1: "resbd_step demo_two ?d1" using resbd_step.turn [OF demo_kernel_ok] by blast
  have "handle_events demo_kernel (d_broker demo_two) (d_net demo_two) [?e] = Inr (0, d_broker demo_two, n')"
    using h(1) by (simp add: demo_two_def demo_daemon_def)
  then have n: "net_wf n'" "3 \<in> polled n'"
    using handle_events_keeps [OF _ demo_kernel_ok] by (fastforce simp: demo_two_def demo_daemon_def net_wf_def)+
  let ?d2 = "?d1\<lparr>d_net := snd (nio_epoll_add (n'\<lparr>conns := (conns n')(5 \<mapsto> demo_conn [])\<rparr>) 5)\<rparr>"
  have "resbd_turn Map.empty demo_kernel [?a] 101 ?d1 = Inr (False, ?d2)"
    using h(2) by (simp add: resbd_turn_def manage_resources_def demo_two_def demo_daemon_def demo_kernel_def RESOURCE_DETECT_TIMER_def)
  moreover have "events_ok (d_net ?d1) [?a]" using n(2) by (simp add: events_ok_def MAX_EVENTS_def)
  ultimately have t2: "resbd_step ?d1 ?d2" using resbd_step.turn [OF demo_kernel_ok] by blast
  from t1 t2 have r: "resbd_step\<^sup>*\<^sup>* demo_two ?d1" "resbd_step\<^sup>*\<^sup>* demo_two ?d2" by auto
  have "get_server_resources (d_broker ?d1) (d_net ?d1) 1 = Inr ((-1, []), d_net ?d1)" "\<exists>more. servers (d_broker ?d2) = registered 5 ''a'' 2 # more"
    using dead [THEN conjunct2, rule_format, OF r(1)] dead [THEN conjunct2, rule_format, OF r(2)] h(2) by simp_all
  moreover have "conns (d_net ?d1) 5 = None" "conns (d_net ?d2) 5 = Some (demo_conn [])" using h(2) by (simp_all add: nio_epoll_add_def)
  ultimately show ?thesis using t1 t2 by blast
qed

end
