(* ===== verification/Cmd.thy ===== *)
theory Cmd
  imports Resbd
begin

text \<open>
  The command lines: \<open>getopt\<close> of the C library on short options, and the four \<open>main\<close> functions, of
  the broker (\<open>src/daemon/resbd.c\<close>), the server (\<open>src/server/rbserver.c\<close>) and the two client
  commands (\<open>src/cmd/rbstatus.c\<close>, \<open>src/cmd/rbparams.c\<close>).
\<close>

section \<open>getopt\<close>

text \<open>
  Does the option string know the letter, and does a colon follow it? The characters \<open>:\<close> and \<open>;\<close>
  are never options.
\<close>

fun knows_option :: "string \<Rightarrow> char \<Rightarrow> bool" where
  "knows_option spec c = (c \<in> set spec \<and> c \<noteq> CHR '':'' \<and> c \<noteq> CHR '';'')"

fun takes_arg :: "string \<Rightarrow> char \<Rightarrow> bool" where
  "takes_arg [] c = False"
| "takes_arg (x # xs) c = (if x = c then xs \<noteq> [] \<and> hd xs = CHR '':'' else takes_arg xs c)"

text \<open>
  The letters of one word such as \<open>-df\<close>, with the words after it; an argument is the rest of the
  word or the next word. The result is the options returned and the words left.
\<close>

fun getopt_word :: "string \<Rightarrow> string \<Rightarrow> string list \<Rightarrow> (char \<times> string option) list \<times> string list" where
  "getopt_word spec [] args = ([], args)"
| "getopt_word spec (c # cs) args =
     (if \<not> knows_option spec c then
        (let (os, rest) = getopt_word spec cs args in ((CHR ''?'', None) # os, rest))
      else if takes_arg spec c then
        (if cs \<noteq> [] then ([(c, Some cs)], args)
         else (case args of [] \<Rightarrow> ([(CHR ''?'', None)], []) | a # as \<Rightarrow> ([(c, Some a)], as)))
      else (let (os, rest) = getopt_word spec cs args in ((c, None) # os, rest)))"

lemma getopt_word_shorter: "length (snd (getopt_word spec w args)) \<le> length args"
  by (induction spec w args rule: getopt_word.induct) (auto split: list.splits prod.splits)

text \<open>All calls, up to the end of the words or to \<open>--\<close>; other words are passed over.\<close>

function getopt :: "string \<Rightarrow> string list \<Rightarrow> (char \<times> string option) list" where
  "getopt spec [] = []"
| "getopt spec (w # args) =
     (if w = ''--'' then []
      else if 1 < length w \<and> hd w = CHR ''-'' then
        (let r = getopt_word spec (tl w) args in fst r @ getopt spec (snd r))
      else getopt spec args)"
  by pat_completeness auto
termination
  by (relation "measure (\<lambda>(spec, args). length args)") (auto simp: le_imp_less_Suc getopt_word_shorter)

section \<open>The broker's command line\<close>

record resbd_opts =
  cfile :: string
  sim_flag :: bool
  debug_flag :: bool

text \<open>\<open>Inl\<close> of the result when \<open>main\<close> returns, else \<open>Inr\<close> of the settings.\<close>

fun resbd_options :: "(char \<times> string option) list \<Rightarrow> resbd_opts \<Rightarrow> int + resbd_opts" where
  "resbd_options [] st = Inr st"
| "resbd_options ((c, arg) # os) st =
     (if c = CHR ''v'' then Inl 0
      else if c = CHR ''f'' then resbd_options os (st\<lparr>cfile := (case arg of None \<Rightarrow> [] | Some a \<Rightarrow> a)\<rparr>)
      else if c = CHR ''d'' then resbd_options os (st\<lparr>debug_flag := True\<rparr>)
      else if c = CHR ''S'' then resbd_options os (st\<lparr>sim_flag := True\<rparr>)
      else Inl (-1))"

definition resbd_main ::
  "(string \<Rightarrow> string option) \<Rightarrow> string list \<Rightarrow> int \<Rightarrow> net \<Rightarrow> sock_answers \<Rightarrow> (int + daemon) res" where
  "resbd_main fs args now n a =
     (case resbd_options (getopt ''hvf:dS'' args)
             \<lparr>cfile = ''/usr/local/etc/resdb.conf'', sim_flag = False, debug_flag = False\<rparr> of
        Inl r \<Rightarrow> Inr (Inl r)
      | Inr st \<Rightarrow> rbind (resbd_start (fs (cfile st)) now (sim_flag st) n a) (\<lambda>d. Inr (Inr d)))"

section \<open>The server's command line\<close>

definition rbserver_main ::
  "(string \<Rightarrow> string option) \<Rightarrow> string list \<Rightarrow> net \<Rightarrow> sock_answers \<Rightarrow> ((rb_server \<times> net) option) res" where
  "rbserver_main fs args n a = rbserver_start fs (getopt ''d:ht:s:m:n:'' args) n a"

section \<open>The client commands\<close>

text \<open>
  The option loop that both commands have, with the option string \<open>hs;\<close> of their source. \<open>None\<close> in the
  result is the return with -1 after the help text; the pointer \<open>d\<close> is not initialised.
\<close>

fun client_options :: "(char \<times> string option) list \<Rightarrow> rb_daemon_id option \<Rightarrow> (rb_daemon_id option) option res" where
  "client_options [] d = Inr (Some d)"
| "client_options ((c, arg) # os) d =
     (if c = CHR ''s'' then rbind (get_daemon_id arg) (\<lambda>d'. client_options os (Some d'))
      else if c = CHR ''?'' \<or> c = CHR ''v'' then Inr None
      else client_options os d)"

text \<open>\<open>main\<close> of rbstatus: the result of the process and the status it prints.\<close>

definition rbstatus_main :: "string list \<Rightarrow> net \<Rightarrow> sock_answers \<Rightarrow> (int \<times> rb_status option) res" where
  "rbstatus_main args n a =
     rbind (client_options (getopt ''hs;'' args) None) (\<lambda>r.
       case r of
         None \<Rightarrow> Inr (-1, None)
       | Some d \<Rightarrow> rbind (initialised d) (\<lambda>id.
           rbind (rb_broker_status n a) (\<lambda>(s, n').
             case s of None \<Rightarrow> Inr (-1, None) | Some st \<Rightarrow> Inr (0, Some st))))"

text \<open>\<open>main\<close> of rbparams: the result and the text it prints.\<close>

definition rbparams_main :: "string list \<Rightarrow> net \<Rightarrow> sock_answers \<Rightarrow> (int \<times> string option) res" where
  "rbparams_main args n a =
     rbind (client_options (getopt ''hs;'' args) None) (\<lambda>r.
       case r of
         None \<Rightarrow> Inr (-1, None)
       | Some d \<Rightarrow> rbind (initialised d) (\<lambda>id.
           rbind (rb_broker_params n a) (\<lambda>(s, n').
             case s of
               None \<Rightarrow> Inr (-1, None)
             | Some buf \<Rightarrow> rbind (c_text (buf @ junk n')) (\<lambda>t. Inr (0, Some (t @ [newline]))))))"

section \<open>No option of the commands has an argument\<close>

lemma no_arg_options: "\<not> takes_arg ''hs;'' c"
  by simp

lemma getopt_word_no_args: "(c, arg) \<in> set (fst (getopt_word ''hs;'' w args)) \<Longrightarrow> arg = None"
  by (induction "''hs;''" w args rule: getopt_word.induct)
    (auto simp: no_arg_options simp del: takes_arg.simps split: if_splits prod.splits)

lemma getopt_no_args: "(c, arg) \<in> set (getopt ''hs;'' args) \<Longrightarrow> arg = None"
proof (induction "''hs;''" args rule: getopt.induct)
  case (2 w args)
  then show ?case by (auto simp: Let_def split: if_splits dest: getopt_word_no_args)
qed simp

lemma client_options_no_args:
  "\<forall>(c, arg) \<in> set os. arg = None \<Longrightarrow>
   client_options os None = Inl Null_deref \<or> client_options os None = Inr None \<or>
   client_options os None = Inr (Some None)"
proof (induction os)
  case (Cons p os)
  obtain c where p: "p = (c, None)" using Cons.prems by (cases p) auto
  have id: "get_daemon_id None = Inl Null_deref" by (simp add: get_daemon_id_def)
  from Cons.IH Cons.prems show ?case unfolding p by (auto simp: id)
qed simp

section \<open>Properties\<close>

text \<open>C37. The client commands cannot be used: their option string has a semicolon where the colon should
  be, so \<open>-s\<close> gets no argument and the address is NULL. With \<open>-s\<close> first, as the usage text says, both
  commands dereference NULL, and no command line at all makes either of them succeed.\<close>

theorem client_commands_never_succeed:
  "rbstatus_main (''-s'' # args) n a = Inl Null_deref \<and> rbparams_main (''-s'' # args) n a = Inl Null_deref \<and>
   (\<forall>words r out. rbstatus_main words n a = Inr (r, out) \<longrightarrow> r = -1 \<and> out = None) \<and>
   (\<forall>words r out. rbparams_main words n a = Inr (r, out) \<longrightarrow> r = -1 \<and> out = None)"
proof -
  have s: "client_options (getopt ''hs;'' (''-s'' # args)) None = Inl Null_deref"
    by (simp add: get_daemon_id_def)
  have none: "client_options (getopt ''hs;'' words) None = Inl Null_deref \<or>
      client_options (getopt ''hs;'' words) None = Inr None \<or>
      client_options (getopt ''hs;'' words) None = Inr (Some None)" for words
    using getopt_no_args by (intro client_options_no_args) fastforce
  have "r = -1 \<and> out = None" if "rbstatus_main words n a = Inr (r, out)" for words r out
    using none [of words] that by (auto simp: rbstatus_main_def)
  moreover have "r = -1 \<and> out = None" if "rbparams_main words n a = Inr (r, out)" for words r out
    using none [of words] that by (auto simp: rbparams_main_def)
  ultimately show ?thesis using s by (simp add: rbstatus_main_def rbparams_main_def)
qed

theorem client_commands_never_succeed_witness:
  "rbstatus_main [''-s'', ''127.0.0.1@41200''] no_net demo_listen = Inl Null_deref \<and>
   (\<exists>r out. rbparams_main [''-x''] no_net demo_listen = Inr (r, out) \<and> r = -1 \<and> out = None)"
proof -
  obtain r out where "rbparams_main [''-x''] no_net demo_listen = Inr (r, out)"
    by (simp add: rbparams_main_def)
  with client_commands_never_succeed [of "[''127.0.0.1@41200'']" no_net demo_listen] show ?thesis by blast
qed

end
