(* ===== verification/Names.thy ===== *)
theory Names
  imports RbServer
begin

text \<open>
  The address, name and time functions of \<open>src/lib/libresb.c\<close>, whose results are read where they are
  logged, and the listing of the server (\<open>src/server/rbserver.c\<close>), with what its options make of it.
\<close>

section \<open>Pointers into a finished call\<close>

text \<open>A string that a function returns: NULL, or the address of a local array, which ends with the call.\<close>

datatype string_ptr = Ptr_null | Ptr_local string

text \<open>Printing it with \<open>%s\<close>; the C library prints NULL as \<open>(null)\<close>.\<close>

fun print_ptr :: "string_ptr \<Rightarrow> string res" where
  "print_ptr Ptr_null = Inr ''(null)''"
| "print_ptr (Ptr_local s) = Inl Dangling"

text \<open>The dotted form that \<open>inet_ntop\<close> writes.\<close>

definition dotted :: "32 word \<Rightarrow> string" where
  "dotted w =
     fmt_d (uint (drop_bit 24 w)) @ ''.'' @ fmt_d (uint (take_bit 8 (drop_bit 16 w))) @ ''.'' @
     fmt_d (uint (take_bit 8 (drop_bit 8 w))) @ ''.'' @ fmt_d (uint (take_bit 8 w))"

text \<open>\<open>remote_addr\<close>; \<open>own\<close> is what \<open>getsockname\<close> gives, the address of this end of the connection.\<close>

definition remote_addr :: "32 word option \<Rightarrow> string_ptr" where
  "remote_addr own = (case own of None \<Rightarrow> Ptr_null | Some w \<Rightarrow> Ptr_local (dotted w))"

text \<open>
  \<open>resolve_name\<close>; \<open>found\<close> is what \<open>getaddrinfo\<close> gives, the texts of the addresses. The list is freed before
  \<open>inet_ntop\<close> reads the first address.
\<close>

definition resolve_name :: "string list option \<Rightarrow> string_ptr res" where
  "resolve_name found =
     (case found of
        None \<Rightarrow> Inr Ptr_null
      | Some [] \<Rightarrow> Inr Ptr_null
      | Some (a # as) \<Rightarrow> Inl Dangling)"

text \<open>
  \<open>my_time\<close> with a buffer of \<open>n\<close> bytes; \<open>t\<close> is the text of \<open>ctime_r\<close>, nothing when it fails. The last character is cut.
\<close>

definition my_time :: "nat \<Rightarrow> string option \<Rightarrow> string res" where
  "my_time n t =
     (case t of
        None \<Rightarrow> Inl Uninit_read
      | Some s \<Rightarrow> if n \<le> length s then Inl Buffer_overflow else if s = [] then Inl Buffer_overflow else Inr (butlast s))"

text \<open>\<open>free_daemon_id\<close> reads the structure that it frees.\<close>

definition free_daemon_id :: "rb_daemon_id option \<Rightarrow> unit res" where
  "free_daemon_id d = rbind (nonnull d) (\<lambda>_. Inr ())"

section \<open>The listing of the server\<close>

text \<open>\<open>dump_srv\<close>: the lines that it logs.\<close>

fun dump_machines :: "rb_machine list \<Rightarrow> nat \<Rightarrow> string list res" where
  "dump_machines ms 0 = Inr []"
| "dump_machines [] (Suc n) = Inl Over_read"
| "dump_machines (m # ms) (Suc n) = rbind (dump_machines ms n) (\<lambda>ls. Inr (('' '' @ m_name m @ '':'') # ls))"

definition dump_srv :: "rb_server \<Rightarrow> string list res" where
  "dump_srv srv =
     rbind (dump_machines (s_m srv) (nat (s_num_machines srv))) (\<lambda>ls.
       Inr ((''dump_srv: server name:'' @ (case s_name srv of None \<Rightarrow> ''(null)'' | Some s \<Rightarrow> s) @
              '' is serving machine type: '' @ srv_type2str (s_type srv)) # ''dump_srv: machines:'' # ls))"

section \<open>Lemmas\<close>

lemma remote_addr_unreadable: "print_ptr (remote_addr (Some w)) = Inl Dangling"
  by (simp add: remote_addr_def)

lemma resolve_name_never: "resolve_name found = Inr p \<Longrightarrow> p = Ptr_null"
  by (auto simp: resolve_name_def split: option.splits list.splits)

lemma my_time_ctime: "length s = 24 \<Longrightarrow> 25 < n \<Longrightarrow> my_time n (Some (s @ [newline])) = Inr s"
  by (simp add: my_time_def)

lemma dump_machines_all: "dump_machines ms (length ms) = Inr (map (\<lambda>m. '' '' @ m_name m @ '':'') ms)"
  by (induction ms) (simp_all add: rbind_def)

text \<open>What the options make of the server.\<close>

definition machine_typed :: "rb_machine \<Rightarrow> bool" where
  "machine_typed m \<longleftrightarrow> length (m_name m) < 63 \<and> NUL \<notin> set (m_name m) \<and> m_status m = MACHINE_OFF \<and>
     m_type m \<in> {SERVER_TYPE_VM, SERVER_TYPE_CONTAINER, SERVER_TYPE_CLOUD, 0}"

definition server_typed :: "rb_server \<Rightarrow> bool" where
  "server_typed srv \<longleftrightarrow> s_num_machines srv = int (length (s_m srv)) \<and> (\<forall>m \<in> set (s_m srv). machine_typed m) \<and>
     s_type srv \<in> {SERVER_TYPE_VM, SERVER_TYPE_CONTAINER, SERVER_TYPE_CLOUD, 0}"

lemma file_chunks_size: "l \<in> set (file_chunks n s) \<Longrightarrow> length l \<le> n - 1"
proof (induction n s rule: file_chunks.induct)
  case (1 n s)
  show ?case
  proof (cases "n < 2 \<or> fgets n s = None")
    case True
    then have "file_chunks n s = []" by (auto simp: file_chunks.simps [of n s])
    with 1 show ?thesis by simp
  next
    case False
    then obtain c r where "\<not> n < 2" "fgets n s = Some (c, r)" by auto
    with 1 show ?thesis using fgets_length [of n s c r] by (auto simp: file_chunks.simps [of n s])
  qed
qed

lemma machines_of_typed:
  assumes "machines_of t ls = Inr ms" "\<forall>l \<in> set ls. length l \<le> 63" "t \<in> {SERVER_TYPE_VM, SERVER_TYPE_CONTAINER, SERVER_TYPE_CLOUD, 0}"
  shows "length ms = length ls \<and> (\<forall>m \<in> set ms. machine_typed m)"
  using assms
proof (induction ls arbitrary: ms)
  case (Cons l ls)
  from Cons.prems(1) obtain m ms' where m: "machine_of t l = Inr m" "machines_of t ls = Inr ms'" "ms = m # ms'"
    by (auto simp: rbind_eq_Inr)
  have "cstr l \<noteq> []" using m(1) by (auto simp: machine_of_def split: if_splits)
  moreover have "length (cstr l) \<le> 63" using length_cstr [of l] Cons.prems(2) by auto
  moreover have "NUL \<notin> set (butlast (cstr l))" using cstr_no_NUL [of l] by (auto dest: in_set_butlastD)
  ultimately have "machine_typed m" using m(1) Cons.prems(3) by (cases "cstr l") (auto simp: machine_of_def machine_typed_def split: if_splits)
  with Cons.IH [OF m(2)] Cons.prems m(3) show ?case by simp
qed simp

lemma machine_file_typed:
  assumes "process_machine_file fs name srv = Inr (cc, srv')" "server_typed srv"
  shows "server_typed srv'"
proof (cases "fs name")
  case None
  with assms show ?thesis by (simp add: process_machine_file_def)
next
  case (Some content)
  have "\<forall>l \<in> set (file_chunks 64 content). length l \<le> 63" using file_chunks_size by fastforce
  with assms Some machines_of_typed [OF _ this] show ?thesis
    by (auto simp: process_machine_file_def rbind_eq_Inr Let_def server_typed_def c_int_def split: if_splits)
qed

lemma option_step_typed: "option_step fs opt st = Inr (Some st') \<Longrightarrow> server_typed (o_srv st) \<Longrightarrow> server_typed (o_srv st')"
  by (auto simp: option_step_def rbind_eq_Inr Let_def server_typed_def split: if_split_asm dest: machine_file_typed)

section \<open>Properties\<close>

text \<open>C39. When the command line is accepted, whatever the options and the files they name, the server that they make is well formed: its number of machines is that of
  the machines it has, each has a name of less than 63 characters without a NUL, a known type or none and is off, and
  the type of the server is one of the three or none. So dump_srv never reads past the machines, and lists each.\<close>

theorem server_options_typed:
  assumes "option_loop fs opts opts0 = Inr (Some st)"
  shows "server_typed (o_srv st) \<and>
    (\<exists>a. dump_srv (o_srv st) = Inr (a # ''dump_srv: machines:'' # map (\<lambda>m. '' '' @ m_name m @ '':'') (s_m (o_srv st))))"
proof -
  have "option_loop fs opts st0 = Inr (Some st) \<Longrightarrow> server_typed (o_srv st0) \<Longrightarrow> server_typed (o_srv st)" for st0
  proof (induction opts arbitrary: st0)
    case (Cons opt opts)
    then show ?case by (auto simp: rbind_eq_Inr split: option.splits intro: option_step_typed)
  qed simp
  moreover have "server_typed (o_srv opts0)" by (simp add: server_typed_def opts0_def empty_server_def)
  ultimately have t: "server_typed (o_srv st)" using assms by blast
  then have "nat (s_num_machines (o_srv st)) = length (s_m (o_srv st))" by (simp add: server_typed_def)
  with t show ?thesis by (simp add: dump_srv_def dump_machines_all rbind_def)
qed

theorem server_options_typed_witness:
  "\<exists>st a. option_loop [''hosts'' \<mapsto> machine_lines [''rocky9'', ''blaze'']] [(CHR ''t'', Some ''vm''), (CHR ''m'', Some ''hosts'')] opts0 =
      Inr (Some st) \<and> dump_srv (o_srv st) = Inr [a, ''dump_srv: machines:'', '' rocky9:'', '' blaze:'']"
proof -
  let ?srv = "empty_server\<lparr>s_type := SERVER_TYPE_VM\<rparr>"
  have "\<forall>w \<in> set [''rocky9'', ''blaze'']. machine_line w" "int (length [''rocky9'', ''blaze'']) \<le> INT_MAX"
    "[''hosts'' \<mapsto> machine_lines [''rocky9'', ''blaze'']] ''hosts'' = Some (machine_lines [''rocky9'', ''blaze''])"
    by (simp_all add: machine_line_def INT_MAX_def)
  from process_machine_file_lines [where fs = "[''hosts'' \<mapsto> machine_lines [''rocky9'', ''blaze'']]" and nm = "''hosts''", OF this, of ?srv] obtain srv' where
    m: "process_machine_file [''hosts'' \<mapsto> machine_lines [''rocky9'', ''blaze'']] ''hosts'' ?srv = Inr (0, srv')" "map m_name (s_m srv') = [''rocky9'', ''blaze'']"
    by (auto simp: machine_entry_def)
  then have o: "option_loop [''hosts'' \<mapsto> machine_lines [''rocky9'', ''blaze'']] [(CHR ''t'', Some ''vm''), (CHR ''m'', Some ''hosts'')] opts0 =
      Inr (Some (opts0\<lparr>o_srv := srv'\<rparr>))"
    by (simp add: option_step_def opts0_def strcaseeq_def tolower_def)
  from server_options_typed [OF this] m(2) obtain a where "dump_srv srv' = Inr [a, ''dump_srv: machines:'', '' rocky9:'', '' blaze:'']" by auto
  with o show ?thesis by (intro exI [of _ "opts0\<lparr>o_srv := srv'\<rparr>"]) (simp del: option_loop.simps)
qed

end
