(* ===== verification/Shipped.thy ===== *)
theory Shipped
  imports Resbd
begin

text \<open>
  The configuration file that comes with the program (\<open>conf/resdb.conf\<close>): what the broker makes of it, and what
  follows for its work.
\<close>

text \<open>The file, line by line.\<close>

definition shipped_lines :: "string list" where
  "shipped_lines =
   [[],
    ''[resbd]'',
    '' host = buntu24'',
    '' port = 41200'',
    [],
    ''[params]'',
    '' scheduler = slurm'',
    '' work_dir = /var/local/resb'',
    '' container_runtime = docker'',
    '' vm_runtime = virsh'',
    '' workload_timer = 30 # seconds'',
    ''# we support only log_err, log_info, log_debug'',
    '' log_mask = log_debug'',
    [],
    ''# Code dello schedulatore'',
    ''[queue_1 vm_queue]'',
    '' type = vm'',
    '' name_space = dynamic'',
    '' borrow_factor = 10,2 # every 10 jobs add 2 hosts'',
    [],
    ''[queue_2 container_queue]'',
    '' type = container'',
    '' name_space = dynamic'',
    '' borrow_factor = 5,1 # every 5 jobs add 1 host'']"

definition text_lines :: "string list \<Rightarrow> string" where
  "text_lines ls = concat (map (\<lambda>l. l @ [newline]) ls)"

definition shipped_conf :: string where
  "shipped_conf = text_lines shipped_lines"

definition shipped_broker :: "int \<Rightarrow> bool \<Rightarrow> broker" where
  "shipped_broker now sim = (init_main_data now sim)
     \<lparr>res := (res (init_main_data now sim))\<lparr>host := Some ''buntu24'', port := 41200\<rparr>,
      params := \<lparr>scheduler = Some ''slurm'', work_dir = Some ''/var/local/resb'', container_runtime = Some ''docker'',
        vm_runtime = Some ''virsh'', workload_timer = 30, log_mask = Some ''LOG_DEBUG''\<rparr>,
      queues :=
        [(new_queue ''vm_queue'')\<lparr>q_type := MACHINE_VMS, name_space := Some ''dynamic'', borrow_factor0 := 10, borrow_factor1 := 0\<rparr>,
         (new_queue ''container_queue'')\<lparr>q_type := MACHINE_CONTAINERS, name_space := Some ''dynamic'', borrow_factor0 := 5, borrow_factor1 := 0\<rparr>]\<rparr>"

section \<open>Lines and their meaning\<close>

text \<open>What the parser makes of a line, apart from the handler; then of a file of such lines.\<close>

datatype ini_item = Nothing | Section_line string | Pair_line string string | Bad_line

definition line_item :: "string \<Rightarrow> ini_item" where
  "line_item line =
     (case lskip (rstrip line) of
        [] \<Rightarrow> Nothing
      | c # cs \<Rightarrow>
          if c = CHR '';'' \<or> c = CHR ''#'' then Nothing
          else if c = CHR ''['' then
            (let e = find_char_or_comment cs (CHR '']'')
             in if char_at cs e = CHR '']'' then Section_line (strncpy0 (take e cs) MAX_SECTION) else Bad_line)
          else (case split_pos (c # cs) of
                  None \<Rightarrow> Bad_line
                | Some e \<Rightarrow> Pair_line (rstrip (take e (c # cs))) (value_part (c # cs) e)))"

fun run_items :: "'u handler \<Rightarrow> 'u \<Rightarrow> string option \<Rightarrow> nat \<Rightarrow> ini_item list \<Rightarrow> (nat \<times> 'u) res" where
  "run_items h u sec n [] = Inr (0, u)"
| "run_items h u sec n (Nothing # is) = run_items h u sec (Suc n) is"
| "run_items h u sec n (Section_line s # is) = run_items h u (Some s) (Suc n) is"
| "run_items h u sec n (Bad_line # is) = Inr (Suc n, u)"
| "run_items h u sec n (Pair_line k v # is) =
     rbind (initialised sec) (\<lambda>s. rbind (h u s k v) (\<lambda>(u', r). if r then run_items h u' sec (Suc n) is else Inr (Suc n, u')))"

definition line_ok :: "string \<Rightarrow> bool" where
  "line_ok l \<longleftrightarrow> newline \<notin> set l \<and> NUL \<notin> set l \<and> Suc (length l) < INI_MAX_LINE"

lemma if_swap: "(if \<not> P then x else y) = (if P then y else x)"
  by simp

lemma ini_line_item:
  "ini_line h u sec n 0 line =
     (case line_item line of
        Nothing \<Rightarrow> Inr (u, sec, 0)
      | Section_line s \<Rightarrow> Inr (u, Some s, 0)
      | Bad_line \<Rightarrow> Inr (u, sec, n)
      | Pair_line k v \<Rightarrow> rbind (initialised sec) (\<lambda>s. rbind (h u s k v) (\<lambda>(u', r). Inr (u', sec, if r then 0 else n))))"
  by (auto simp: ini_line_def line_item_def Let_def if_swap split: list.splits option.splits)

lemma ini_loop_items:
  "\<forall>l \<in> set ls. line_ok l \<Longrightarrow> ini_loop h u sec n 0 (text_lines ls) = run_items h u sec n (map (\<lambda>l. line_item (l @ [newline])) ls)"
proof (induction ls arbitrary: u sec n)
  case Nil
  show ?case by (simp add: text_lines_def ini_loop.simps [of h] fgets_def INI_MAX_LINE_def)
next
  case (Cons l ls)
  then have l: "newline \<notin> set l" "NUL \<notin> set l" "Suc (length l) < INI_MAX_LINE" by (simp_all add: line_ok_def)
  have t: "text_lines (l # ls) = l @ newline # text_lines ls" by (simp add: text_lines_def)
  show ?case
  proof (cases "line_item (l @ [newline])")
    case (Pair_line k v)
    show ?thesis
    proof (cases sec)
      case (Some s)
      show ?thesis
      proof (cases "h u s k v")
        case (Inr p)
        with Cons Pair_line Some show ?thesis
          by (cases p; cases "snd p") (simp_all add: t ini_loop_line [OF l] ini_line_item fault_simps)
      qed (use Cons Pair_line Some in \<open>simp add: t ini_loop_line [OF l] ini_line_item fault_simps\<close>)
    qed (use Cons Pair_line in \<open>simp add: t ini_loop_line [OF l] ini_line_item fault_simps\<close>)
  qed (use Cons in \<open>simp_all add: t ini_loop_line [OF l] ini_line_item fault_simps\<close>)
qed

lemma shipped_lines_ok: "\<forall>l \<in> set shipped_lines. line_ok l"
  by code_simp

lemma shipped_items:
  "map (\<lambda>l. line_item (l @ [newline])) shipped_lines =
    [Nothing, Section_line ''resbd'', Pair_line ''host'' ''buntu24'', Pair_line ''port'' ''41200'', Nothing,
     Section_line ''params'', Pair_line ''scheduler'' ''slurm'', Pair_line ''work_dir'' ''/var/local/resb'',
     Pair_line ''container_runtime'' ''docker'', Pair_line ''vm_runtime'' ''virsh'', Pair_line ''workload_timer'' ''30'', Nothing,
     Pair_line ''log_mask'' ''log_debug'', Nothing, Nothing,
     Section_line ''queue_1 vm_queue'', Pair_line ''type'' ''vm'', Pair_line ''name_space'' ''dynamic'', Pair_line ''borrow_factor'' ''10,2'', Nothing,
     Section_line ''queue_2 container_queue'', Pair_line ''type'' ''container'', Pair_line ''name_space'' ''dynamic'', Pair_line ''borrow_factor'' ''5,1'']"
  by code_simp

lemma shipped_resbd:
  "handler b ''resbd'' ''host'' ''buntu24'' = Inr (b\<lparr>res := (res b)\<lparr>host := Some ''buntu24''\<rparr>\<rparr>, True)"
  "handler b ''resbd'' ''port'' ''41200'' = Inr (b\<lparr>res := (res b)\<lparr>port := 41200\<rparr>\<rparr>, True)"
proof -
  have "digit 4 = CHR ''4''" "digit 1 = CHR ''1''" "digit 2 = CHR ''2''" "digit 0 = CHR ''0''" by code_simp+
  then have "fmt_d 41200 = ''41200''" by (simp add: fmt_d_def dec_nat.simps)
  then have "atoi ''41200'' = Inr 41200" using scan_d_fmt_d [of "[]" 41200] by (simp add: atoi_def int_range_simps)
  moreover have "\<not> strcaseeq ''port'' ''host''" by code_simp
  ultimately show "handler b ''resbd'' ''host'' ''buntu24'' = Inr (b\<lparr>res := (res b)\<lparr>host := Some ''buntu24''\<rparr>\<rparr>, True)"
    "handler b ''resbd'' ''port'' ''41200'' = Inr (b\<lparr>res := (res b)\<lparr>port := 41200\<rparr>\<rparr>, True)"
    by (simp_all add: handler_def init_resbd_def)
qed

lemma shipped_params:
  "handler b ''params'' ''scheduler'' ''slurm'' = Inr (b\<lparr>params := (set_default_params (params b))\<lparr>scheduler := Some ''slurm''\<rparr>\<rparr>, True)"
  "handler b ''params'' ''work_dir'' d = Inr (b\<lparr>params := (set_default_params (params b))\<lparr>work_dir := Some d\<rparr>\<rparr>, True)"
  "handler b ''params'' ''container_runtime'' d = Inr (b\<lparr>params := (set_default_params (params b))\<lparr>container_runtime := Some d\<rparr>\<rparr>, True)"
  "handler b ''params'' ''vm_runtime'' d = Inr (b\<lparr>params := (set_default_params (params b))\<lparr>vm_runtime := Some d\<rparr>\<rparr>, True)"
  "handler b ''params'' ''workload_timer'' ''30'' = Inr (b\<lparr>params := (set_default_params (params b))\<lparr>workload_timer := 30\<rparr>\<rparr>, True)"
  "handler b ''params'' ''log_mask'' ''log_debug'' = Inr (b\<lparr>params := (set_default_params (params b))\<lparr>log_mask := Some ''LOG_DEBUG''\<rparr>\<rparr>, True)"
proof -
  have "\<not> strcaseeq ''work_dir'' ''scheduler''" "\<not> strcaseeq ''container_runtime'' ''scheduler''" "\<not> strcaseeq ''vm_runtime'' ''scheduler''"
    "\<not> strcaseeq ''workload_timer'' ''scheduler''" "\<not> strcaseeq ''log_mask'' ''scheduler''" by code_simp+
  moreover have "\<not> strcaseeq ''container_runtime'' ''work_dir''" "\<not> strcaseeq ''vm_runtime'' ''work_dir''"
    "\<not> strcaseeq ''workload_timer'' ''work_dir''" "\<not> strcaseeq ''log_mask'' ''work_dir''" by code_simp+
  moreover have "\<not> strcaseeq ''vm_runtime'' ''container_runtime''" "\<not> strcaseeq ''workload_timer'' ''container_runtime''"
    "\<not> strcaseeq ''log_mask'' ''container_runtime''" "\<not> strcaseeq ''workload_timer'' ''vm_runtime''" "\<not> strcaseeq ''log_mask'' ''vm_runtime''"
    "\<not> strcaseeq ''log_mask'' ''workload_timer''" by code_simp+
  moreover have "\<not> strcaseeq ''scheduler'' ''log_mask''" "\<not> strcaseeq ''work_dir'' ''log_mask''" "\<not> strcaseeq ''container_runtime'' ''log_mask''"
    "\<not> strcaseeq ''vm_runtime'' ''log_mask''" "\<not> strcaseeq ''workload_timer'' ''log_mask''" by code_simp+
  moreover have "atoi ''30'' = Inr 30" "map toupper ''log_debug'' = ''LOG_DEBUG''" by code_simp+
  moreover have "handler b ''params'' k v = init_params b k v" for k v by (rule handler_params)
  ultimately show "handler b ''params'' ''scheduler'' ''slurm'' = Inr (b\<lparr>params := (set_default_params (params b))\<lparr>scheduler := Some ''slurm''\<rparr>\<rparr>, True)"
    "handler b ''params'' ''work_dir'' d = Inr (b\<lparr>params := (set_default_params (params b))\<lparr>work_dir := Some d\<rparr>\<rparr>, True)"
    "handler b ''params'' ''container_runtime'' d = Inr (b\<lparr>params := (set_default_params (params b))\<lparr>container_runtime := Some d\<rparr>\<rparr>, True)"
    "handler b ''params'' ''vm_runtime'' d = Inr (b\<lparr>params := (set_default_params (params b))\<lparr>vm_runtime := Some d\<rparr>\<rparr>, True)"
    "handler b ''params'' ''workload_timer'' ''30'' = Inr (b\<lparr>params := (set_default_params (params b))\<lparr>workload_timer := 30\<rparr>\<rparr>, True)"
    "handler b ''params'' ''log_mask'' ''log_debug'' = Inr (b\<lparr>params := (set_default_params (params b))\<lparr>log_mask := Some ''LOG_DEBUG''\<rparr>\<rparr>, True)"
    by (simp_all add: init_params_def init_params1_def Let_def)
qed

lemma shipped_keys:
  "set_queue_key q ''type'' ''vm'' = Inr (q\<lparr>q_type := MACHINE_VMS\<rparr>)" "set_queue_key q ''type'' ''container'' = Inr (q\<lparr>q_type := MACHINE_CONTAINERS\<rparr>)"
  "set_queue_key q ''name_space'' d = Inr (q\<lparr>name_space := Some d\<rparr>)"
  "set_queue_key q ''borrow_factor'' ''10,2'' = Inr (q\<lparr>borrow_factor0 := 10\<rparr>)" "set_queue_key q ''borrow_factor'' ''5,1'' = Inr (q\<lparr>borrow_factor0 := 5\<rparr>)"
proof -
  have "\<not> strcaseeq ''type'' ''name_space''" "\<not> strcaseeq ''type'' ''borrow_factor''" "\<not> strcaseeq ''name_space'' ''type''"
    "\<not> strcaseeq ''name_space'' ''borrow_factor''" "\<not> strcaseeq ''borrow_factor'' ''type''" "\<not> strcaseeq ''borrow_factor'' ''name_space''"
    "\<not> strcaseeq ''container'' ''vm''" by code_simp+
  moreover have "fmt_d 10 @ '','' @ ''2'' = ''10,2''" "fmt_d 5 @ '','' @ ''1'' = ''5,1''" by code_simp+
  moreover have "scan_factors (fmt_d 10 @ '','' @ ''2'') f = Inr (10, snd f)" "scan_factors (fmt_d 5 @ '','' @ ''1'') f = Inr (5, snd f)" for f
    by (rule scan_factors_comma, simp add: int_range_simps)+
  ultimately show "set_queue_key q ''type'' ''vm'' = Inr (q\<lparr>q_type := MACHINE_VMS\<rparr>)"
      "set_queue_key q ''type'' ''container'' = Inr (q\<lparr>q_type := MACHINE_CONTAINERS\<rparr>)" "set_queue_key q ''name_space'' d = Inr (q\<lparr>name_space := Some d\<rparr>)"
      "set_queue_key q ''borrow_factor'' ''10,2'' = Inr (q\<lparr>borrow_factor0 := 10\<rparr>)" "set_queue_key q ''borrow_factor'' ''5,1'' = Inr (q\<lparr>borrow_factor0 := 5\<rparr>)"
    by (simp_all add: set_queue_key_def queue_type_def Let_def)
qed

lemma shipped_sections: "queue_section ''queue_1 vm_queue'' ''vm_queue''" "queue_section ''queue_2 container_queue'' ''container_queue''"
  by code_simp+

lemma read_shipped: "read_config (Some shipped_conf) (init_main_data now sim) = Inr (0, shipped_broker now sim)"
proof -
  have n: "\<not> strcaseeq ''container_queue'' ''vm_queue''" by code_simp
  have "ini_parse_file shipped_conf handler (init_main_data now sim) = Inr (0, shipped_broker now sim)"
    unfolding ini_parse_file_def shipped_conf_def ini_loop_items [OF shipped_lines_ok] shipped_items
    by (simp add: shipped_resbd shipped_params handler_queue [OF shipped_sections(1)] handler_queue [OF shipped_sections(2)]
        init_queue_def get_queue_by_name_def shipped_keys n init_main_data_def shipped_broker_def new_queue_def set_default_params_def)
  then show ?thesis by (simp add: read_config_def ini_parse_def)
qed

section \<open>Nothing is ever borrowed\<close>

text \<open>Queues for which no machine is ever needed, and simulation files that hold a number.\<close>

definition never_needs :: "queue \<Rightarrow> bool" where
  "never_needs q \<longleftrightarrow> 0 < borrow_factor0 q \<and> borrow_factor1 q = 0"

definition jobs_file :: "string \<Rightarrow> bool" where
  "jobs_file content \<longleftrightarrow> (case scan_d content of None \<Rightarrow> False | Some (j, r) \<Rightarrow> int_range j)"

lemma jobs_file_number: "int_range j \<Longrightarrow> jobs_file (fmt_d j @ [newline])"
  using scan_d_fmt_d [of "[newline]" j] by (simp add: jobs_file_def isdigit_def)

lemma never_needs_machines:
  assumes "never_needs q" "0 \<le> num_pend_jobs q" "int_range (num_pend_jobs q)"
  shows "get_num_machines q = Inr 0"
  using assms c_div_pos [of "num_pend_jobs q" "borrow_factor0 q"]
  by (simp add: get_num_machines_def never_needs_def int_range_simps)

lemma run_simulator_idle:
  assumes "\<forall>content. fs (q_name (queues b ! i)) = Some content \<longrightarrow> jobs_file content" "i < length (queues b)" "\<forall>q \<in> set (queues b). never_needs q"
  shows "\<exists>r b'. run_simulator fs b n i = Inr (r, b', n)"
proof -
  have q: "never_needs (queues b ! i)" using assms(2,3) by simp
  have "\<exists>j. get_pend_jobs_sim fs (q_name (queues b ! i)) = Inr j \<and> int_range j"
    using assms(1) by (cases "fs (q_name (queues b ! i))") (auto simp: get_pend_jobs_sim_def jobs_file_def int_range_simps split: option.splits)
  then obtain j where j: "get_pend_jobs_sim fs (q_name (queues b ! i)) = Inr j" "int_range j" by blast
  have "get_num_machines ((queues b ! i)\<lparr>num_pend_jobs := j\<rparr>) = Inr 0" if "0 \<le> j"
    using never_needs_machines [of "(queues b ! i)\<lparr>num_pend_jobs := j\<rparr>"] q j(2) that by (simp add: never_needs_def)
  with j(1) show ?thesis by (cases "j < 0") (simp_all add: run_simulator_def Let_def)
qed

lemma same_queues_never: "same_queues b b' \<Longrightarrow> (\<forall>q \<in> set (queues b'). never_needs q) \<longleftrightarrow> (\<forall>q \<in> set (queues b). never_needs q)"
proof -
  assume "same_queues b b'"
  then have "(\<lambda>q. q\<lparr>num_pend_jobs := 0\<rparr>) ` set (queues b') = (\<lambda>q. q\<lparr>num_pend_jobs := 0\<rparr>) ` set (queues b)"
    by (metis image_set same_queues_def)
  moreover have "(\<forall>q \<in> A. never_needs q) \<longleftrightarrow> (\<forall>q \<in> (\<lambda>q. q\<lparr>num_pend_jobs := 0\<rparr>) ` A. never_needs q)" for A
    by (simp add: never_needs_def)
  ultimately show ?thesis by metis
qed

lemma workload_loop_idle:
  assumes "\<forall>name content. fs name = Some content \<longrightarrow> jobs_file content"
  shows "\<forall>i \<in> set is. i < length (queues b) \<Longrightarrow> \<forall>q \<in> set (queues b). never_needs q \<Longrightarrow> \<exists>b'. workload_loop fs b n is = Inr (b', n)"
proof (induction "is" arbitrary: b)
  case (Cons i "is")
  show ?case
  proof (cases "simulate b")
    case True
    from run_simulator_idle [of fs b i n] assms Cons.prems obtain r b1 where b1: "run_simulator fs b n i = Inr (r, b1, n)" by auto
    from run_simulator_same [OF b1] Cons.prems(1) have same: "same_queues b b1" by simp
    from Cons.IH [of b1] Cons.prems same_queues_length [OF same] same_queues_never [OF same] b1 True show ?thesis by auto
  qed (use Cons in simp)
qed simp

lemma manage_resources_idle:
  assumes "\<forall>name content. fs name = Some content \<longrightarrow> jobs_file content" "\<forall>q \<in> set (queues (d_broker d)). never_needs q"
  shows "\<exists>chk d'. manage_resources fs t d = Inr (chk, d') \<and> d_net d' = d_net d"
proof -
  have "\<exists>b'. check_queue_workload fs (d_broker d) (d_net d) = Inr (b', d_net d)"
    using workload_loop_idle [OF assms(1), of "[0..<length (queues (d_broker d))]" "d_broker d" "d_net d"] assms(2)
    by (simp add: check_queue_workload_def)
  then show ?thesis by (auto simp: manage_resources_def)
qed

text \<open>What the main loop keeps of the queues.\<close>

definition bare_queues :: "broker \<Rightarrow> queue list" where
  "bare_queues b = map (\<lambda>q. q\<lparr>num_pend_jobs := 0\<rparr>) (queues b)"

lemma resbd_step_queues:
  assumes "resbd_step d d'" "daemon_ok d"
  shows "bare_queues (d_broker d') = bare_queues (d_broker d)"
proof -
  from assms(1) obtain k es fs t chk where k: "kernel_ok k" "resbd_turn fs k es t d = Inr (chk, d')" by (auto elim: resbd_stepE)
  then obtain r b n where ev: "handle_events k (d_broker d) (d_net d) es = Inr (r, b, n)"
    and man: "manage_resources fs t (d\<lparr>d_broker := b, d_net := n\<rparr>) = Inr (chk, d')"
    by (auto simp: resbd_turn_def fault_simps)
  from handle_events_keeps [OF ev k(1)] assms(2) have "queues b = queues (d_broker d)" by (simp add: daemon_ok_def same_config_def)
  with manage_resources_keeps [OF man] show ?thesis by (simp add: same_queues_def bare_queues_def)
qed

lemma resbd_steps_queues: "resbd_step\<^sup>*\<^sup>* d0 d \<Longrightarrow> daemon_ok d0 \<Longrightarrow> daemon_ok d \<and> bare_queues (d_broker d) = bare_queues (d_broker d0)"
  by (induction rule: rtranclp_induct) (auto dest: resbd_step_queues resbd_step_keeps)

section \<open>Properties\<close>

text \<open>C5. As it is shipped the program lends nothing: when the broker is started with conf/resdb.conf, then in every state its main loop
  reaches, whatever servers have registered, whatever the clients do and however many jobs the simulation files announce, the periodic check
  ends without reading or writing a byte, and the queues are the two of the file with no machines. The file says that every 10 jobs add 2 hosts
  and every 5 jobs add 1, but of 10,2 and 5,1 only the first number is read and the other one stays 0.\<close>

theorem shipped_never_borrows:
  assumes "resbd_start (Some shipped_conf) now sim n a = Inr d0" "server_socket_made a" "resbd_step\<^sup>*\<^sup>* d0 d"
    and "\<forall>name content. fs name = Some content \<longrightarrow> jobs_file content"
  shows "\<exists>chk d'. manage_resources fs t d = Inr (chk, d') \<and> d_net d' = d_net d \<and>
    map (\<lambda>q. (q_name q, machines q, borrow_factor0 q, borrow_factor1 q)) (queues (d_broker d')) =
      [(''vm_queue'', [], 10, 0), (''container_queue'', [], 5, 0)]"
proof -
  have "queues (d_broker d0) = queues (shipped_broker now sim)"
    using assms(1) by (auto simp: resbd_start_def read_shipped open_log_def Let_def split_def)
  with resbd_steps_queues [OF assms(3)] resbd_start_ok [OF assms(1,2)]
  have d: "bare_queues (d_broker d) = bare_queues (shipped_broker now sim)" by (simp add: bare_queues_def)
  have see: "map f (queues b) = map f (bare_queues b)" if "\<And>q. f (q\<lparr>num_pend_jobs := 0\<rparr>) = f q" for f :: "queue \<Rightarrow> 'x" and b
    using that by (simp add: bare_queues_def)
  have "list_all never_needs (queues (d_broker d)) = list_all never_needs (bare_queues (shipped_broker now sim))"
    unfolding d [symmetric] by (simp add: bare_queues_def list_all_length never_needs_def)
  then have "\<forall>q \<in> set (queues (d_broker d)). never_needs q"
    by (simp add: list_all_iff never_needs_def bare_queues_def shipped_broker_def new_queue_def)
  from manage_resources_idle [OF assms(4) this] obtain chk d' where m: "manage_resources fs t d = Inr (chk, d')" "d_net d' = d_net d" by blast
  from manage_resources_keeps [OF m(1)] d have "bare_queues (d_broker d') = bare_queues (shipped_broker now sim)"
    by (simp add: same_queues_def bare_queues_def)
  then have "map (\<lambda>q. (q_name q, machines q, borrow_factor0 q, borrow_factor1 q)) (queues (d_broker d')) =
      [(''vm_queue'', [], 10, 0), (''container_queue'', [], 5, 0)]"
    by (subst see) (simp_all add: shipped_broker_def bare_queues_def new_queue_def)
  with m show ?thesis by (intro exI conjI)
qed

theorem shipped_never_borrows_witness:
  "\<exists>d0 chk d'. resbd_start (Some shipped_conf) 100 True no_net demo_listen = Inr d0 \<and>
    manage_resources [''vm_queue'' \<mapsto> ''1000'' @ [newline]] 110 d0 = Inr (chk, d') \<and> d_net d' = d_net d0"
proof -
  have s: "server_socket_made demo_listen" by (rule demo_start(2))
  from nio_server_init_ok [OF this, of no_net] obtain d0 where d0: "resbd_start (Some shipped_conf) 100 True no_net demo_listen = Inr d0"
    by (simp add: resbd_start_def read_shipped open_log_def Let_def split_def)
  have "\<forall>name content. [''vm_queue'' \<mapsto> fmt_d 1000 @ [newline]] name = Some content \<longrightarrow> jobs_file content"
    using jobs_file_number [of 1000] by (simp add: int_range_simps)
  moreover have "fmt_d 1000 = ''1000''" by code_simp
  ultimately have "\<forall>name content. [''vm_queue'' \<mapsto> ''1000'' @ [newline]] name = Some content \<longrightarrow> jobs_file content" by simp
  from shipped_never_borrows [OF d0 s rtranclp.rtrancl_refl this, of 110] d0 show ?thesis by blast
qed

end
