(* ===== verification/Channel.thy ===== *)
theory Channel
  imports DList Nio
begin

text \<open>
  The control channels of \<open>src/lib/nio2.c\<close>, the network library of a relay daemon that shares this
  repository: blocking input and output, the table of control connections, and messages that are
  read and written in pieces on sockets that do not block. The header with the structures of this
  file is not in the repository; the records here have the fields that the code uses. The message
  header (its size and \<open>xdr_pyxheader\<close>) and memory allocation are parameters.
\<close>

unbundle bit_operations_syntax

section \<open>What the kernel answers\<close>

text \<open>
  One call of \<open>read\<close> or \<open>write\<close> on a socket that does not block. \<open>EWOULDBLOCK\<close> is \<open>EAGAIN\<close>. A read
  of no bytes is the end of file.
\<close>

datatype errno = EAGAIN | EINTR | EOTHER

datatype rd_answer = Rd_bytes "char list" | Rd_errno errno

datatype wr_answer = Wr_bytes nat | Wr_errno errno

text \<open>What a stream of events answers to the next \<open>read\<close> of up to \<open>n\<close> bytes.\<close>

definition sock_answer :: "nat \<Rightarrow> rd_event list \<Rightarrow> rd_answer \<times> rd_event list" where
  "sock_answer n es =
     (if n = 0 then (Rd_bytes [], es)
      else case sys_read n es of
        None \<Rightarrow> (Rd_errno EAGAIN, [])
      | Some (Got bs, es') \<Rightarrow> (Rd_bytes bs, es')
      | Some (Got_eof, es') \<Rightarrow> (Rd_bytes [], es')
      | Some (Got_intr, es') \<Rightarrow> (Rd_errno EINTR, es')
      | Some (Got_error, es') \<Rightarrow> (Rd_errno EOTHER, es'))"

definition EPOLLIN :: "32 word" where "EPOLLIN = 1"
definition EPOLLOUT :: "32 word" where "EPOLLOUT = 4"
definition POLLIN :: "32 word" where "POLLIN = 1"
definition POLLERR :: "32 word" where "POLLERR = 8"

section \<open>Lists of structures\<close>

text \<open>
  The lists of \<open>list.c\<close>, here as the sequence that \<open>dlist_rep\<close> relates to the nodes. Inserting a node
  that is in a list already, or removing one that is not, destroys the links: a fault.
\<close>

definition seq_enque :: "nat list \<Rightarrow> nat \<Rightarrow> nat list res" where
  "seq_enque q x = (if x \<in> set q then Inl Dangling else Inr (q @ [x]))"

definition seq_push :: "nat list \<Rightarrow> nat \<Rightarrow> nat list res" where
  "seq_push q x = (if x \<in> set q then Inl Dangling else Inr (x # q))"

definition seq_rm :: "nat list \<Rightarrow> nat \<Rightarrow> nat list res" where
  "seq_rm q x =
     (if q = [] then Inr q else if x \<in> set q then Inr (remove1 x q) else Inl Dangling)"

fun seq_pop :: "nat list \<Rightarrow> nat option \<times> nat list" where
  "seq_pop [] = (None, [])"
| "seq_pop (x # q) = (Some x, q)"

text \<open>These are what \<open>list.c\<close> does to the nodes.\<close>

lemma seq_enque_refines:
  assumes "dlist_rep h l q" "seq_enque q x = Inr q'" "nodes h x \<noteq> None" "x \<noteq> l" "int (length q) < INT_MAX"
  shows "\<exists>h'. listenque h (Some l) (Some x) = Inr (0, h') \<and> dlist_rep h' l q' \<and> dom (nodes h') = dom (nodes h)"
  using listinsert_rep [of h l q "[]" x] assms
  by (auto simp: seq_enque_def listenque_def assert_ptrs_def split: if_splits)

lemma seq_push_refines:
  assumes "dlist_rep h l q" "seq_push q x = Inr q'" "nodes h x \<noteq> None" "x \<noteq> l" "int (length q) < INT_MAX"
  shows "\<exists>h'. listpush h (Some l) (Some x) = Inr (0, h') \<and> dlist_rep h' l q' \<and> dom (nodes h') = dom (nodes h)"
  using listinsert_rep [of h l "[]" q x] dlist_rep_ends [OF assms(1)] assms
  by (auto simp: seq_push_def listpush_def get_node_def split: if_splits)

lemma seq_rm_refines:
  assumes "dlist_rep h l q" "seq_rm q x = Inr q'" "x \<in> set q" "int (length q) \<le> INT_MAX"
  shows "\<exists>h'. listrm h (Some l) (Some x) = Inr (Some x, h') \<and> dlist_rep h' l q' \<and> dom (nodes h') = dom (nodes h)"
proof -
  from split_list_first [OF assms(3)] obtain ys zs where q: "q = ys @ x # zs" "x \<notin> set ys" by blast
  with assms(2) have "q' = ys @ zs" by (auto simp: seq_rm_def remove1_append split: if_splits)
  with listrm_rep [of h l ys x zs] assms(1,4) q show ?thesis by auto
qed

lemma seq_pop_refines:
  assumes "dlist_rep h l q" "seq_pop q = (r, q')" "int (length q) \<le> INT_MAX"
  shows "\<exists>h'. listpop h (Some l) = Inr (r, h') \<and> dlist_rep h' l q' \<and> dom (nodes h') = dom (nodes h)"
  using assms listdeque_empty [of h l] listdeque_rep [of h l "the r" q'] by (cases q) (auto simp: listpop_def)

section \<open>Blocking input and output\<close>

text \<open>
  \<open>nioreadblock\<close>: as in \<open>nio.c\<close>, but with an \<open>int\<close> count. The value returned is the length it was called with, so a
  negative length comes back at once, which callers take for a failure; the bytes stored are kept beside it.
\<close>

function nioread_loop :: "int \<Rightarrow> rd_event list \<Rightarrow> char list \<Rightarrow> rd_result \<times> rd_event list" where
  "nioread_loop L es buf =
     (if 0 < L then
        (case sys_read (nat L) es of
           None \<Rightarrow> (Read_blocks, [])
         | Some (Got bs, es') \<Rightarrow> nioread_loop (L - int (length bs)) es' (buf @ bs)
         | Some (Got_intr, es') \<Rightarrow> nioread_loop L es' buf
         | Some (Got_eof, es') \<Rightarrow> (Read_fail, es')
         | Some (Got_error, es') \<Rightarrow> (Read_fail, es'))
      else (Read_ok buf, es))"
  by pat_completeness auto
termination
  by (relation "measure (\<lambda>(L, es, buf). pending_work es)") (auto dest: sys_read_Got sys_read_intr)

declare nioread_loop.simps [simp del]

definition nioreadblock :: "int \<Rightarrow> rd_event list \<Rightarrow> (int \<times> char list \<times> rd_event list) res" where
  "nioreadblock L es =
     (case nioread_loop L es [] of
        (Read_ok buf, es') \<Rightarrow> Inr (L, buf, es')
      | (Read_fail, es') \<Rightarrow> Inr (-1, [], es')
      | (Read_blocks, es') \<Rightarrow> Inl Blocks)"

text \<open>
  \<open>niowriteblock\<close> and \<open>niowritenonblock\<close>: every call passes the whole length \<open>L\<close> from a pointer that
  moves; the count \<open>L2\<close> is an \<open>int\<close>, so the loop ends when it is zero or less. The second retries
  at \<open>EAGAIN\<close> too. The kernel takes at least one byte or fails; a call with no answer left blocks.
\<close>

fun niowrite_loop :: "errno set \<Rightarrow> char list \<Rightarrow> nat \<Rightarrow> nat \<Rightarrow> int \<Rightarrow> wr_answer list \<Rightarrow> char list \<Rightarrow>
    (wr_result \<times> char list \<times> wr_answer list) res" where
  "niowrite_loop retry mem L off L2 es wire =
     (if 0 < L2 then
        (case es of
           [] \<Rightarrow> Inr (Write_blocks, wire, [])
         | Wr_bytes n # es' \<Rightarrow>
             (let c = min n L
              in if length mem < off + c then Inl Over_read
                 else niowrite_loop retry mem L (off + c) (L2 - int c) es' (wire @ take c (drop off mem)))
         | Wr_errno e # es' \<Rightarrow>
             (if e \<in> retry then niowrite_loop retry mem L off L2 es' wire
              else Inr (Write_fail, wire, es')))
      else Inr (Write_ok L, wire, es))"

declare niowrite_loop.simps [simp del]

definition niowriteblock :: "char list \<Rightarrow> nat \<Rightarrow> wr_answer list \<Rightarrow> (wr_result \<times> char list \<times> wr_answer list) res" where
  "niowriteblock mem L es = niowrite_loop {EINTR} mem L 0 (int L) es []"

definition niowritenonblock :: "char list \<Rightarrow> nat \<Rightarrow> wr_answer list \<Rightarrow> (wr_result \<times> char list \<times> wr_answer list) res" where
  "niowritenonblock mem L es = niowrite_loop {EINTR, EAGAIN} mem L 0 (int L) es []"

lemma nioread_loop_nat: "nioread_loop L es buf = readblock_loop (nat L) es buf"
proof (induction L es buf rule: nioread_loop.induct)
  case (1 L es buf)
  note unf = nioread_loop.simps [of L es buf] readblock_loop.simps [of "nat L" es buf]
  show ?case
  proof (cases "0 < L")
    case L: True
    show ?thesis
    proof (cases "sys_read (nat L) es")
      case None
      with L show ?thesis by (simp add: unf)
    next
      case (Some p)
      obtain r es' where p: "p = (r, es')" by (cases p)
      show ?thesis
      proof (cases r)
        case (Got bs)
        have "nat (L - int (length bs)) = nat L - length bs" by simp
        then show ?thesis using 1(1) [OF L Some p [symmetric] Got] L Some p Got by (simp add: unf)
      next
        case Got_intr
        then show ?thesis using 1(2) [OF L Some p [symmetric] Got_intr] L Some p by (simp add: unf)
      qed (use L Some p in \<open>simp_all add: unf\<close>)
    qed
  qed (simp add: nioread_loop.simps readblock_loop.simps)
qed

lemma niowrite_loop_steps:
  "\<not> 0 < L2 \<Longrightarrow> niowrite_loop retry mem L off L2 es wire = Inr (Write_ok L, wire, es)"
  "0 < L2 \<Longrightarrow> niowrite_loop retry mem L off L2 [] wire = Inr (Write_blocks, wire, [])"
  "0 < L2 \<Longrightarrow> niowrite_loop retry mem L off L2 (Wr_bytes n # es) wire =
     (if length mem < off + min n L then Inl Over_read
      else niowrite_loop retry mem L (off + min n L) (L2 - int (min n L)) es (wire @ take (min n L) (drop off mem)))"
  "0 < L2 \<Longrightarrow> niowrite_loop retry mem L off L2 (Wr_errno e # es) wire =
     (if e \<in> retry then niowrite_loop retry mem L off L2 es wire else Inr (Write_fail, wire, es))"
  by (simp_all add: niowrite_loop.simps [of _ _ _ _ _ es] niowrite_loop.simps [of _ _ _ _ _ "[]"]
      niowrite_loop.simps [of _ _ _ _ _ "_ # es"] Let_def)

lemma niowrite_loop_wire:
  "niowrite_loop retry mem L off (int L - int off) es (take off mem) = Inr (r, wire, es') \<Longrightarrow>
   off \<le> length mem \<Longrightarrow> off < 2 * L \<Longrightarrow>
   wire = take (length wire) mem \<and> length wire < 2 * L \<and> (\<forall>n. r = Write_ok n \<longrightarrow> n = L \<and> L \<le> length wire)"
proof (induction es arbitrary: off)
  case Nil
  then show ?case by (cases "off < L") (auto simp: niowrite_loop_steps min_def)
next
  case (Cons a es)
  show ?case
  proof (cases "off < L")
    case True
    show ?thesis
    proof (cases a)
      case (Wr_bytes n)
      let ?c = "min n L"
      from Cons.prems(1) True Wr_bytes have c: "off + ?c \<le> length mem"
        and n: "niowrite_loop retry mem L (off + ?c) (int L - int off - int ?c) es (take off mem @ take ?c (drop off mem)) = Inr (r, wire, es')"
        by (auto simp: niowrite_loop_steps split: if_splits)
      moreover have "take off mem @ take ?c (drop off mem) = take (off + ?c) mem" by (rule take_add [symmetric])
      moreover have "int L - int off - int ?c = int L - int (off + ?c)" by simp
      ultimately have "niowrite_loop retry mem L (off + ?c) (int L - int (off + ?c)) es (take (off + ?c) mem) = Inr (r, wire, es')"
        by metis
      moreover have "off + ?c < 2 * L" using True by linarith
      ultimately show ?thesis using Cons.IH [of "off + ?c"] c by blast
    next
      case (Wr_errno e)
      show ?thesis
      proof (cases "e \<in> retry")
        case r: True
        with Cons.prems(1) True Wr_errno have
          "niowrite_loop retry mem L off (int L - int off) es (take off mem) = Inr (r, wire, es')"
          by (simp add: niowrite_loop_steps)
        from Cons.IH [OF this Cons.prems(2,3)] show ?thesis .
      qed (use Cons.prems True Wr_errno in \<open>auto simp: niowrite_loop_steps min_def\<close>)
    qed
  qed (use Cons.prems in \<open>auto simp: niowrite_loop_steps min_def\<close>)
qed

lemma niowrite_loop_worst:
  assumes "Suc k = length buf" "k \<le> length beyond"
  shows "niowrite_loop retry (buf @ beyond) (length buf) 0 (int (length buf)) [Wr_bytes k, Wr_bytes (length buf)] [] =
    Inr (Write_ok (length buf), buf @ take k beyond, [])"
proof -
  let ?L = "length buf" and ?mem = "buf @ beyond"
  have "take k ?mem @ take ?L (drop k ?mem) = take (k + ?L) ?mem" by (rule take_add [symmetric])
  then have t: "take k ?mem @ take ?L (drop k ?mem) = buf @ take k beyond" by simp
  have "min k ?L = k" "0 < int ?L" "int ?L - int k = 1" "\<not> length ?mem < 0 + k" "\<not> length ?mem < k + ?L" using assms by auto
  then show ?thesis using assms t by (simp only: niowrite_loop_steps min.idem) (simp add: niowrite_loop_steps)
qed

section \<open>Control connections\<close>

text \<open>
  A message buffer: its first bytes as far as they are known, how much of it is done (\<open>p\<close>) and its
  length (\<open>L\<close>). A control connection has one queue for each direction, front first. All of them are
  allocated at the start; the ones without connection are in \<open>ctrlcache\<close>, the ones with a message
  to process in \<open>ctrlist\<close>, both linked through the same two fields.
\<close>

record nio_buf =
  nb_buf :: "char list"
  nb_p :: nat
  nb_L :: nat

record nio_ctrl =
  c_s :: int
  c_ev :: "32 word option"
  c_rcv :: "nio_buf list"
  c_snd :: "nio_buf list"
  c_revents :: "32 word"
  c_accepting :: nat
  c_linked :: bool    \<comment> \<open>the links are not NULL: it has been in a list\<close>

record channels =
  ctrl :: "nat \<Rightarrow> nio_ctrl"
  ctrlcache :: "nat list"
  ctrlarray :: "nat \<Rightarrow> nat option"
  ctrlist :: "nat list"
  epolled :: "int \<Rightarrow> 32 word option"  \<comment> \<open>the epoll set of the kernel\<close>
  sent :: "int \<Rightarrow> char list"           \<comment> \<open>what the kernel has taken on each socket\<close>

record pyx_env =
  hdr_size :: nat                     \<comment> \<open>sizeof (struct pyxheader)\<close>
  hdr_len :: "char list \<Rightarrow> nat option"  \<comment> \<open>xdr_pyxheader: the field len, or failure\<close>
  alloc_ok :: "nat \<Rightarrow> bool"           \<comment> \<open>calloc and realloc return memory\<close>

definition upd_ctrl :: "('z channels_scheme) \<Rightarrow> nat \<Rightarrow> (nio_ctrl \<Rightarrow> nio_ctrl) \<Rightarrow> 'z channels_scheme" where
  "upd_ctrl st i f = st\<lparr>ctrl := (ctrl st)(i := f (ctrl st i))\<rparr>"

definition epoll_mod :: "('z channels_scheme) \<Rightarrow> int \<Rightarrow> 32 word \<Rightarrow> 'z channels_scheme" where
  "epoll_mod st s ev =
     (case epolled st s of None \<Rightarrow> st | Some _ \<Rightarrow> st\<lparr>epolled := (epolled st)(s \<mapsto> ev)\<rparr>)"

text \<open>\<open>nioshutctrl\<close>; \<open>shut\<close> is 0 when a relay has taken over the socket.\<close>

definition nioshutctrl :: "('z channels_scheme) \<Rightarrow> nat \<Rightarrow> bool \<Rightarrow> ('z channels_scheme) res" where
  "nioshutctrl st i shut =
     (let c = ctrl st i in
      if c_s c = -1 then Inr st
      else
        let st1 = (if shut then upd_ctrl (st\<lparr>epolled := (epolled st)(c_s c := None)\<rparr>) i (c_s_update (\<lambda>_. -1)) else st);
            st2 = upd_ctrl st1 i (\<lambda>c. c\<lparr>c_ev := None, c_snd := [], c_rcv := [], c_accepting := 0, c_revents := 0\<rparr>)
        in rbind (if c_linked c then seq_enque (ctrlcache st2) i else Inr (ctrlcache st2)) (\<lambda>q.
             Inr (st2\<lparr>ctrlcache := q, ctrlarray := (ctrlarray st2)(i := None)\<rparr>)))"

text \<open>
  \<open>nioacceptctrl\<close>: \<open>a\<close> is what \<open>accept\<close> returns, \<open>added\<close> whether \<open>epoll_ctl\<close> succeeds. Without a free
  structure the connection is accepted and closed.
\<close>

definition nioacceptctrl :: "('z channels_scheme) \<Rightarrow> int \<Rightarrow> bool \<Rightarrow> (nat option \<times> 'z channels_scheme) res" where
  "nioacceptctrl st a added =
     (case seq_pop (ctrlcache st) of
        (None, q) \<Rightarrow> Inr (None, st)
      | (Some i, q) \<Rightarrow>
          let st1 = upd_ctrl (st\<lparr>ctrlcache := q\<rparr>) i (\<lambda>c. c\<lparr>c_revents := 0, c_s := a\<rparr>) in
          if a < 0 then rbind (seq_push q i) (\<lambda>q'. Inr (None, st1\<lparr>ctrlcache := q'\<rparr>))
          else
            let st2 = upd_ctrl st1 i (c_ev_update (\<lambda>_. Some EPOLLIN)) in
            if \<not> added then rbind (nioshutctrl st2 i True) (\<lambda>st3. Inr (None, st3))
            else Inr (Some i, st2\<lparr>epolled := (epolled st2)(a \<mapsto> EPOLLIN), ctrlarray := (ctrlarray st2)(i \<mapsto> i)\<rparr>))"

section \<open>Messages in pieces\<close>

text \<open>
  \<open>nioasyncread\<close>. \<open>es\<close> is what the socket will answer. One message is assembled at a time, in the last
  buffer of the queue. Every error code is different from one of the three, so each is fatal.
\<close>

definition rcv_buffer :: "'e pyx_env_scheme \<Rightarrow> nio_ctrl \<Rightarrow> nio_buf" where
  "rcv_buffer env c =
     (let b = (if c_rcv c = [] then \<lparr>nb_buf = [], nb_p = 0, nb_L = 0\<rparr> else last (c_rcv c))
      in if nb_L b = 0 then \<lparr>nb_buf = [], nb_p = 0, nb_L = hdr_size env\<rparr> else b)"

definition message_ready :: "'z channels_scheme \<Rightarrow> nat \<Rightarrow> ('z channels_scheme) res" where
  "message_ready st i =
     rbind (seq_enque (ctrlist st) i) (\<lambda>q. Inr (upd_ctrl (st\<lparr>ctrlist := q\<rparr>) i (c_revents_update (\<lambda>_. POLLIN))))"

definition put_rcv :: "'z channels_scheme \<Rightarrow> nat \<Rightarrow> nio_buf list \<Rightarrow> nio_buf \<Rightarrow> 'z channels_scheme" where
  "put_rcv st i q b = upd_ctrl st i (c_rcv_update (\<lambda>_. q @ [b]))"

definition check_ready :: "'z channels_scheme \<Rightarrow> nat \<Rightarrow> nio_buf \<Rightarrow> ('z channels_scheme) res" where
  "check_ready st i b = (if nb_p b = nb_L b then message_ready st i else Inr st)"

text \<open>After a read: when the header is complete, the buffer grows to the length it announces.\<close>

definition async_received :: "'e pyx_env_scheme \<Rightarrow> 'z channels_scheme \<Rightarrow> nat \<Rightarrow> nio_buf list \<Rightarrow> nio_buf \<Rightarrow> char list \<Rightarrow>
    (int \<times> 'z channels_scheme) res" where
  "async_received env st i q b bs =
     (let b1 = b\<lparr>nb_buf := nb_buf b @ bs, nb_p := nb_p b + length bs\<rparr>;
          hdr = (if nb_L b1 = hdr_size env \<and> nb_p b1 = nb_L b1 then hdr_len env (nb_buf b1) else Some 0)
      in (case hdr of
            None \<Rightarrow> Inr (-1, upd_ctrl (put_rcv st i q b1) i (c_revents_update (\<lambda>_. POLLERR)))
          | Some l \<Rightarrow>
              if l \<noteq> 0 \<and> \<not> alloc_ok env (hdr_size env + l) then Inl Assert_fail
              else
                let b2 = (if l \<noteq> 0 then b1\<lparr>nb_L := hdr_size env + l\<rparr> else b1)
                in rbind (check_ready (put_rcv st i q b2) i b2) (\<lambda>st1. Inr (int (nb_p b2), st1))))"

definition nioasyncread :: "'e pyx_env_scheme \<Rightarrow> 'z channels_scheme \<Rightarrow> nat \<Rightarrow> rd_event list \<Rightarrow>
    (int \<times> 'z channels_scheme \<times> rd_event list) res" where
  "nioasyncread env st i es =
     (let c = ctrl st i; b = rcv_buffer env c; q = butlast (c_rcv c)
      in if (c_rcv c = [] \<or> nb_L (last (c_rcv c)) = 0) \<and> \<not> alloc_ok env (hdr_size env) then Inl Assert_fail
      else
        rbind (check_ready (put_rcv st i q b) i b) (\<lambda>st1.
        case sock_answer (nb_L b - nb_p b) es of
          (Rd_errno e, es') \<Rightarrow> Inr (if e \<noteq> EINTR \<or> e \<noteq> EAGAIN then -1 else int (nb_p b), st1, es')
        | (Rd_bytes bs, es') \<Rightarrow>
            if bs = [] then Inr (0, st1, es')
            else rbind (async_received env st1 i q b bs) (\<lambda>(r, st2). Inr (r, st2, es'))))"

text \<open>
  \<open>nioasyncwrite\<close>: the loop starts at the last buffer of the queue and goes to the front (\<open>j\<close> is the
  position), but a buffer that is done takes the first one out of the queue, whichever it is. When that
  is the next one of the loop, the loop would go on in freed memory.
\<close>

fun asyncwrite_loop :: "nat \<Rightarrow> 'z channels_scheme \<Rightarrow> nat \<Rightarrow> bool \<Rightarrow> wr_answer list \<Rightarrow> nat \<Rightarrow>
    (int \<times> 'z channels_scheme) res" where
  "asyncwrite_loop j st i writeall ans wrote =
     (let c = ctrl st i; b = c_snd c ! j in
      case ans of
        [] \<Rightarrow> Inr (-1, st)
      | Wr_errno e # _ \<Rightarrow>
          Inr (-1, if e \<noteq> EAGAIN \<and> e \<noteq> EINTR then upd_ctrl st i (c_revents_update (\<lambda>_. POLLERR)) else st)
      | Wr_bytes n # ans' \<Rightarrow>
          let m = min n (nb_L b - nb_p b); b1 = b\<lparr>nb_p := nb_p b + m\<rparr>;
              fin = (nb_p b1 = nb_L b1);
              q = (if fin then tl ((c_snd c)[j := b1]) else (c_snd c)[j := b1]);
              st1 = upd_ctrl (st\<lparr>sent := (sent st)(c_s c := sent st (c_s c) @ take m (drop (nb_p b) (nb_buf b)))\<rparr>)
                      i (c_snd_update (\<lambda>_. q))
          in if length (nb_buf b) < nb_p b + m then Inl Over_read
             else if j = 0 \<or> \<not> writeall then Inr (int (wrote + m), st1)
             else if fin \<and> j = 1 then Inl Dangling
             else asyncwrite_loop (if fin then j - 2 else j - 1) st1 i writeall ans' (wrote + m))"

declare asyncwrite_loop.simps [simp del]

definition nioasyncwrite :: "'z channels_scheme \<Rightarrow> nat \<Rightarrow> bool \<Rightarrow> wr_answer list \<Rightarrow> (int \<times> 'z channels_scheme) res" where
  "nioasyncwrite st i writeall ans =
     (if c_snd (ctrl st i) = [] then Inr (0, st)
      else asyncwrite_loop (length (c_snd (ctrl st i)) - 1) st i writeall ans 0)"

definition niopreparewrite :: "'z channels_scheme \<Rightarrow> nat \<Rightarrow> char list \<Rightarrow> nat \<Rightarrow> (int \<times> 'z channels_scheme) res" where
  "niopreparewrite st i ubuf sz =
     rbind (nonnull (c_ev (ctrl st i))) (\<lambda>ev.
       let ev1 = ev OR (EPOLLIN OR EPOLLOUT);
           st1 = epoll_mod (upd_ctrl st i (c_ev_update (\<lambda>_. Some ev1))) (c_s (ctrl st i)) ev1
       in Inr (0, upd_ctrl st1 i (\<lambda>c. c\<lparr>c_snd := c_snd c @ [\<lparr>nb_buf = ubuf, nb_p = 0, nb_L = sz\<rparr>]\<rparr>)))"

section \<open>Lemmas on messages\<close>

definition all_data :: "rd_event list \<Rightarrow> bool" where
  "all_data es \<longleftrightarrow> (\<forall>e \<in> set es. \<exists>bs. e = Data bs)"

lemma all_data_Cons: "all_data (e # es) \<longleftrightarrow> (\<exists>bs. e = Data bs) \<and> all_data es"
  by (simp add: all_data_def)

lemma sys_read_data:
  "all_data es \<Longrightarrow> 0 < n \<Longrightarrow> stream_bytes es \<noteq> [] \<Longrightarrow>
   \<exists>x xs es'. sys_read n es = Some (Got (x # xs), es') \<and> length (x # xs) \<le> n \<and>
     stream_bytes es = (x # xs) @ stream_bytes es' \<and> all_data es'"
proof (induction n es rule: sys_read.induct)
  case (2 n bs es)
  show ?case
  proof (cases bs)
    case Nil
    with 2 show ?thesis by (simp add: all_data_Cons)
  next
    case (Cons x xs)
    with 2(3) have "take n bs = x # take (n - 1) xs" by (cases n) auto
    with 2(2,3) Cons show ?thesis by (cases n) (auto simp: all_data_Cons)
  qed
qed (auto simp: all_data_Cons)

text \<open>A message \<open>m\<close> of which \<open>k\<close> bytes have been received.\<close>

definition receiving :: "'e pyx_env_scheme \<Rightarrow> char list \<Rightarrow> nat \<Rightarrow> nio_buf list \<Rightarrow> bool" where
  "receiving env m k q \<longleftrightarrow> k < length m \<and>
     (q = [] \<and> k = 0 \<or>
      q = [\<lparr>nb_buf = take k m, nb_p = k, nb_L = if k < hdr_size env then hdr_size env else length m\<rparr>])"

definition is_message :: "'e pyx_env_scheme \<Rightarrow> char list \<Rightarrow> bool" where
  "is_message env m \<longleftrightarrow> 0 < hdr_size env \<and> hdr_size env \<le> length m \<and>
     hdr_len env (take (hdr_size env) m) = Some (length m - hdr_size env) \<and>
     alloc_ok env (hdr_size env) \<and> alloc_ok env (length m)"

definition received :: "'z channels_scheme \<Rightarrow> nat \<Rightarrow> char list \<Rightarrow> 'z channels_scheme \<Rightarrow> bool" where
  "received st i m st' \<longleftrightarrow>
     ctrl st' i = (ctrl st i)\<lparr>c_rcv := [\<lparr>nb_buf = m, nb_p = length m, nb_L = length m\<rparr>], c_revents := POLLIN\<rparr> \<and>
     ctrlist st' = ctrlist st @ [i] \<and> (\<forall>j. j \<noteq> i \<longrightarrow> ctrl st' j = ctrl st j)"

lemma receiving_buffer:
  "is_message env m \<Longrightarrow> receiving env m k (c_rcv c) \<Longrightarrow>
   rcv_buffer env c = \<lparr>nb_buf = take k m, nb_p = k, nb_L = if k < hdr_size env then hdr_size env else length m\<rparr> \<and>
   butlast (c_rcv c) = []"
  by (auto simp: receiving_def rcv_buffer_def is_message_def Let_def)

lemma asyncread_step:
  assumes msg: "is_message env m" and rec: "receiving env m k (c_rcv (ctrl st i))" and i: "i \<notin> set (ctrlist st)"
    and es: "all_data es" "stream_bytes es = drop k m @ rest"
  shows "\<exists>q st' es'. nioasyncread env st i es = Inr (int q, st', es') \<and> k < q \<and> q \<le> length m \<and>
    all_data es' \<and> stream_bytes es' = drop q m @ rest \<and>
    (if q = length m then received st i m st'
     else receiving env m q (c_rcv (ctrl st' i)) \<and> ctrlist st' = ctrlist st \<and>
       (\<exists>r. ctrl st' = (ctrl st)(i := (ctrl st i)\<lparr>c_rcv := r\<rparr>)))"
proof -
  let ?h = "hdr_size env" and ?n = "length m"
  let ?L = "if k < ?h then ?h else ?n"
  from rec have k: "k < ?n" by (simp add: receiving_def)
  from msg have h: "0 < ?h" "?h \<le> ?n" "hdr_len env (take ?h m) = Some (?n - ?h)" "alloc_ok env ?h" "alloc_ok env ?n"
    by (auto simp: is_message_def)
  have "0 < ?L - k" "stream_bytes es \<noteq> []" using k h es(2) by auto
  from sys_read_data [OF es(1) this] obtain x xs es' where r: "sys_read (?L - k) es = Some (Got (x # xs), es')"
    "length (x # xs) \<le> ?L - k" "stream_bytes es = (x # xs) @ stream_bytes es'" "all_data es'" by blast
  define q where "q = k + length (x # xs)"
  have q: "k < q" "q \<le> ?L" "?L \<le> ?n" using r(2) k h by (auto simp: q_def)
  have "(x # xs) @ stream_bytes es' = drop k m @ rest" using r(3) es(2) by metis
  then have "x # xs = take (length (x # xs)) (drop k m @ rest) \<and>
      stream_bytes es' = drop (length (x # xs)) (drop k m @ rest)" by (simp only: append_eq_conv_conj)
  moreover have "length (x # xs) = q - k" by (simp add: q_def)
  moreover have "take (q - k) (drop k m @ rest) = take (q - k) (drop k m)"
    "drop (q - k) (drop k m @ rest) = drop q m @ rest" using q by simp_all
  ultimately have split: "x # xs = take (q - k) (drop k m)" "stream_bytes es' = drop q m @ rest" by metis+
  have tk: "take k m @ x # xs = take q m" unfolding split(1) using q by (simp flip: take_add)
  have lp: "k + Suc (length xs) = q" "Suc (k + length xs) = q" "1 + (int k + int (length xs)) = int q"
    by (simp_all add: q_def)
  note b = receiving_buffer [OF msg rec]
  note unf = nioasyncread_def async_received_def put_rcv_def check_ready_def b sock_answer_def Let_def message_ready_def seq_enque_def upd_ctrl_def tk lp
  have ne: "k \<noteq> ?L" "?L - k \<noteq> 0" using k h by auto
  consider "q = ?n" | "q < ?n" "q = ?h" "k < ?h" | "q < ?n" "q \<noteq> ?h \<or> \<not> k < ?h"
    using q by linarith
  then show ?thesis
  proof cases
    case 1
    then show ?thesis
      using r(1,4) q h i k ne split(2)
      by (intro exI [of _ q]) (auto simp: unf received_def fun_eq_iff)
  next
    case 2
    then show ?thesis
      using r(1,4) q h i k ne split(2)
      by (intro exI [of _ q]) (auto simp: unf receiving_def fun_eq_iff)
  next
    case 3
    then show ?thesis
      using r(1,4) q h i k ne split(2)
      by (intro exI [of _ q]) (auto simp: unf receiving_def fun_eq_iff)
  qed
qed

text \<open>Calls of \<open>nioasyncread\<close>, one for each time that \<open>epoll\<close> reports the socket, until one is not positive.\<close>

fun async_reads :: "'e pyx_env_scheme \<Rightarrow> nat \<Rightarrow> 'z channels_scheme \<Rightarrow> nat \<Rightarrow> rd_event list \<Rightarrow>
    (int list \<times> 'z channels_scheme \<times> rd_event list) res" where
  "async_reads env 0 st i es = Inr ([], st, es)"
| "async_reads env (Suc n) st i es =
     rbind (nioasyncread env st i es) (\<lambda>(r, st1, es1).
       if r \<le> 0 then Inr ([r], st1, es1)
       else rbind (async_reads env n st1 i es1) (\<lambda>(rs, st2, es2). Inr (r # rs, st2, es2)))"

lemma async_reads_message:
  assumes "is_message env m"
  shows "receiving env m k (c_rcv (ctrl st i)) \<Longrightarrow> i \<notin> set (ctrlist st) \<Longrightarrow> all_data es \<Longrightarrow>
    stream_bytes es = drop k m @ rest \<Longrightarrow>
    \<exists>n rs st' es'. async_reads env n st i es = Inr (rs, st', es') \<and> 0 < n \<and> n \<le> length m - k \<and> length rs = n \<and>
      (\<forall>r \<in> set rs. 0 < r) \<and> received st i m st' \<and> stream_bytes es' = rest"
proof (induction "length m - k" arbitrary: k st es rule: less_induct)
  case less
  from asyncread_step [OF assms less.prems] obtain q st1 es1 where
    r: "nioasyncread env st i es = Inr (int q, st1, es1)" and q: "k < q" "q \<le> length m"
    and es1: "all_data es1" "stream_bytes es1 = drop q m @ rest"
    and st1: "if q = length m then received st i m st1
      else receiving env m q (c_rcv (ctrl st1 i)) \<and> ctrlist st1 = ctrlist st \<and>
        (\<exists>r. ctrl st1 = (ctrl st)(i := (ctrl st i)\<lparr>c_rcv := r\<rparr>))" by blast
  show ?case
  proof (cases "q = length m")
    case True
    then show ?thesis using r q es1 st1 less.prems(1)
      by (intro exI [of _ "Suc 0"] exI [of _ "[int q]"] exI [of _ st1] exI [of _ es1]) (auto simp: receiving_def Suc_le_eq)
  next
    case False
    with st1 obtain b where f: "receiving env m q (c_rcv (ctrl st1 i))" "ctrlist st1 = ctrlist st"
      "ctrl st1 = (ctrl st)(i := (ctrl st i)\<lparr>c_rcv := b\<rparr>)" by auto
    have "length m - q < length m - k" "i \<notin> set (ctrlist st1)" using q less.prems(2) f(2) by auto
    from less.hyps [OF this(1) f(1) this(2) es1] obtain n rs st' es' where
      n: "async_reads env n st1 i es1 = Inr (rs, st', es')" "n \<le> length m - q" "length rs = n"
        "\<forall>r \<in> set rs. 0 < r" "received st1 i m st'" "stream_bytes es' = rest" by blast
    have "received st i m st'" using n(5) f(2,3) by (auto simp: received_def)
    then show ?thesis using r q n
      by (intro exI [of _ "Suc n"] exI [of _ "int q # rs"] exI [of _ st'] exI [of _ es']) auto
  qed
qed

text \<open>Calls of \<open>nioasyncwrite\<close> as \<open>nioepoll\<close> makes them, one message and one \<open>write\<close> at a time.\<close>

fun async_writes :: "'z channels_scheme \<Rightarrow> nat \<Rightarrow> wr_answer list \<Rightarrow> (int list \<times> 'z channels_scheme) res" where
  "async_writes st i [] = Inr ([], st)"
| "async_writes st i (a # ans) =
     rbind (nioasyncwrite st i False [a]) (\<lambda>(r, st1).
       if r \<le> 0 then Inr ([r], st1)
       else rbind (async_writes st1 i ans) (\<lambda>(rs, st2). Inr (r # rs, st2)))"

lemma asyncwrite_one:
  assumes "c_snd (ctrl st i) = q @ [\<lparr>nb_buf = m, nb_p = p, nb_L = length m\<rparr>]" "p \<le> length m"
  shows "nioasyncwrite st i False [Wr_bytes n] =
    Inr (int (min n (length m - p)),
      (st\<lparr>sent := (sent st)(c_s (ctrl st i) := sent st (c_s (ctrl st i)) @ take n (drop p m)),
          ctrl := (ctrl st)(i := (ctrl st i)\<lparr>c_snd :=
            (if length m \<le> p + n then tl (q @ [\<lparr>nb_buf = m, nb_p = length m, nb_L = length m\<rparr>])
             else q @ [\<lparr>nb_buf = m, nb_p = p + n, nb_L = length m\<rparr>])\<rparr>)\<rparr>))"
proof -
  have "take (min n (length m - p)) (drop p m) = take n (drop p m)" by (simp add: min_def)
  then show ?thesis
    using assms by (auto simp: nioasyncwrite_def asyncwrite_loop.simps Let_def upd_ctrl_def nth_append min_def)
qed

lemma async_writes_message:
  "c_snd (ctrl st i) = [\<lparr>nb_buf = m, nb_p = p, nb_L = length m\<rparr>] \<Longrightarrow> p < length m \<Longrightarrow>
   \<forall>n \<in> set ns. 0 < n \<Longrightarrow> length m - p \<le> sum_list ns \<Longrightarrow>
   \<exists>k rs st'. async_writes st i (map Wr_bytes (take k ns)) = Inr (rs, st') \<and> length rs = k \<and> (\<forall>r \<in> set rs. 0 < r) \<and>
     sent st' = (sent st)(c_s (ctrl st i) := sent st (c_s (ctrl st i)) @ drop p m) \<and>
     ctrl st' = (ctrl st)(i := (ctrl st i)\<lparr>c_snd := []\<rparr>)"
proof (induction ns arbitrary: st p)
  case (Cons n ns)
  let ?st = "st\<lparr>sent := (sent st)(c_s (ctrl st i) := sent st (c_s (ctrl st i)) @ take n (drop p m)),
      ctrl := (ctrl st)(i := (ctrl st i)\<lparr>c_snd := (if length m \<le> p + n then [] else [\<lparr>nb_buf = m, nb_p = p + n, nb_L = length m\<rparr>])\<rparr>)\<rparr>"
  have w: "nioasyncwrite st i False [Wr_bytes n] = Inr (int (min n (length m - p)), ?st)"
    using asyncwrite_one [of st i "[]" m p n] Cons.prems(1,2) by simp
  have pos: "0 < int (min n (length m - p))" using Cons.prems(2,3) by simp
  show ?case
  proof (cases "length m \<le> p + n")
    case True
    with w pos show ?thesis by (intro exI [of _ "Suc 0"] exI [of _ "[int (min n (length m - p))]"] exI [of _ ?st]) auto
  next
    case False
    have "c_snd (ctrl ?st i) = [\<lparr>nb_buf = m, nb_p = p + n, nb_L = length m\<rparr>]" "p + n < length m"
      "\<forall>n \<in> set ns. 0 < n" "length m - (p + n) \<le> sum_list ns" using False Cons.prems by simp_all
    from Cons.IH [OF this] obtain k rs st' where
      k: "async_writes ?st i (map Wr_bytes (take k ns)) = Inr (rs, st')" "length rs = k" "\<forall>r \<in> set rs. 0 < r"
        "sent st' = (sent ?st)(c_s (ctrl ?st i) := sent ?st (c_s (ctrl ?st i)) @ drop (p + n) m)"
        "ctrl st' = (ctrl ?st)(i := (ctrl ?st i)\<lparr>c_snd := []\<rparr>)" by blast
    have "take n (drop p m) @ drop (p + n) m = drop p m" by (metis append_take_drop_id drop_drop add.commute)
    with w pos k show ?thesis
      by (intro exI [of _ "Suc k"] exI [of _ "int (min n (length m - p)) # rs"] exI [of _ st']) auto
  qed
qed simp

section \<open>Properties\<close>

text \<open>C18. Messages are put together from any pieces: when the socket of an idle control connection delivers
  a message (a header and as many bytes as it announces), cut in whatever way and followed by anything,
  then some number of calls of nioasyncread, at most one for each byte, all return a positive count,
  leave exactly that message complete in the queue, put the connection once into the list of those to
  process, touch no other connection, and leave the rest of the stream to be read.\<close>

theorem async_message_assembled:
  assumes "is_message env m" "c_rcv (ctrl st i) = []" "i \<notin> set (ctrlist st)"
    and "all_data es" "stream_bytes es = m @ rest"
  shows "\<exists>n rs st' es'. async_reads env n st i es = Inr (rs, st', es') \<and> 0 < n \<and> n \<le> length m \<and> length rs = n \<and>
    (\<forall>r \<in> set rs. 0 < r) \<and> received st i m st' \<and> stream_bytes es' = rest"
proof -
  have "receiving env m 0 (c_rcv (ctrl st i))" using assms(1,2) by (auto simp: receiving_def is_message_def)
  from async_reads_message [OF assms(1) this assms(3,4)] assms(5) show ?thesis by simp
qed

text \<open>A header of two bytes, the second of which is the length of what follows.\<close>

definition demo_env :: pyx_env where
  "demo_env = \<lparr>hdr_size = 2, hdr_len = (\<lambda>bs. Some (of_char (bs ! 1))), alloc_ok = (\<lambda>n. n < 1000)\<rparr>"

definition demo_ctrl :: nio_ctrl where
  "demo_ctrl = \<lparr>c_s = 7, c_ev = Some EPOLLIN, c_rcv = [], c_snd = [], c_revents = 0, c_accepting = 0, c_linked = True\<rparr>"

definition demo_channels :: channels where
  "demo_channels = \<lparr>ctrl = (\<lambda>_. demo_ctrl), ctrlcache = [], ctrlarray = (\<lambda>i. Some i), ctrlist = [],
     epolled = [7 \<mapsto> EPOLLIN], sent = (\<lambda>_. [])\<rparr>"

theorem async_message_assembled_witness:
  "\<exists>n rs st' es'. async_reads demo_env n demo_channels 0 [Data ''R'', Data [CHR 0x03, CHR ''a''], Data ''bcR''] = Inr (rs, st', es') \<and>
    received demo_channels 0 [CHR ''R'', CHR 0x03, CHR ''a'', CHR ''b'', CHR ''c''] st' \<and> stream_bytes es' = ''R''"
proof -
  let ?m = "[CHR ''R'', CHR 0x03, CHR ''a'', CHR ''b'', CHR ''c'']"
  have "is_message demo_env ?m" by (simp add: is_message_def demo_env_def)
  from async_message_assembled [OF this, of demo_channels 0 "[Data ''R'', Data [CHR 0x03, CHR ''a''], Data ''bcR'']" "''R''"]
  show ?thesis by (auto simp: demo_channels_def demo_ctrl_def all_data_def)
qed

text \<open>C19. A message that is alone in its queue is sent exactly: whatever positive number of bytes each call of
  write takes, after enough calls of nioasyncwrite, all of them with a positive result, the kernel has
  taken the bytes of the message and nothing else on its socket, and the queue is empty.\<close>

theorem async_message_sent:
  assumes "c_snd (ctrl st i) = [\<lparr>nb_buf = m, nb_p = 0, nb_L = length m\<rparr>]" "m \<noteq> []"
    and "\<forall>n \<in> set ns. 0 < n" "length m \<le> sum_list ns"
  shows "\<exists>k rs st'. async_writes st i (map Wr_bytes (take k ns)) = Inr (rs, st') \<and> length rs = k \<and> (\<forall>r \<in> set rs. 0 < r) \<and>
    sent st' = (sent st)(c_s (ctrl st i) := sent st (c_s (ctrl st i)) @ m) \<and>
    ctrl st' = (ctrl st)(i := (ctrl st i)\<lparr>c_snd := []\<rparr>)"
  using async_writes_message [OF assms(1) _ assms(3)] assms(2,4) by simp

definition demo_sending :: "nio_buf list \<Rightarrow> channels" where
  "demo_sending q = upd_ctrl demo_channels 0 (c_snd_update (\<lambda>_. q))"

lemma demo_sending [simp]:
  "c_snd (ctrl (demo_sending q) 0) = q" "c_s (ctrl (demo_sending q) 0) = 7" "sent (demo_sending q) = (\<lambda>_. [])"
  by (simp_all add: demo_sending_def upd_ctrl_def demo_channels_def demo_ctrl_def)

theorem async_message_sent_witness:
  "\<exists>k rs st'. async_writes (demo_sending [\<lparr>nb_buf = ''hello'', nb_p = 0, nb_L = 5\<rparr>]) 0
      (map Wr_bytes (take k [2, 3])) = Inr (rs, st') \<and> sent st' 7 = ''hello'' \<and> c_snd (ctrl st' 0) = []"
proof -
  let ?st = "demo_sending [\<lparr>nb_buf = ''hello'', nb_p = 0, nb_L = 5\<rparr>]"
  have "c_snd (ctrl ?st 0) = [\<lparr>nb_buf = ''hello'', nb_p = 0, nb_L = length ''hello''\<rparr>]" by simp
  from async_message_sent [OF this, of "[2, 3]"] obtain k rs st' where
    "async_writes ?st 0 (map Wr_bytes (take k [2, 3])) = Inr (rs, st')" "sent st' = (sent ?st)(7 := ''hello'')"
    "ctrl st' = (ctrl ?st)(0 := (ctrl ?st 0)\<lparr>c_snd := []\<rparr>)" by auto
  then show ?thesis by (intro exI [of _ k] exI [of _ rs] exI [of _ st']) simp
qed

text \<open>C33. Two messages in a queue: nioasyncwrite writes the last one and, when it is done, removes and frees
  the first one, of which no byte has been sent. With exactly two, the next call writes nothing and
  returns 0, at which nioepoll closes the connection; and a call that writes all of them goes on in the
  buffer it has just freed.\<close>

theorem async_write_loses_messages:
  assumes "c_snd (ctrl st i) = f # q @ [\<lparr>nb_buf = z, nb_p = p, nb_L = length z\<rparr>]" "p \<le> length z" "length z - p \<le> n"
  shows "(\<exists>st'. nioasyncwrite st i False [Wr_bytes n] = Inr (int (length z - p), st') \<and>
      c_snd (ctrl st' i) = q @ [\<lparr>nb_buf = z, nb_p = length z, nb_L = length z\<rparr>] \<and>
      sent st' = (sent st)(c_s (ctrl st i) := sent st (c_s (ctrl st i)) @ drop p z) \<and>
      (q = [] \<longrightarrow> (\<forall>k. \<exists>st2. nioasyncwrite st' i False [Wr_bytes k] = Inr (0, st2) \<and> sent st2 = sent st' \<and>
        c_snd (ctrl st2 i) = []))) \<and>
    (q = [] \<longrightarrow> nioasyncwrite st i True (Wr_bytes n # ans) = Inl Dangling)"
proof -
  have a: "c_snd (ctrl st i) = (f # q) @ [\<lparr>nb_buf = z, nb_p = p, nb_L = length z\<rparr>]" using assms(1) by simp
  have "min n (length z - p) = length z - p" "length z \<le> p + n" "take n (drop p z) = drop p z" using assms(2,3) by auto
  note one = asyncwrite_one [OF a assms(2), of n, unfolded this]
  let ?st = "st\<lparr>sent := (sent st)(c_s (ctrl st i) := sent st (c_s (ctrl st i)) @ drop p z),
    ctrl := (ctrl st)(i := (ctrl st i)\<lparr>c_snd := q @ [\<lparr>nb_buf = z, nb_p = length z, nb_L = length z\<rparr>]\<rparr>)\<rparr>"
  have w1: "nioasyncwrite st i False [Wr_bytes n] = Inr (int (length z - p), ?st)" using one \<open>length z \<le> p + n\<close> by simp
  have w2: "\<exists>st2. nioasyncwrite ?st i False [Wr_bytes k] = Inr (0, st2) \<and> sent st2 = sent ?st \<and> c_snd (ctrl st2 i) = []"
    if "q = []" for k
    using asyncwrite_one [of ?st i "[]" z "length z" k] that by auto
  have "nioasyncwrite st i True (Wr_bytes n # ans) = Inl Dangling" if "q = []"
    using assms that by (simp add: nioasyncwrite_def asyncwrite_loop.simps Let_def min_def nth_append)
  with w1 w2 show ?thesis by auto
qed

theorem async_write_loses_messages_witness:
  "\<exists>st'. nioasyncwrite (demo_sending [\<lparr>nb_buf = ''one'', nb_p = 0, nb_L = 3\<rparr>, \<lparr>nb_buf = ''two'', nb_p = 0, nb_L = 3\<rparr>]) 0
      False [Wr_bytes 3] = Inr (3, st') \<and>
    c_snd (ctrl st' 0) = [\<lparr>nb_buf = ''two'', nb_p = 3, nb_L = 3\<rparr>] \<and> sent st' 7 = ''two''"
proof -
  let ?st = "demo_sending [\<lparr>nb_buf = ''one'', nb_p = 0, nb_L = 3\<rparr>, \<lparr>nb_buf = ''two'', nb_p = 0, nb_L = 3\<rparr>]"
  have "c_snd (ctrl ?st 0) = \<lparr>nb_buf = ''one'', nb_p = 0, nb_L = 3\<rparr> # [] @ [\<lparr>nb_buf = ''two'', nb_p = 0, nb_L = length ''two''\<rparr>]" by simp
  from async_write_loses_messages [OF this, where n = 3 and ans = "[]"] show ?thesis by (auto simp: eval_nat_numeral)
qed

text \<open>C34. How far the writing loops go: when niowriteblock or niowritenonblock report success they have sent
  the whole buffer, but up to one byte less than its length again of the memory behind it; and this
  happens at the bound whenever the kernel first takes all but one byte.\<close>

theorem niowrite_overrun:
  "(\<forall>es n wire es'. 0 < length buf \<longrightarrow> f \<in> {niowriteblock, niowritenonblock} \<longrightarrow>
      f (buf @ beyond) (length buf) es = Inr (Write_ok n, wire, es') \<longrightarrow>
      n = length buf \<and> length wire < 2 * length buf \<and>
      wire = buf @ take (length wire - length buf) beyond) \<and>
   (\<forall>k. Suc k = length buf \<longrightarrow> k \<le> length beyond \<longrightarrow> f \<in> {niowriteblock, niowritenonblock} \<longrightarrow>
      f (buf @ beyond) (length buf) [Wr_bytes k, Wr_bytes (length buf)] = Inr (Write_ok (length buf), buf @ take k beyond, []))"
proof (intro conjI allI impI)
  fix es n wire es'
  assume b: "0 < length buf" and f: "f \<in> {niowriteblock, niowritenonblock}"
    and w: "f (buf @ beyond) (length buf) es = Inr (Write_ok n, wire, es')"
  have "\<exists>retry. niowrite_loop retry (buf @ beyond) (length buf) 0 (int (length buf) - int 0) es (take 0 (buf @ beyond)) = Inr (Write_ok n, wire, es')"
    using f w by (auto simp: niowriteblock_def niowritenonblock_def)
  then obtain retry where
    "niowrite_loop retry (buf @ beyond) (length buf) 0 (int (length buf) - int 0) es (take 0 (buf @ beyond)) = Inr (Write_ok n, wire, es')" ..
  from niowrite_loop_wire [OF this] b
  have l: "wire = take (length wire) (buf @ beyond)" "length wire < 2 * length buf" "n = length buf" "length buf \<le> length wire" by auto
  show "n = length buf" "length wire < 2 * length buf" using l by auto
  show "wire = buf @ take (length wire - length buf) beyond" using l(4) by (subst l(1)) simp
qed (auto simp: niowriteblock_def niowritenonblock_def niowrite_loop_worst)

theorem niowrite_overrun_witness:
  "niowritenonblock (''abc'' @ ''SECRET'') 3 [Wr_bytes 2, Wr_bytes 3] = Inr (Write_ok 3, ''abcSE'', [])"
  using niowrite_overrun [of "''abc''" niowritenonblock "''SECRET''", THEN conjunct2, rule_format, of 2] by (simp add: numeral_2_eq_2 numeral_3_eq_3)

text \<open>
  The reader against the one of \<open>nio.c\<close>: the same bytes for a length that is not negative. A negative length is returned
  with nothing read.
\<close>

lemma nioreadblock_nat:
  "0 \<le> L \<Longrightarrow> nioreadblock L es =
     (case nio_readblock (nat L) es of
        (Read_ok buf, es') \<Rightarrow> Inr (L, buf, es')
      | (Read_fail, es') \<Rightarrow> Inr (-1, [], es')
      | (Read_blocks, es') \<Rightarrow> Inl Blocks)"
  "L < 0 \<Longrightarrow> nioreadblock L es = Inr (L, [], es)"
  by (simp_all add: nioreadblock_def nio_readblock_def nioread_loop_nat readblock_loop.simps)

end
