(* ===== verification/Relay.thy ===== *)
theory Relay
  imports Channel "HOL-Library.AList"
begin

text \<open>
  The relays of \<open>src/lib/nio2.c\<close>: pairs of connections, each of which writes what the other reads.
  The structures are allocated at the start and kept in a cache; \<open>niogetpeer\<close> takes two of them and
  puts them into a table, \<open>niostartrelay\<close> gives one of these the connection of a client, and the loop
  over \<open>epoll\<close> moves the data. Connections without SSL are modelled. The hash table, \<open>freeup\<close>,
  \<open>syslog_\<close> and the structures' header are not in the repository: the table's functions, what \<open>freeup\<close>
  leaves in the pointer and whether \<open>syslog_\<close> evaluates its arguments are parameters.
\<close>

section \<open>State\<close>

datatype relay_status = RELAY_IDLE | RELAY_WAIT_ACCEPT | RELAY_ACTIVE

text \<open>
  A relay is named by its \<open>sid\<close>, its position in the initial allocation. The offsets: bytes up to
  \<open>x1\<close> have been read, bytes up to \<open>x2\<close> have been written to the peer, \<open>L\<close> is the size of the buffer.
\<close>

record nio_relay =
  r_s :: int
  r_status :: relay_status
  r_peer :: "nat option"
  r_ev :: "32 word option"    \<comment> \<open>the events of the epoll structure, or NULL\<close>
  r_bits :: "32 word"
  r_buf :: "char list"
  r_x1 :: nat
  r_x2 :: int
  r_L :: nat
  r_ttidl :: int
  r_rbytes :: int
  r_wbytes :: int

record 'h pyx = channels +
  relay :: "nat \<Rightarrow> nio_relay"
  relaycache :: "nat list"
  relayarray :: "nat \<Rightarrow> nat option"
  wpeers :: 'h
  acct :: "(nat \<times> int \<times> int) list"   \<comment> \<open>the calls of the accounting function\<close>

record 'h relay_env = pyx_env +
  hashmake :: "nat \<Rightarrow> 'h"
  hashrm :: "'h \<Rightarrow> string \<Rightarrow> nat option \<times> 'h"
  hashinstall :: "'h \<Rightarrow> string \<Rightarrow> nat \<Rightarrow> bool \<times> 'h"   \<comment> \<open>whether the key was there\<close>
  hashwalk :: "'h \<Rightarrow> nat list"
  hashnum :: "'h \<Rightarrow> nat"
  freeup :: "32 word option \<Rightarrow> 32 word option"
  debug_args :: bool   \<comment> \<open>whether \<open>syslog_\<close> evaluates its arguments at level \<open>LOG_DEBUG\<close>\<close>
  nd_ttidl :: int
  maxrelay :: nat
  maxctrl :: nat
  relaybuf :: nat

definition upd_relay :: "'h pyx \<Rightarrow> nat \<Rightarrow> (nio_relay \<Rightarrow> nio_relay) \<Rightarrow> 'h pyx" where
  "upd_relay st i f = st\<lparr>relay := (relay st)(i := f (relay st i))\<rparr>"

text \<open>\<open>nioinit\<close>, after the listening sockets: the tables and caches.\<close>

definition idle_relay :: "'h relay_env \<Rightarrow> nio_relay" where
  "idle_relay env = \<lparr>r_s = -1, r_status = RELAY_IDLE, r_peer = None, r_ev = None, r_bits = 0,
     r_buf = replicate (relaybuf env) NUL, r_x1 = 0, r_x2 = 0, r_L = relaybuf env, r_ttidl = nd_ttidl env,
     r_rbytes = 0, r_wbytes = 0\<rparr>"

definition nioinit :: "'h relay_env \<Rightarrow> 'h pyx" where
  "nioinit env = \<lparr>ctrl = (\<lambda>_. \<lparr>c_s = -1, c_ev = None, c_rcv = [], c_snd = [], c_revents = 0, c_accepting = 0, c_linked = True\<rparr>),
     ctrlcache = [0..<maxctrl env], ctrlarray = (\<lambda>_. None), ctrlist = [], epolled = (\<lambda>_. None), sent = (\<lambda>_. []),
     relay = (\<lambda>_. idle_relay env), relaycache = [0..<maxrelay env], relayarray = (\<lambda>_. None),
     wpeers = hashmake env (maxrelay env div 10), acct = []\<rparr>"

section \<open>Starting\<close>

text \<open>\<open>niostartrelay\<close>: \<open>c\<close> is the control connection of the client; both share its epoll structure.\<close>

definition niostartrelay :: "'h relay_env \<Rightarrow> 'h pyx \<Rightarrow> nat \<Rightarrow> int \<Rightarrow> (nat option \<times> 'h pyx) res" where
  "niostartrelay env st c sid =
     (case hashrm env (wpeers st) (fmt_d sid) of
        (None, h) \<Rightarrow> Inr (None, st\<lparr>wpeers := h\<rparr>)
      | (Some r, h) \<Rightarrow>
          if r_status (relay st r) \<noteq> RELAY_WAIT_ACCEPT then Inl Assert_fail
          else
            rbind (seq_rm (relaycache st) r) (\<lambda>q.
            rbind (nonnull (c_ev (ctrl st c))) (\<lambda>_.
              let s = c_s (ctrl st c);
                  st1 = upd_relay (st\<lparr>wpeers := h, relaycache := q, relayarray := (relayarray st)(r \<mapsto> r)\<rparr>) r
                    (\<lambda>r. r\<lparr>r_status := RELAY_ACTIVE, r_s := s, r_ev := Some EPOLLIN, r_bits := EPOLLIN\<rparr>);
                  st2 = upd_ctrl st1 c (c_ev_update (\<lambda>_. Some EPOLLIN))
              in Inr (Some r, epoll_mod st2 s EPOLLIN))))"

definition waiting :: "'h relay_env \<Rightarrow> nio_relay \<Rightarrow> nio_relay" where
  "waiting env r = r\<lparr>r_status := RELAY_WAIT_ACCEPT, r_x1 := 0, r_x2 := 0, r_ttidl := nd_ttidl env\<rparr>"

text \<open>The loop of \<open>niogetpeer\<close> over the cache; the first relay that it takes is changed at once.\<close>

fun pick_idle :: "'h relay_env \<Rightarrow> (nat \<Rightarrow> nio_relay) \<Rightarrow> nat list \<Rightarrow> nat option \<Rightarrow>
    (nat \<Rightarrow> nio_relay) \<times> (nat \<times> nat) option" where
  "pick_idle env f [] r1 = (f, None)"
| "pick_idle env f (r # rs) r1 =
     (if r_status (f r) = RELAY_IDLE then
        let f1 = f(r := waiting env (f r))
        in (case r1 of None \<Rightarrow> pick_idle env f1 rs (Some r) | Some a \<Rightarrow> (f1, Some (a, r)))
      else pick_idle env f rs r1)"

definition niogetpeer :: "'h relay_env \<Rightarrow> 'h pyx \<Rightarrow> int \<Rightarrow> ((nat \<times> nat) option \<times> 'h pyx) res" where
  "niogetpeer env st t =
     (case pick_idle env (relay st) (relaycache st) None of
        (f, None) \<Rightarrow> Inr (None, st\<lparr>relay := f\<rparr>)
      | (f, Some (a, b)) \<Rightarrow>
          let st1 = upd_relay (st\<lparr>relay := f\<rparr>) a (\<lambda>r. r\<lparr>r_peer := Some b, r_ttidl := r_ttidl r + t\<rparr>);
              st2 = upd_relay st1 b (\<lambda>r. r\<lparr>r_peer := Some a, r_ttidl := r_ttidl r + t\<rparr>);
              (dup, h) = hashinstall env (wpeers st2) (fmt_d (int a)) a;
              (dup2, h2) = hashinstall env h (fmt_d (int b)) b
          in if dup \<or> dup2 then Inl Assert_fail else Inr (Some (a, b), st2\<lparr>wpeers := h2\<rparr>))"

section \<open>Stopping\<close>

definition nioshutrelay :: "'h relay_env \<Rightarrow> 'h pyx \<Rightarrow> nat \<Rightarrow> 'h pyx res" where
  "nioshutrelay env st i =
     (let r = relay st i in
      if r_s r < 0 then Inr st
      else
        let st1 = st\<lparr>relayarray := (relayarray st)(i := None), acct := acct st @ [(i, r_rbytes r, r_wbytes r)]\<rparr>
        in (case r_status r of
              RELAY_ACTIVE \<Rightarrow>
                rbind (seq_enque (relaycache st1) i) (\<lambda>q.
                  Inr (upd_relay (st1\<lparr>epolled := (epolled st1)(r_s r := None), relaycache := q\<rparr>) i
                    (\<lambda>r. r\<lparr>r_ev := (if r_ev r = None then None else freeup env (r_ev r)), r_s := -1, r_status := RELAY_IDLE, r_x1 := 0, r_x2 := 0,
                           r_rbytes := 0, r_wbytes := 0, r_bits := 0\<rparr>)))
            | RELAY_WAIT_ACCEPT \<Rightarrow>
                (case hashrm env (wpeers st1) (fmt_d (int i)) of
                   (r2, h) \<Rightarrow>
                     if r2 \<noteq> Some i then Inl Assert_fail
                     else Inr (upd_relay (st1\<lparr>wpeers := h\<rparr>) i (r_status_update (\<lambda>_. RELAY_IDLE))))
            | RELAY_IDLE \<Rightarrow> Inr st1))"

fun shut_all :: "'h relay_env \<Rightarrow> 'h pyx \<Rightarrow> nat list \<Rightarrow> 'h pyx res" where
  "shut_all env st [] = Inr st"
| "shut_all env st (i # is) = rbind (nioshutrelay env st i) (\<lambda>st1. shut_all env st1 is)"

text \<open>\<open>niofindidle\<close> collects the relays that wait too long in an array of \<open>maxrelay\<close> places, and shuts
  them from its end.\<close>

definition niofindidle :: "'h relay_env \<Rightarrow> 'h pyx \<Rightarrow> int \<Rightarrow> 'h pyx res" where
  "niofindidle env st t =
     (if hashnum env (wpeers st) = 0 then Inr st
      else
        let u = filter (\<lambda>i. r_ttidl (relay st i) \<le> t) (hashwalk env (wpeers st))
        in if maxrelay env < length u then Inl Buffer_overflow else shut_all env st (rev u))"

section \<open>Moving data\<close>

text \<open>\<open>niorelayread\<close>: the result, \<open>errno\<close> where it is an error, and the new state.\<close>

definition niorelayread :: "'h pyx \<Rightarrow> nat \<Rightarrow> rd_answer \<Rightarrow> (int \<times> errno option \<times> 'h pyx) res" where
  "niorelayread st i rd =
     (let r = relay st i in
      if r_x1 r = r_L r then Inr (1, None, st)
      else if r_L r < r_x1 r then Inl Buffer_overflow
      else (case rd of
              Rd_errno e \<Rightarrow> Inr (-1, Some e, st)
            | Rd_bytes bs0 \<Rightarrow>
                let bs = take (r_L r - r_x1 r) bs0 in
                if bs = [] then Inr (0, None, st)
                else Inr (int (length bs), None, upd_relay st i (\<lambda>r. r\<lparr>
                       r_buf := take (r_x1 r) (r_buf r) @ bs @ drop (r_x1 r + length bs) (r_buf r),
                       r_x1 := r_x1 r + length bs, r_rbytes := r_rbytes r + int (length bs)\<rparr>))))"

text \<open>Change the events of a relay, here and in the kernel.\<close>

definition set_events :: "'h pyx \<Rightarrow> nat \<Rightarrow> 32 word \<Rightarrow> 32 word \<Rightarrow> 'h pyx" where
  "set_events st p ev bits =
     epoll_mod (upd_relay st p (\<lambda>r. r\<lparr>r_ev := Some ev, r_bits := bits\<rparr>)) (r_s (relay st p)) ev"

text \<open>Ask \<open>epoll\<close> to report when a relay can be written to.\<close>

definition arm_write :: "'h pyx \<Rightarrow> nat \<Rightarrow> 'h pyx" where
  "arm_write st p =
     set_events st p (the (r_ev (relay st p)) OR (EPOLLIN OR EPOLLOUT)) (r_bits (relay st p) OR (EPOLLIN OR EPOLLOUT))"

text \<open>
  \<open>nioflush2peer\<close>. An error other than \<open>EAGAIN\<close> does not return: it is added to the offset like a
  count, and the peer is armed as after a partial write.
\<close>

definition advance_write :: "'h pyx \<Rightarrow> nat \<Rightarrow> nat \<Rightarrow> int \<Rightarrow> 'h pyx" where
  "advance_write st i p cc =
     (let st1 = upd_relay st i (\<lambda>r. r\<lparr>r_x2 := r_x2 r + cc, r_wbytes := r_wbytes r + cc\<rparr>)
      in if r_x2 (relay st1 i) = int (r_x1 (relay st1 i)) then upd_relay st1 i (\<lambda>r. r\<lparr>r_x2 := 0, r_x1 := 0\<rparr>)
         else arm_write st1 p)"

definition nioflush2peer :: "'h pyx \<Rightarrow> nat \<Rightarrow> wr_answer \<Rightarrow> (int \<times> errno option \<times> 'h pyx) res" where
  "nioflush2peer st i w =
     rbind (nonnull (r_peer (relay st i))) (\<lambda>p.
     if r_ev (relay st p) = None then Inr (0, None, st)
     else
       let st1 = (if r_bits (relay st p) AND EPOLLOUT \<noteq> 0 then set_events st p EPOLLIN EPOLLIN else st);
           r = relay st1 i
       in if r_x1 r = 0 then (if r_x2 r = 0 then Inr (0, None, st1) else Inl Assert_fail)
          else if int (r_x1 r) = r_x2 r then Inl Assert_fail
          else if r_x2 r < 0 \<or> int (r_x1 r) < r_x2 r then Inl Over_read
          else (case w of
                  Wr_bytes n \<Rightarrow>
                    let m = min n (r_x1 r - nat (r_x2 r)); s = r_s (relay st1 p);
                        st2 = st1\<lparr>sent := (sent st1)(s := sent st1 s @ take m (drop (nat (r_x2 r)) (r_buf r)))\<rparr>
                    in Inr (int m, None, advance_write st2 i p (int m))
                | Wr_errno e \<Rightarrow>
                    if e = EAGAIN then Inr (-1, Some e, arm_write st1 p)
                    else Inr (-1, Some e, advance_write st1 i p (-1))))"

definition transient :: "errno option \<Rightarrow> bool" where
  "transient e \<longleftrightarrow> e = Some EAGAIN \<or> e = Some EINTR"

text \<open>What the kernel answers during one event: to a write before, a read, and up to two writes.\<close>

record relay_io =
  io_w0 :: wr_answer
  io_rd :: rd_answer
  io_w1 :: wr_answer
  io_w2 :: wr_answer

text \<open>\<open>niorelay\<close>: \<open>shut_pair\<close> is how it ends a session.\<close>

definition shut_pair :: "'h relay_env \<Rightarrow> 'h pyx \<Rightarrow> nat \<Rightarrow> 'h pyx res" where
  "shut_pair env st i =
     rbind (nioshutrelay env st i) (\<lambda>st1.
     rbind (nonnull (r_peer (relay st1 i))) (\<lambda>p. nioshutrelay env st1 p))"

definition niorelay :: "'h relay_env \<Rightarrow> 'h pyx \<Rightarrow> nat \<Rightarrow> relay_io \<Rightarrow> 'h pyx res" where
  "niorelay env st i io =
     (if r_s (relay st i) < 0 then Inr st
      else
        rbind (nonnull (r_ev (relay st i))) (\<lambda>_.
        rbind (niorelayread (upd_relay st i (r_ev_update (\<lambda>_. Some 0))) i (io_rd io)) (\<lambda>(cc, e, st1).
        if cc = 0 \<or> cc < 0 \<and> \<not> transient e then
          rbind (nioflush2peer st1 i (io_w1 io)) (\<lambda>(_, _, st2). shut_pair env st2 i)
        else
          rbind (nonnull (r_peer (relay st1 i))) (\<lambda>p.
          if r_status (relay st1 p) \<noteq> RELAY_ACTIVE then Inr st1
          else
            rbind (nioflush2peer st1 i (io_w1 io)) (\<lambda>(cc2, e2, st2).
            if cc2 < 0 \<and> \<not> transient e2 then
              rbind (nioflush2peer st2 p (io_w2 io)) (\<lambda>(_, _, st3). shut_pair env st3 i)
            else Inr st2)))))"

definition POLLOUT :: "32 word" where "POLLOUT = 4"

text \<open>\<open>runrelays2\<close> without SSL: the two tests are made one after the other.\<close>

definition runrelays2 :: "'h relay_env \<Rightarrow> 'h pyx \<Rightarrow> nat \<Rightarrow> 32 word \<Rightarrow> relay_io \<Rightarrow> 'h pyx res" where
  "runrelays2 env st i revents io =
     rbind (if revents AND POLLOUT \<noteq> 0
            then rbind (nonnull (r_peer (relay st i))) (\<lambda>p.
                 rbind (nioflush2peer st p (io_w0 io)) (\<lambda>(_, _, st1). Inr st1))
            else Inr st) (\<lambda>st1.
     if revents AND POLLIN \<noteq> 0 then niorelay env st1 i io else Inr st1)"

text \<open>
  What \<open>nioepoll\<close> does with an event of a relay. Before a write it hands the events of the relay, read
  through the pointer \<open>ev\<close>, to \<open>syslog_\<close>; the pointer is read only if \<open>syslog_\<close> evaluates its arguments.
\<close>

definition debug_events :: "'h relay_env \<Rightarrow> 32 word option \<Rightarrow> unit res" where
  "debug_events env ev = (if debug_args env then rbind (nonnull ev) (\<lambda>_. Inr ()) else Inr ())"

definition EPOLLERR :: "32 word" where "EPOLLERR = 8"
definition EPOLLHUP :: "32 word" where "EPOLLHUP = 16"

definition relay_event :: "'h relay_env \<Rightarrow> 'h pyx \<Rightarrow> nat \<Rightarrow> 32 word \<Rightarrow> relay_io \<Rightarrow> 'h pyx res" where
  "relay_event env st i events io =
     (if events AND EPOLLERR \<noteq> 0 \<or> events AND EPOLLHUP \<noteq> 0 then shut_pair env st i
      else if events AND EPOLLIN \<noteq> 0 then runrelays2 env st i POLLIN io
      else if events AND EPOLLOUT \<noteq> 0 then rbind (debug_events env (r_ev (relay st i))) (\<lambda>_. runrelays2 env st i POLLOUT io)
      else Inr st)"

section \<open>The invariant\<close>

text \<open>
  What is relied on outside the repository: the table is a map from keys to relays whose walk visits
  every entry once, and \<open>freeup\<close> leaves NULL in the pointer that it is given. The code depends on the
  latter: the structures are used again and again, \<open>niogetpeer\<close> does not touch \<open>ev\<close>, and \<open>nioflush2peer\<close>
  tests \<open>r->peer->ev == NULL\<close> for a peer that is not connected (its comment says that \<open>ev\<close> is NULL then);
  the only statement that can make the pointer of a relay NULL again is the \<open>freeup(r->ev)\<close> in
  \<open>nioshutrelay\<close>.
\<close>

definition table_ok :: "'h relay_env \<Rightarrow> ('h \<Rightarrow> string \<Rightarrow> nat option) \<Rightarrow> bool" where
  "table_ok env tab \<longleftrightarrow>
     (\<forall>n. tab (hashmake env n) = (\<lambda>_. None)) \<and>
     (\<forall>h k. fst (hashrm env h k) = tab h k \<and> tab (snd (hashrm env h k)) = (tab h)(k := None)) \<and>
     (\<forall>h k v. tab h k = None \<longrightarrow> \<not> fst (hashinstall env h k v) \<and> tab (snd (hashinstall env h k v)) = (tab h)(k \<mapsto> v)) \<and>
     (\<forall>h. set (hashwalk env h) = ran (tab h) \<and> length (hashwalk env h) = card (dom (tab h))) \<and>
     (\<forall>h. hashnum env h = card (dom (tab h)))"

definition frees_null :: "'h relay_env \<Rightarrow> bool" where
  "frees_null env \<longleftrightarrow> (\<forall>e. freeup env e = None)"

definition READ_WRITE :: "32 word" where "READ_WRITE = EPOLLIN OR EPOLLOUT"

lemma event_bits [simp]:
  "EPOLLIN AND EPOLLOUT = 0" "READ_WRITE AND EPOLLOUT \<noteq> 0" "EPOLLIN OR READ_WRITE = READ_WRITE"
  "READ_WRITE OR READ_WRITE = READ_WRITE" "EPOLLIN \<noteq> READ_WRITE" "READ_WRITE \<noteq> EPOLLIN"
  "POLLIN AND POLLOUT = 0" "POLLOUT AND POLLIN = 0"
  "EPOLLIN \<noteq> 0" "POLLIN \<noteq> 0" "POLLOUT \<noteq> 0" "READ_WRITE AND EPOLLIN \<noteq> 0"
  by (simp_all add: READ_WRITE_def EPOLLIN_def EPOLLOUT_def POLLIN_def POLLOUT_def)

text \<open>One relay: its offsets, and the rest.\<close>

definition offsets_ok :: "nio_relay \<Rightarrow> bool" where
  "offsets_ok r \<longleftrightarrow> 0 \<le> r_x2 r \<and> (r_x2 r < int (r_x1 r) \<or> r_x1 r = 0 \<and> r_x2 r = 0)"

definition relay_ok :: "'h relay_env \<Rightarrow> nio_relay \<Rightarrow> bool" where
  "relay_ok env r \<longleftrightarrow> length (r_buf r) = r_L r \<and> r_L r = relaybuf env \<and> r_x1 r \<le> r_L r \<and>
     (\<forall>p. r_peer r = Some p \<longrightarrow> p < maxrelay env) \<and>
     (if r_status r = RELAY_ACTIVE
      then 0 \<le> r_s r \<and> r_ev r \<in> {Some 0, Some EPOLLIN, Some READ_WRITE} \<and> r_bits r \<in> {EPOLLIN, READ_WRITE} \<and> r_peer r \<noteq> None
      else r_s r = -1 \<and> r_ev r = None \<and> r_x1 r = 0 \<and> r_x2 r = 0)"

definition active :: "'h relay_env \<Rightarrow> (nat \<Rightarrow> nio_relay) \<Rightarrow> nat \<Rightarrow> bool" where
  "active env f i \<longleftrightarrow> i < maxrelay env \<and> r_status (f i) = RELAY_ACTIVE"

text \<open>
  All of them: the cache holds the relays that are not active and the array the others; the table leads
  from the text of a number to the relay of that number, which is waiting and has a peer; active
  relays have sockets of their own, in the epoll set with their events. The relays in \<open>S\<close> may have
  bad offsets, on the way to being shut.
\<close>

definition relays_ok :: "'h relay_env \<Rightarrow> nat set \<Rightarrow> (nat \<Rightarrow> nio_relay) \<Rightarrow> bool" where
  "relays_ok env S f \<longleftrightarrow>
     (\<forall>i < maxrelay env. relay_ok env (f i) \<and> r_peer (f i) \<noteq> Some i \<and> (i \<notin> S \<longrightarrow> offsets_ok (f i)))"

definition pool_ok :: "'h relay_env \<Rightarrow> (nat \<Rightarrow> nio_relay) \<Rightarrow> nat list \<Rightarrow> (nat \<Rightarrow> nat option) \<Rightarrow> bool" where
  "pool_ok env f q arr \<longleftrightarrow> distinct q \<and> set q = {i. i < maxrelay env \<and> \<not> active env f i} \<and>
     (\<forall>i < maxrelay env. arr i = (if active env f i then Some i else None))"

definition waiting_ok :: "'h relay_env \<Rightarrow> (nat \<Rightarrow> nio_relay) \<Rightarrow> (string \<Rightarrow> nat option) \<Rightarrow> bool" where
  "waiting_ok env f t \<longleftrightarrow>
     (\<forall>k i. t k = Some i \<longrightarrow> i < maxrelay env \<and> k = fmt_d (int i) \<and> r_status (f i) = RELAY_WAIT_ACCEPT \<and> r_peer (f i) \<noteq> None)"

definition sockets_ok :: "'h relay_env \<Rightarrow> (nat \<Rightarrow> nio_relay) \<Rightarrow> (int \<Rightarrow> 32 word option) \<Rightarrow> bool" where
  "sockets_ok env f e \<longleftrightarrow>
     (\<forall>i j. active env f i \<longrightarrow> active env f j \<longrightarrow> r_s (f i) = r_s (f j) \<longrightarrow> i = j) \<and>
     (\<forall>i. active env f i \<longrightarrow> e (r_s (f i)) = Some (r_bits (f i)))"

definition peers_ok :: "'h relay_env \<Rightarrow> (nat \<Rightarrow> nio_relay) \<Rightarrow> bool" where
  "peers_ok env f \<longleftrightarrow> (\<forall>i < maxrelay env. \<forall>p. r_peer (f i) = Some p \<longrightarrow> r_peer (f p) \<noteq> None)"

definition pyx_ok_but :: "'h relay_env \<Rightarrow> ('h \<Rightarrow> string \<Rightarrow> nat option) \<Rightarrow> nat set \<Rightarrow> 'h pyx \<Rightarrow> bool" where
  "pyx_ok_but env tab S st \<longleftrightarrow> relays_ok env S (relay st) \<and> pool_ok env (relay st) (relaycache st) (relayarray st) \<and>
     waiting_ok env (relay st) (tab (wpeers st)) \<and> sockets_ok env (relay st) (epolled st) \<and> peers_ok env (relay st)"

abbreviation pyx_ok :: "'h relay_env \<Rightarrow> ('h \<Rightarrow> string \<Rightarrow> nat option) \<Rightarrow> 'h pyx \<Rightarrow> bool" where
  "pyx_ok env tab st \<equiv> pyx_ok_but env tab {} st"

lemma pyx_ok_init: "table_ok env tab \<Longrightarrow> pyx_ok env tab (nioinit env)"
  by (auto simp: pyx_ok_but_def relays_ok_def pool_ok_def waiting_ok_def sockets_ok_def peers_ok_def nioinit_def table_ok_def relay_ok_def
      offsets_ok_def idle_relay_def active_def)

lemma relays_ok_active:
  assumes "relays_ok env S f" "i < maxrelay env"
  shows "active env f i \<longleftrightarrow> 0 \<le> r_s (f i)" "active env f i \<longleftrightarrow> r_ev (f i) \<noteq> None"
  using assms by (auto simp: active_def relays_ok_def relay_ok_def split: if_splits)

text \<open>Changing one relay.\<close>

lemma active_upd: "active env (f(i := r)) j \<longleftrightarrow> (if j = i then i < maxrelay env \<and> r_status r = RELAY_ACTIVE else active env f j)"
  by (simp add: active_def)

lemma relays_ok_upd:
  "relays_ok env S f \<Longrightarrow> relay_ok env r \<Longrightarrow> r_peer r \<noteq> Some i \<Longrightarrow> i \<notin> S' \<longrightarrow> offsets_ok r \<Longrightarrow> S - {i} \<subseteq> S' \<Longrightarrow>
   relays_ok env S' (f(i := r))"
  by (auto simp: relays_ok_def)

lemma pool_ok_same:
  "pool_ok env f q arr \<Longrightarrow> r_status r = RELAY_ACTIVE \<longleftrightarrow> r_status (f i) = RELAY_ACTIVE \<Longrightarrow> pool_ok env (f(i := r)) q arr"
  by (auto simp: pool_ok_def active_def)

lemma waiting_ok_same:
  "waiting_ok env f t \<Longrightarrow> r_status r = r_status (f i) \<Longrightarrow> r_peer (f i) \<noteq> None \<longrightarrow> r_peer r \<noteq> None \<Longrightarrow> waiting_ok env (f(i := r)) t"
  by (auto simp: waiting_ok_def)

lemma sockets_ok_same:
  "sockets_ok env f e \<Longrightarrow> r_status r = r_status (f i) \<Longrightarrow> r_s r = r_s (f i) \<Longrightarrow> r_bits r = r_bits (f i) \<Longrightarrow> sockets_ok env (f(i := r)) e"
  by (auto simp: sockets_ok_def active_def)

lemma peers_ok_same: "peers_ok env f \<Longrightarrow> r_peer r = r_peer (f i) \<Longrightarrow> peers_ok env (f(i := r))"
  by (auto simp: peers_ok_def)

lemma sockets_ok_bits:
  assumes "sockets_ok env f e" "active env f i" "r_status r = r_status (f i)" "r_s r = r_s (f i)"
  shows "sockets_ok env (f(i := r)) (e(r_s (f i) \<mapsto> r_bits r))"
  using assms by (auto simp: sockets_ok_def active_upd)

lemma pyx_ok_shut:
  assumes "pyx_ok_but env tab S st" "active env (relay st) i"
    and "relay_ok env r" "offsets_ok r" "r_status r = RELAY_IDLE" "r_peer r = r_peer (relay st i)"
  shows "relays_ok env (S - {i}) ((relay st)(i := r))" "waiting_ok env ((relay st)(i := r)) (tab (wpeers st))"
    "pool_ok env ((relay st)(i := r)) (relaycache st @ [i]) ((relayarray st)(i := None))"
    "sockets_ok env ((relay st)(i := r)) ((epolled st)(r_s (relay st i) := None))" "peers_ok env ((relay st)(i := r))"
proof -
  from assms(1,6) show "peers_ok env ((relay st)(i := r))" by (auto simp: pyx_ok_but_def intro: peers_ok_same)
  from assms(1,2) have "r_peer r \<noteq> Some i" by (auto simp: pyx_ok_but_def relays_ok_def active_def assms(6))
  with assms show "relays_ok env (S - {i}) ((relay st)(i := r))"
    by (auto simp: pyx_ok_but_def intro: relays_ok_upd)
  from assms(1,2,5) show "waiting_ok env ((relay st)(i := r)) (tab (wpeers st))"
    by (auto simp: pyx_ok_but_def waiting_ok_def active_def)
  from assms(1,2,5) show "pool_ok env ((relay st)(i := r)) (relaycache st @ [i]) ((relayarray st)(i := None))"
    by (auto simp: pyx_ok_but_def pool_ok_def active_upd) (auto simp: active_def)
  from assms(1,2,5) show "sockets_ok env ((relay st)(i := r)) ((epolled st)(r_s (relay st i) := None))"
    by (auto simp: pyx_ok_but_def sockets_ok_def active_upd)
qed

text \<open>A step that leaves the table and every waiting relay.\<close>

definition keeps_waiting :: "'h pyx \<Rightarrow> 'h pyx \<Rightarrow> bool" where
  "keeps_waiting st st' \<longleftrightarrow> wpeers st' = wpeers st \<and>
     (\<forall>j. r_status (relay st j) = RELAY_WAIT_ACCEPT \<longrightarrow> r_status (relay st' j) = RELAY_WAIT_ACCEPT)"

lemma keeps_waiting_refl [simp]: "keeps_waiting st st"
  by (simp add: keeps_waiting_def)

lemma keeps_waiting_trans: "keeps_waiting st st1 \<Longrightarrow> keeps_waiting st1 st2 \<Longrightarrow> keeps_waiting st st2"
  by (simp add: keeps_waiting_def)

lemma shut_ok:
  assumes "frees_null env" "pyx_ok_but env tab S st" "i < maxrelay env"
  shows "\<exists>st'. nioshutrelay env st i = Inr st' \<and> pyx_ok_but env tab (S - {i}) st' \<and>
    relay st' = (relay st)(i := relay st' i) \<and> r_peer (relay st' i) = r_peer (relay st i) \<and> \<not> active env (relay st') i \<and>
    keeps_waiting st st'"
proof -
  from assms(2) have ok: "relays_ok env S (relay st)" by (simp add: pyx_ok_but_def)
  show ?thesis
  proof (cases "active env (relay st) i")
    case False
    then have r: "r_s (relay st i) < 0" "offsets_ok (relay st i)"
      using relays_ok_active [OF ok assms(3)] ok assms(3) by (auto simp: relays_ok_def relay_ok_def active_def offsets_ok_def)
    then have "pyx_ok_but env tab (S - {i}) st" using assms(2) by (auto simp: pyx_ok_but_def relays_ok_def)
    with r False show ?thesis by (simp add: nioshutrelay_def)
  next
    case True
    then have r: "0 \<le> r_s (relay st i)" "r_status (relay st i) = RELAY_ACTIVE" "i \<notin> set (relaycache st)"
      "r_ev (relay st i) \<noteq> None"
      using relays_ok_active [OF ok assms(3)] assms(2) by (auto simp: pyx_ok_but_def pool_ok_def active_def)
    define r' where "r' = (relay st i)\<lparr>r_ev := None, r_s := -1, r_status := RELAY_IDLE, r_x1 := 0, r_x2 := 0,
      r_rbytes := 0, r_wbytes := 0, r_bits := 0\<rparr>"
    have "relay_ok env r'" "offsets_ok r'" "r_status r' = RELAY_IDLE" "r_peer r' = r_peer (relay st i)"
      using ok assms(3) by (auto simp: r'_def relays_ok_def relay_ok_def offsets_ok_def)
    from pyx_ok_shut [OF assms(2) True this] this(3,4) show ?thesis
      using r assms(1) by (auto simp: nioshutrelay_def Let_def seq_enque_def upd_relay_def frees_null_def pyx_ok_but_def active_upd keeps_waiting_def
          simp flip: r'_def)
  qed
qed

section \<open>Reading and writing keep the invariant\<close>

text \<open>The bytes in the buffer that have not been written yet.\<close>

definition pending :: "nio_relay \<Rightarrow> char list" where
  "pending r = take (r_x1 r - nat (r_x2 r)) (drop (nat (r_x2 r)) (r_buf r))"

lemma epoll_mod_fields [simp]:
  "relay (epoll_mod st s ev) = relay st" "wpeers (epoll_mod st s ev) = wpeers st" "sent (epoll_mod st s ev) = sent st"
  "relaycache (epoll_mod st s ev) = relaycache st" "relayarray (epoll_mod st s ev) = relayarray st"
  by (simp_all add: epoll_mod_def split: option.split)

lemma upd_relay_fields [simp]:
  "relay (upd_relay st i f) = (relay st)(i := f (relay st i))" "wpeers (upd_relay st i f) = wpeers st"
  "sent (upd_relay st i f) = sent st" "relaycache (upd_relay st i f) = relaycache st"
  "relayarray (upd_relay st i f) = relayarray st" "epolled (upd_relay st i f) = epolled st"
  by (simp_all add: upd_relay_def)

lemma set_events_fields [simp]:
  "relay (set_events st p ev bits) = (relay st)(p := (relay st p)\<lparr>r_ev := Some ev, r_bits := bits\<rparr>)"
  "wpeers (set_events st p ev bits) = wpeers st" "sent (set_events st p ev bits) = sent st"
  by (simp_all add: set_events_def)

lemma set_events_ok:
  assumes "pyx_ok_but env tab S st" "active env (relay st) p" "ev \<in> {EPOLLIN, READ_WRITE}"
  shows "pyx_ok_but env tab S (set_events st p ev ev)"
proof -
  let ?r = "(relay st p)\<lparr>r_ev := Some ev, r_bits := ev\<rparr>"
  from assms(1,2) have e: "epolled st (r_s (relay st p)) \<noteq> None" and p: "p < maxrelay env"
    by (auto simp: pyx_ok_but_def sockets_ok_def active_def)
  have "relays_ok env S ((relay st)(p := ?r))"
    by (rule relays_ok_upd [where S = S]) (use assms p in \<open>auto simp: pyx_ok_but_def relays_ok_def relay_ok_def offsets_ok_def active_def\<close>)
  moreover have "sockets_ok env ((relay st)(p := ?r)) ((epolled st)(r_s (relay st p) \<mapsto> r_bits ?r))"
    using assms(1,2) by (intro sockets_ok_bits) (auto simp: pyx_ok_but_def)
  moreover have "pool_ok env ((relay st)(p := ?r)) (relaycache st) (relayarray st)"
    "waiting_ok env ((relay st)(p := ?r)) (tab (wpeers st))" "peers_ok env ((relay st)(p := ?r))"
    using assms(1) by (auto simp: pyx_ok_but_def intro: pool_ok_same waiting_ok_same peers_ok_same)
  ultimately show ?thesis using e by (auto simp: pyx_ok_but_def set_events_def epoll_mod_def)
qed

lemma arm_write_eq:
  assumes "pyx_ok_but env tab S st" "active env (relay st) p"
  shows "arm_write st p = set_events st p READ_WRITE READ_WRITE"
proof -
  from assms have "relay_ok env (relay st p)" by (simp add: pyx_ok_but_def relays_ok_def active_def)
  with assms(2) have "r_ev (relay st p) \<in> {Some 0, Some EPOLLIN, Some READ_WRITE}" "r_bits (relay st p) \<in> {EPOLLIN, READ_WRITE}"
    by (auto simp: relay_ok_def active_def)
  then show ?thesis by (auto simp: arm_write_def simp flip: READ_WRITE_def)
qed

text \<open>Changing the buffer and its offsets only.\<close>

lemma upd_buffer_ok:
  assumes "pyx_ok_but env tab S st" "i < maxrelay env" "relay_ok env (f (relay st i))"
    and "i \<notin> S' \<longrightarrow> offsets_ok (f (relay st i))" "S - {i} \<subseteq> S'"
    and "r_status (f (relay st i)) = r_status (relay st i)" "r_s (f (relay st i)) = r_s (relay st i)"
    and "r_peer (f (relay st i)) = r_peer (relay st i)" "r_bits (f (relay st i)) = r_bits (relay st i)"
  shows "pyx_ok_but env tab S' (upd_relay st i f)"
  using assms by (auto simp: pyx_ok_but_def relays_ok_def intro!: relays_ok_upd pool_ok_same waiting_ok_same sockets_ok_same peers_ok_same)

lemma pyx_ok_relay:
  "pyx_ok_but env tab S st \<Longrightarrow> i < maxrelay env \<Longrightarrow> relay_ok env (relay st i)"
  "pyx_ok_but env tab S st \<Longrightarrow> i < maxrelay env \<Longrightarrow> r_peer (relay st i) \<noteq> Some i"
  "pyx_ok_but env tab S st \<Longrightarrow> i < maxrelay env \<Longrightarrow> i \<notin> S \<Longrightarrow> offsets_ok (relay st i)"
  by (auto simp: pyx_ok_but_def relays_ok_def)

lemma pyx_ok_sent [simp]: "pyx_ok_but env tab S (st\<lparr>sent := x\<rparr>) = pyx_ok_but env tab S st"
  by (simp add: pyx_ok_but_def)

lemma pyx_ok_mono:
  assumes "pyx_ok_but env tab S st" "S \<subseteq> S'"
  shows "pyx_ok_but env tab S' st"
  using assms by (auto simp: pyx_ok_but_def relays_ok_def)

text \<open>A step that leaves every session as it is: status, socket and peer of each relay, and the table.\<close>

definition same_session :: "'h pyx \<Rightarrow> 'h pyx \<Rightarrow> bool" where
  "same_session st st' \<longleftrightarrow> wpeers st' = wpeers st \<and>
     (\<forall>j. r_status (relay st' j) = r_status (relay st j) \<and> r_s (relay st' j) = r_s (relay st j) \<and>
       r_peer (relay st' j) = r_peer (relay st j) \<and> r_L (relay st' j) = r_L (relay st j))"

lemma same_session_trans: "same_session st st' \<Longrightarrow> same_session st' st'' \<Longrightarrow> same_session st st''"
  by (simp add: same_session_def)

lemma same_session_waiting: "same_session st st' \<Longrightarrow> keeps_waiting st st'"
  by (simp add: same_session_def keeps_waiting_def)

lemma same_session_refl [simp]: "same_session st st"
  by (simp add: same_session_def)

lemma same_session_active: "same_session st st' \<Longrightarrow> active env (relay st') i = active env (relay st) i"
  by (simp add: same_session_def active_def)

lemma same_session_set_events [simp]: "same_session st (set_events st p ev bits)"
  by (simp add: same_session_def)

lemma advance_write_ok:
  assumes "pyx_ok_but env tab S st" "i < maxrelay env" "active env (relay st) p" "p \<noteq> i"
    and "r_x2 (relay st i) < int (r_x1 (relay st i))" "0 \<le> r_x2 (relay st i)"
    and "r_x2 (relay st i) + cc \<le> int (r_x1 (relay st i))" "0 \<le> r_x2 (relay st i) + cc \<or> i \<in> S'" "S \<subseteq> S'"
    and "status \<longleftrightarrow> r_x2 (relay st i) + cc = int (r_x1 (relay st i))"
  shows "pyx_ok_but env tab S' (advance_write st i p cc) \<and> same_session st (advance_write st i p cc) \<and>
    sent (advance_write st i p cc) = sent st \<and>
    r_buf (relay (advance_write st i p cc) i) = r_buf (relay st i) \<and>
    r_x1 (relay (advance_write st i p cc) i) = (if status then 0 else r_x1 (relay st i)) \<and>
    r_x2 (relay (advance_write st i p cc) i) = (if status then 0 else r_x2 (relay st i) + cc) \<and>
    r_bits (relay (advance_write st i p cc) i) = r_bits (relay st i) \<and>
    relay (advance_write st i p cc) p = (if status then relay st p else (relay st p)\<lparr>r_ev := Some READ_WRITE, r_bits := READ_WRITE\<rparr>)"
proof -
  let ?r = "relay st i"
  let ?st1 = "upd_relay st i (\<lambda>r. r\<lparr>r_x2 := r_x2 r + cc, r_wbytes := r_wbytes r + cc\<rparr>)"
  have ro: "relay_ok env ?r" "active env (relay st) i" using pyx_ok_relay [OF assms(1,2)] assms(2,5,6)
    by (auto simp: relay_ok_def active_def split: if_splits)
  show ?thesis
  proof (cases status)
    case True
    with assms(10) have e: "advance_write st i p cc = upd_relay ?st1 i (\<lambda>r. r\<lparr>r_x2 := 0, r_x1 := 0\<rparr>)"
      by (simp add: advance_write_def)
    have u: "upd_relay ?st1 i (\<lambda>r. r\<lparr>r_x2 := 0, r_x1 := 0\<rparr>) =
        upd_relay st i (\<lambda>r. r\<lparr>r_wbytes := r_wbytes r + cc, r_x2 := 0, r_x1 := 0\<rparr>)"
      by (simp add: upd_relay_def)
    have "pyx_ok_but env tab S' (upd_relay st i (\<lambda>r. r\<lparr>r_wbytes := r_wbytes r + cc, r_x2 := 0, r_x1 := 0\<rparr>))"
      using assms(1,2,9) ro by (intro upd_buffer_ok) (auto simp: relay_ok_def offsets_ok_def active_def)
    with True assms(4) show ?thesis unfolding e u by (auto simp: same_session_def)
  next
    case False
    have "pyx_ok_but env tab S' ?st1"
      using assms(1,2,7,8,9,10) ro False by (intro upd_buffer_ok) (auto simp: relay_ok_def offsets_ok_def active_def)
    moreover have "active env (relay ?st1) p" using assms(3,4) by (simp add: active_def)
    ultimately have "arm_write ?st1 p = set_events ?st1 p READ_WRITE READ_WRITE"
      "pyx_ok_but env tab S' (set_events ?st1 p READ_WRITE READ_WRITE)"
      by (auto intro: arm_write_eq set_events_ok)
    with False assms(4,10) show ?thesis by (auto simp: advance_write_def same_session_def)
  qed
qed

text \<open>What a flush that takes \<open>n\<close> bytes does to the data.\<close>

definition flushed :: "'h pyx \<Rightarrow> nat \<Rightarrow> nat \<Rightarrow> nat \<Rightarrow> 'h pyx \<Rightarrow> bool" where
  "flushed st i p n st' \<longleftrightarrow>
     sent st' = (sent st)(r_s (relay st p) := sent st (r_s (relay st p)) @ take n (pending (relay st i))) \<and>
     pending (relay st' i) = drop n (pending (relay st i)) \<and> pending (relay st' p) = pending (relay st p) \<and>
     r_bits (relay st' p) = (if pending (relay st' i) = [] then EPOLLIN else READ_WRITE) \<and>
     r_bits (relay st' i) = r_bits (relay st i)"

lemma pending_length: "relay_ok env r \<Longrightarrow> 0 \<le> r_x2 r \<Longrightarrow> length (pending r) = r_x1 r - nat (r_x2 r)"
  by (auto simp: pending_def relay_ok_def)

lemma pending_cong [simp]: "pending (r\<lparr>r_ev := a, r_bits := b\<rparr>) = pending r"
  by (simp add: pending_def)

lemma pending_drop:
  assumes "r_buf r' = r_buf r" "r_x1 r' = (if s then 0 else r_x1 r)" "r_x2 r' = (if s then 0 else r_x2 r + int m)"
    and "s \<longleftrightarrow> r_x2 r + int m = int (r_x1 r)" "0 \<le> r_x2 r" "m = min n (r_x1 r - nat (r_x2 r))"
    and "r_x2 r < int (r_x1 r)" "r_x1 r \<le> length (r_buf r)"
  shows "pending r' = drop n (pending r)" "pending r' = [] \<longleftrightarrow> s"
proof -
  define a where "a = nat (r_x2 r)"
  have a: "r_x2 r = int a" "a < r_x1 r" using assms(5,7) by (simp_all add: a_def)
  have m: "m = min n (r_x1 r - a)" using assms(6) by (simp add: a_def)
  have len: "length (pending r) = r_x1 r - a" using assms(8) by (simp add: pending_def a_def)
  have "pending r' = drop n (pending r) \<and> (pending r' = [] \<longleftrightarrow> s)"
  proof (cases s)
    case True
    with assms(4) a have "a + m = r_x1 r" by linarith
    with m have "r_x1 r - a \<le> n" by linarith
    with len True show ?thesis using assms(2) by (simp add: pending_def)
  next
    case False
    with assms(4) a have "a + m \<noteq> r_x1 r" by linarith
    with m a(2) have mn: "m = n" "n < r_x1 r - a" by linarith+
    have "nat (r_x2 r') = n + a" "r_x1 r' = r_x1 r" using False assms(2,3) a(1) mn(1) by simp_all
    then have "pending r' = take (r_x1 r - (a + n)) (drop (n + a) (r_buf r))" using assms(1) by (simp add: pending_def add.commute)
    also have "\<dots> = drop n (pending r)" by (simp add: pending_def a_def [symmetric] drop_take)
    finally have "pending r' = drop n (pending r)" .
    with mn(2) len False show ?thesis by simp
  qed
  then show "pending r' = drop n (pending r)" "pending r' = [] \<longleftrightarrow> s" by blast+
qed

lemma flush_go:
  assumes "pyx_ok_but env tab S st" "i < maxrelay env" "i \<notin> S" "r_peer (relay st i) = Some p" "active env (relay st) p"
  shows "\<exists>st1. pyx_ok_but env tab S st1 \<and> same_session st st1 \<and> active env (relay st1) p \<and>
    relay st1 i = relay st i \<and> sent st1 = sent st \<and> r_bits (relay st1 p) = EPOLLIN \<and>
    pending (relay st1 p) = pending (relay st p) \<and> r_s (relay st1 p) = r_s (relay st p) \<and>
    (\<forall>w. nioflush2peer st i w =
      (if r_x1 (relay st i) = 0 then Inr (0, None, st1)
       else case w of
          Wr_bytes n \<Rightarrow>
            (let m = min n (r_x1 (relay st i) - nat (r_x2 (relay st i)))
             in Inr (int m, None, advance_write (st1\<lparr>sent := (sent st)(r_s (relay st p) :=
                  sent st (r_s (relay st p)) @ take m (drop (nat (r_x2 (relay st i))) (r_buf (relay st i))))\<rparr>) i p (int m)))
        | Wr_errno e \<Rightarrow> if e = EAGAIN then Inr (-1, Some e, arm_write st1 p) else Inr (-1, Some e, advance_write st1 i p (-1))))"
proof -
  note rel = pyx_ok_relay [OF assms(1)]
  have p: "p < maxrelay env" "p \<noteq> i" using rel(1,2) [OF assms(2)] assms(4) by (auto simp: relay_ok_def)
  have ok: "relays_ok env S (relay st)" using assms(1) by (simp add: pyx_ok_but_def)
  obtain y where ev: "r_ev (relay st p) = Some y" using relays_ok_active [OF ok p(1)] assms(5) by auto
  have pb: "r_bits (relay st p) \<in> {EPOLLIN, READ_WRITE}" using rel(1) [OF p(1)] assms(5) by (auto simp: relay_ok_def active_def)
  define st1 where "st1 = (if r_bits (relay st p) AND EPOLLOUT \<noteq> 0 then set_events st p EPOLLIN EPOLLIN else st)"
  have ok1: "pyx_ok_but env tab S st1" "same_session st st1" "active env (relay st1) p"
    using set_events_ok [OF assms(1,5), of EPOLLIN] assms(1,5) by (auto simp: st1_def active_def)
  have r1: "relay st1 i = relay st i" "sent st1 = sent st" "r_bits (relay st1 p) = EPOLLIN" "pending (relay st1 p) = pending (relay st p)"
    "r_s (relay st1 p) = r_s (relay st p)"
    using p(2) pb by (auto simp: st1_def)
  note off = rel(3) [OF assms(2,3), unfolded offsets_ok_def]
  let ?r = "relay st i"
  have x2: "r_x1 ?r \<noteq> 0 \<Longrightarrow> \<not> (r_x2 ?r < 0 \<or> int (r_x1 ?r) < r_x2 ?r) \<and> int (r_x1 ?r) \<noteq> r_x2 ?r" using off by auto
  have "nioflush2peer st i w =
      (if r_x1 ?r = 0 then Inr (0, None, st1)
       else case w of
          Wr_bytes n \<Rightarrow>
            (let m = min n (r_x1 ?r - nat (r_x2 ?r))
             in Inr (int m, None, advance_write (st1\<lparr>sent := (sent st)(r_s (relay st p) :=
                  sent st (r_s (relay st p)) @ take m (drop (nat (r_x2 ?r)) (r_buf ?r)))\<rparr>) i p (int m)))
        | Wr_errno e \<Rightarrow> if e = EAGAIN then Inr (-1, Some e, arm_write st1 p) else Inr (-1, Some e, advance_write st1 i p (-1)))" for w
  proof (cases "r_x1 ?r = 0")
    case True
    with off have "r_x2 ?r = 0" by auto
    with True ev assms(4) r1(1) show ?thesis by (simp add: nioflush2peer_def Let_def flip: st1_def)
  next
    case False
    with ev assms(4) r1 x2 show ?thesis by (cases w) (simp_all add: nioflush2peer_def Let_def flip: st1_def)
  qed
  with ok1 r1 show ?thesis by blast
qed

lemma flush_spec:
  assumes "pyx_ok_but env tab S st" "i < maxrelay env" "i \<notin> S" "r_peer (relay st i) = Some p"
  shows "\<exists>cc e st'. nioflush2peer st i w = Inr (cc, e, st') \<and> same_session st st' \<and>
    pyx_ok_but env tab (if cc < 0 \<and> e \<noteq> Some EAGAIN then insert i S else S) st' \<and>
    (cc < 0 \<longrightarrow> (\<exists>x. w = Wr_errno x \<and> e = Some x)) \<and>
    (active env (relay st) p \<longrightarrow> (\<forall>n. w = Wr_bytes n \<or> n = 0 \<and> w = Wr_errno EAGAIN \<longrightarrow> flushed st i p n st'))"
proof -
  note rel = pyx_ok_relay [OF assms(1)]
  have p: "p < maxrelay env" "p \<noteq> i" using rel(1,2) [OF assms(2)] assms(4) by (auto simp: relay_ok_def)
  have ok: "relays_ok env S (relay st)" using assms(1) by (simp add: pyx_ok_but_def)
  show ?thesis
  proof (cases "active env (relay st) p")
    case False
    then have "r_ev (relay st p) = None" using relays_ok_active [OF ok p(1)] by simp
    with False show ?thesis using assms(1,4)
      by (auto simp: nioflush2peer_def)
  next
    case act: True
    from flush_go [OF assms act] obtain st1 where ok1: "pyx_ok_but env tab S st1" "same_session st st1" "active env (relay st1) p"
      and r1: "relay st1 i = relay st i" "sent st1 = sent st" "r_bits (relay st1 p) = EPOLLIN" "pending (relay st1 p) = pending (relay st p)"
        "r_s (relay st1 p) = r_s (relay st p)"
      and go: "nioflush2peer st i w =
        (if r_x1 (relay st i) = 0 then Inr (0, None, st1)
         else case w of
            Wr_bytes n \<Rightarrow>
              (let m = min n (r_x1 (relay st i) - nat (r_x2 (relay st i)))
               in Inr (int m, None, advance_write (st1\<lparr>sent := (sent st)(r_s (relay st p) :=
                    sent st (r_s (relay st p)) @ take m (drop (nat (r_x2 (relay st i))) (r_buf (relay st i))))\<rparr>) i p (int m)))
          | Wr_errno e \<Rightarrow> if e = EAGAIN then Inr (-1, Some e, arm_write st1 p) else Inr (-1, Some e, advance_write st1 i p (-1)))"
      for w by blast
    note off = rel(3) [OF assms(2,3), unfolded offsets_ok_def]
    show ?thesis
    proof (cases "r_x1 (relay st i) = 0")
      case True
      with off have "nioflush2peer st i w = Inr (0, None, st1)" "pending (relay st i) = []"
        using go [of w] by (auto simp: pending_def)
      then show ?thesis using ok1 r1 by (auto simp: flushed_def)
    next
      case x1: False
      let ?r = "relay st i"
      have x2: "0 \<le> r_x2 ?r" "r_x2 ?r < int (r_x1 ?r)" using off x1 by auto
      note go = go [of w, unfolded if_not_P [OF x1]]
      show ?thesis
      proof (cases w)
        case (Wr_bytes n)
        define m where "m = min n (r_x1 ?r - nat (r_x2 ?r))"
        define st2 where "st2 = st1\<lparr>sent := (sent st)(r_s (relay st p) :=
          sent st (r_s (relay st p)) @ take m (drop (nat (r_x2 ?r)) (r_buf ?r)))\<rparr>"
        have m: "int m \<le> int (r_x1 ?r) - r_x2 ?r" using x2 by (simp add: m_def)
        have f2: "relay st2 = relay st1" "wpeers st2 = wpeers st1" by (simp_all add: st2_def)
        have "pyx_ok_but env tab S st2" using ok1(1) by (simp add: st2_def)
        from advance_write_ok [OF this assms(2) _ p(2), of "int m" S "r_x2 ?r + int m = int (r_x1 ?r)"]
        have adv: "pyx_ok_but env tab S (advance_write st2 i p (int m))" "same_session st2 (advance_write st2 i p (int m))"
          "sent (advance_write st2 i p (int m)) = sent st2"
          "r_buf (relay (advance_write st2 i p (int m)) i) = r_buf ?r"
          "r_x1 (relay (advance_write st2 i p (int m)) i) = (if r_x2 ?r + int m = int (r_x1 ?r) then 0 else r_x1 ?r)"
          "r_x2 (relay (advance_write st2 i p (int m)) i) = (if r_x2 ?r + int m = int (r_x1 ?r) then 0 else r_x2 ?r + int m)"
          "r_bits (relay (advance_write st2 i p (int m)) i) = r_bits ?r"
          "relay (advance_write st2 i p (int m)) p = (if r_x2 ?r + int m = int (r_x1 ?r) then relay st1 p
             else (relay st1 p)\<lparr>r_ev := Some READ_WRITE, r_bits := READ_WRITE\<rparr>)"
          using ok1(3) r1 f2 x2 m by auto
        have "r_x1 ?r \<le> length (r_buf ?r)" using rel(1) [OF assms(2)] by (simp add: relay_ok_def)
        note pd = pending_drop [OF adv(4-6) refl x2(1) m_def x2(2) this]
        have "take m (drop (nat (r_x2 ?r)) (r_buf ?r)) = take n (pending ?r)" by (simp add: pending_def m_def)
        then have "flushed st i p n (advance_write st2 i p (int m))"
          unfolding flushed_def using adv(3,7,8) pd r1 x2 by (auto simp: st2_def)
        moreover have "same_session st (advance_write st2 i p (int m))"
          using ok1(2) f2 adv(2) by (auto simp: same_session_def)
        moreover have "nioflush2peer st i w = Inr (int m, None, advance_write st2 i p (int m))"
          unfolding go by (simp add: Wr_bytes m_def st2_def Let_def)
        ultimately show ?thesis using adv(1) Wr_bytes by auto
      next
        case (Wr_errno e)
        show ?thesis
        proof (cases "e = EAGAIN")
          case True
          have a: "arm_write st1 p = set_events st1 p READ_WRITE READ_WRITE" by (rule arm_write_eq [OF ok1(1,3)])
          have "pending ?r \<noteq> []" using pending_length [OF rel(1) [OF assms(2)] x2(1)] x2 by auto
          moreover have "pyx_ok_but env tab S (set_events st1 p READ_WRITE READ_WRITE)" using set_events_ok [OF ok1(1,3)] by simp
          ultimately show ?thesis using True Wr_errno r1 p(2) same_session_trans [OF ok1(2) same_session_set_events]
            unfolding go by (auto simp: a flushed_def)
        next
          case False
          from advance_write_ok [OF ok1(1) assms(2) ok1(3) p(2), of "-1" "insert i S" "False"]
          have "pyx_ok_but env tab (insert i S) (advance_write st1 i p (-1))" "same_session st1 (advance_write st1 i p (-1))"
            using r1 x2 by auto
          then show ?thesis using False Wr_errno same_session_trans [OF ok1(2)] unfolding go by auto
        qed
      qed
    qed
  qed
qed

text \<open>An error other than \<open>EAGAIN\<close> moves the offset back.\<close>

lemma flush_error:
  assumes "pyx_ok_but env tab S st" "i < maxrelay env" "i \<notin> S" "r_peer (relay st i) = Some p" "active env (relay st) p"
    and "pending (relay st i) \<noteq> []" "e \<noteq> EAGAIN"
  shows "\<exists>st'. nioflush2peer st i (Wr_errno e) = Inr (-1, Some e, st') \<and> same_session st st' \<and>
    r_buf (relay st' i) = r_buf (relay st i) \<and> r_x1 (relay st' i) = r_x1 (relay st i) \<and>
    r_x2 (relay st' i) = r_x2 (relay st i) - 1 \<and> r_ev (relay st' p) \<noteq> None"
proof -
  have p: "p \<noteq> i" using pyx_ok_relay(2) [OF assms(1,2)] assms(4) by auto
  from flush_go [OF assms(1-5)] obtain st1 where st1: "pyx_ok_but env tab S st1" "same_session st st1" "active env (relay st1) p"
    "relay st1 i = relay st i" "r_x1 (relay st i) \<noteq> 0 \<Longrightarrow> nioflush2peer st i (Wr_errno e) = Inr (-1, Some e, advance_write st1 i p (-1))"
    using assms(7) by auto
  have off: "r_x1 (relay st i) \<noteq> 0" "0 \<le> r_x2 (relay st i)" "r_x2 (relay st i) < int (r_x1 (relay st i))"
    using pyx_ok_relay(3) [OF assms(1-3)] assms(6) by (auto simp: offsets_ok_def pending_def)
  from advance_write_ok [OF st1(1) assms(2) st1(3) p, of "-1" "insert i S" False] off st1(4)
  show ?thesis using st1(5) [OF off(1)] same_session_trans [OF st1(2)] subset_insertI [of S i]
    by (intro exI [of _ "advance_write st1 i p (-1)"]) auto
qed

end
