(* ===== verification/RelayRun.thy ===== *)
theory RelayRun
  imports Relay
begin

text \<open>
  The events of the relays, one after the other: every operation keeps the invariant of \<open>Relay\<close>, so it
  holds in every state that the daemon reaches, whatever the clients, the kernel and the control
  connections do; and between two active relays the data of each direction are a first-in first-out
  buffer. Then the cases in which sessions are not released.
\<close>

section \<open>Each event\<close>

text \<open>What a read takes from the kernel.\<close>

definition taken :: "nio_relay \<Rightarrow> rd_answer \<Rightarrow> char list" where
  "taken r rd = (if r_x1 r = r_L r then [] else case rd of Rd_bytes bs \<Rightarrow> take (r_L r - r_x1 r) bs | Rd_errno e \<Rightarrow> [])"

definition read_ends :: "nio_relay \<Rightarrow> rd_answer \<Rightarrow> bool" where
  "read_ends r rd \<longleftrightarrow> r_x1 r \<noteq> r_L r \<and> (rd = Rd_bytes [] \<or> rd = Rd_errno EOTHER)"

lemma pending_append:
  assumes "relay_ok env r" "offsets_ok r" "bs = take (r_L r - r_x1 r) bs0"
  shows "pending (r\<lparr>r_buf := take (r_x1 r) (r_buf r) @ bs @ drop (r_x1 r + length bs) (r_buf r), r_x1 := r_x1 r + length bs,
    r_rbytes := n\<rparr>) = pending r @ bs"
proof -
  define a where "a = nat (r_x2 r)"
  have a: "a \<le> r_x1 r" "r_x1 r \<le> length (r_buf r)" using assms(1,2) by (auto simp: a_def relay_ok_def offsets_ok_def)
  have "drop a (take (r_x1 r) (r_buf r) @ bs @ drop (r_x1 r + length bs) (r_buf r)) =
      drop a (take (r_x1 r) (r_buf r)) @ bs @ drop (r_x1 r + length bs) (r_buf r)" using a by simp
  moreover have "length (drop a (take (r_x1 r) (r_buf r))) = r_x1 r - a" using a by simp
  moreover have "r_x1 r + length bs - a = (r_x1 r - a) + length bs" using a by simp
  ultimately show ?thesis by (simp add: pending_def a_def [symmetric] drop_take)
qed

lemma read_spec:
  assumes "pyx_ok_but env tab S st" "i < maxrelay env" "i \<notin> S" "active env (relay st) i"
  shows "\<exists>cc e st'. niorelayread st i rd = Inr (cc, e, st') \<and> same_session st st' \<and> pyx_ok_but env tab S st' \<and>
    sent st' = sent st \<and> (\<forall>j. j \<noteq> i \<longrightarrow> relay st' j = relay st j) \<and> r_bits (relay st' i) = r_bits (relay st i) \<and>
    pending (relay st' i) = pending (relay st i) @ taken (relay st i) rd \<and>
    (cc = 0 \<or> cc < 0 \<and> \<not> transient e \<longleftrightarrow> read_ends (relay st i) rd)"
proof -
  let ?r = "relay st i"
  have r: "relay_ok env ?r" "offsets_ok ?r" using pyx_ok_relay [OF assms(1,2)] assms(3) by auto
  then have L: "r_x1 ?r \<le> r_L ?r" by (simp add: relay_ok_def)
  show ?thesis
  proof (cases "r_x1 ?r = r_L ?r")
    case True
    with assms(1) show ?thesis by (auto simp: niorelayread_def taken_def read_ends_def transient_def)
  next
    case False
    show ?thesis
    proof (cases rd)
      case (Rd_errno e)
      with False L assms(1) show ?thesis
        by (cases e) (auto simp: niorelayread_def taken_def read_ends_def transient_def)
    next
      case (Rd_bytes bs0)
      define bs where "bs = take (r_L ?r - r_x1 ?r) bs0"
      have t: "taken ?r rd = bs" using False Rd_bytes by (simp add: taken_def bs_def)
      show ?thesis
      proof (cases "bs = []")
        case True
        then have "bs0 = []" using False L by (simp add: bs_def)
        with Rd_bytes False L True t assms(1) show ?thesis by (auto simp: niorelayread_def read_ends_def)
      next
        case ne: False
        then have "bs0 \<noteq> []" by (auto simp: bs_def)
        define f :: "nio_relay \<Rightarrow> nio_relay" where "f = (\<lambda>r. r\<lparr>r_buf := take (r_x1 r) (r_buf r) @ bs @ drop (r_x1 r + length bs) (r_buf r),
          r_x1 := r_x1 r + length bs, r_rbytes := r_rbytes r + int (length bs)\<rparr>)"
        have rd: "niorelayread st i rd = Inr (int (length bs), None, upd_relay st i f)"
          using False L ne Rd_bytes by (simp add: niorelayread_def Let_def f_def flip: bs_def)
        have "length bs \<le> r_L ?r - r_x1 ?r" "0 < length bs" using ne by (simp_all add: bs_def [symmetric]) (simp add: bs_def)
        then have "pyx_ok_but env tab S (upd_relay st i f)"
          using assms r L by (intro upd_buffer_ok [where S = S]) (auto simp: f_def relay_ok_def offsets_ok_def active_def)
        moreover have "pending (f ?r) = pending ?r @ bs" unfolding f_def by (rule pending_append [OF r bs_def])
        ultimately show ?thesis using rd t ne \<open>bs0 \<noteq> []\<close> Rd_bytes
          by (auto simp: same_session_def f_def read_ends_def)
      qed
    qed
  qed
qed

lemma shut_pair_ok:
  assumes "frees_null env" "pyx_ok_but env tab S st" "i < maxrelay env" "r_peer (relay st i) = Some p" "S \<subseteq> {i, p}"
  shows "\<exists>st'. shut_pair env st i = Inr st' \<and> pyx_ok env tab st' \<and> keeps_waiting st st' \<and>
    (\<forall>j. r_peer (relay st' j) = r_peer (relay st j) \<and> (j \<notin> {i, p} \<longrightarrow> relay st' j = relay st j)) \<and>
    \<not> active env (relay st') i \<and> \<not> active env (relay st') p"
proof -
  have p: "p < maxrelay env" "p \<noteq> i" using pyx_ok_relay [OF assms(2,3)] assms(4) by (auto simp: relay_ok_def)
  from shut_ok [OF assms(1-3)] obtain st1 where st1: "nioshutrelay env st i = Inr st1" "pyx_ok_but env tab (S - {i}) st1"
    "relay st1 = (relay st)(i := relay st1 i)" "r_peer (relay st1 i) = r_peer (relay st i)" "\<not> active env (relay st1) i"
    "keeps_waiting st st1" by blast
  from shut_ok [OF assms(1) st1(2) p(1)] obtain st2 where st2: "nioshutrelay env st1 p = Inr st2" "pyx_ok_but env tab (S - {i} - {p}) st2"
    "relay st2 = (relay st1)(p := relay st2 p)" "r_peer (relay st2 p) = r_peer (relay st1 p)" "\<not> active env (relay st2) p"
    "keeps_waiting st1 st2" by blast
  have f: "relay st1 j = relay st j" if "j \<noteq> i" for j using fun_cong [OF st1(3), of j] that by simp
  have g: "relay st2 j = relay st1 j" if "j \<noteq> p" for j using fun_cong [OF st2(3), of j] that by simp
  have "S - {i} - {p} = {}" using assms(5) by auto
  with st2(2) have "pyx_ok env tab st2" by (simp only:)
  moreover have "shut_pair env st i = Inr st2" using st1(1,4) st2(1) assms(4) by (simp add: shut_pair_def)
  moreover have "r_peer (relay st2 j) = r_peer (relay st j)" for j
    using f [of j] g [of j] st1(4) st2(4) by (cases "j = p"; cases "j = i") auto
  moreover have "\<not> active env (relay st2) i" using st1(5) g [of i] p(2) by (simp add: active_def)
  ultimately show ?thesis using keeps_waiting_trans [OF st1(6) st2(6)] st2(5) f g by auto
qed

text \<open>The data of a relay that was readable, when nothing ends the session.\<close>

definition relayed :: "'h pyx \<Rightarrow> nat \<Rightarrow> nat \<Rightarrow> char list \<Rightarrow> 'h pyx \<Rightarrow> bool" where
  "relayed st i p new st' \<longleftrightarrow>
     (\<exists>out. sent st' = (sent st)(r_s (relay st p) := sent st (r_s (relay st p)) @ out) \<and>
        out @ pending (relay st' i) = pending (relay st i) @ new) \<and>
     pending (relay st' p) = pending (relay st p) \<and>
     r_bits (relay st' p) = (if pending (relay st' i) = [] then EPOLLIN else READ_WRITE) \<and>
     r_bits (relay st' i) = r_bits (relay st i)"

text \<open>A write that neither fails for good nor is interrupted.\<close>

definition write_works :: "wr_answer \<Rightarrow> bool" where
  "write_works w \<longleftrightarrow> w = Wr_errno EAGAIN \<or> (\<exists>n. w = Wr_bytes n)"

lemma flushed_relayed: "flushed st i p n st' \<Longrightarrow> relayed st i p [] st'"
  by (auto simp: flushed_def relayed_def)

lemma flush_works:
  assumes "pyx_ok_but env tab S st" "i < maxrelay env" "i \<notin> S" "r_peer (relay st i) = Some p" "write_works w"
  shows "\<exists>cc e st'. nioflush2peer st i w = Inr (cc, e, st') \<and> same_session st st' \<and> pyx_ok_but env tab S st' \<and>
    \<not> (cc < 0 \<and> \<not> transient e) \<and> (active env (relay st) p \<longrightarrow> relayed st i p [] st')"
  using flush_spec [OF assms(1-4), of w] assms(5) flushed_relayed
  by (auto simp: write_works_def transient_def split: if_splits) blast+

lemma relayed_read:
  assumes "relayed st1 i p [] st'" "pending (relay st1 i) = pending (relay st i) @ new" "sent st1 = sent st"
    and "relay st1 p = relay st p" "r_bits (relay st1 i) = r_bits (relay st i)"
  shows "relayed st i p new st'"
  using assms by (auto simp: relayed_def)

lemma ev_irrelevant [simp]:
  "taken (r\<lparr>r_ev := e\<rparr>) rd = taken r rd" "read_ends (r\<lparr>r_ev := e\<rparr>) rd = read_ends r rd" "pending (r\<lparr>r_ev := e\<rparr>) = pending r"
  by (cases rd; simp add: taken_def read_ends_def pending_def)+

text \<open>What \<open>niorelay\<close> does after the read.\<close>

definition relay_rest :: "'h relay_env \<Rightarrow> nat \<Rightarrow> relay_io \<Rightarrow> int \<Rightarrow> errno option \<Rightarrow> 'h pyx \<Rightarrow> 'h pyx res" where
  "relay_rest env i io cc e st1 =
     (if cc = 0 \<or> cc < 0 \<and> \<not> transient e then rbind (nioflush2peer st1 i (io_w1 io)) (\<lambda>(_, _, st2). shut_pair env st2 i)
      else rbind (nonnull (r_peer (relay st1 i))) (\<lambda>p.
        if r_status (relay st1 p) \<noteq> RELAY_ACTIVE then Inr st1
        else rbind (nioflush2peer st1 i (io_w1 io)) (\<lambda>(cc2, e2, st2).
          if cc2 < 0 \<and> \<not> transient e2
          then rbind (nioflush2peer st2 p (io_w2 io)) (\<lambda>(_, _, st3). shut_pair env st3 i) else Inr st2)))"

text \<open>\<open>niorelay\<close> on an active relay: what the read leaves, and what is done then.\<close>

lemma niorelay_read:
  assumes "pyx_ok env tab st" "active env (relay st) i"
  shows "\<exists>(cc::int) e st1. same_session st st1 \<and> pyx_ok env tab st1 \<and> sent st1 = sent st \<and>
    (\<forall>j. j \<noteq> i \<longrightarrow> relay st1 j = relay st j) \<and> r_bits (relay st1 i) = r_bits (relay st i) \<and>
    pending (relay st1 i) = pending (relay st i) @ taken (relay st i) (io_rd io) \<and>
    (cc = 0 \<or> cc < 0 \<and> \<not> transient e \<longleftrightarrow> read_ends (relay st i) (io_rd io)) \<and>
    niorelay env st i io = relay_rest env i io cc e st1"
proof -
  have i: "i < maxrelay env" using assms(2) by (simp add: active_def)
  have ok: "relays_ok env {} (relay st)" using assms(1) by (simp add: pyx_ok_but_def)
  obtain v where r: "(r_s (relay st i) < 0) = False" and ev: "r_ev (relay st i) = Some v"
    using relays_ok_active [OF ok i] assms(2) by (auto simp: not_less)
  let ?st = "upd_relay st i (r_ev_update (\<lambda>_. Some 0))"
  have "pyx_ok env tab ?st"
    using pyx_ok_relay [OF assms(1) i] assms i by (intro upd_buffer_ok [where S = "{}"]) (auto simp: relay_ok_def offsets_ok_def active_def)
  from read_spec [OF this i, of "io_rd io"] assms(2) obtain cc e st1 where
    rd: "niorelayread ?st i (io_rd io) = Inr (cc, e, st1)" "same_session ?st st1" "pyx_ok env tab st1" "sent st1 = sent st"
      "\<forall>j. j \<noteq> i \<longrightarrow> relay st1 j = relay st j" "r_bits (relay st1 i) = r_bits (relay st i)"
      "pending (relay st1 i) = pending (relay st i) @ taken (relay st i) (io_rd io)"
      "cc = 0 \<or> cc < 0 \<and> \<not> transient e \<longleftrightarrow> read_ends (relay st i) (io_rd io)"
    using i by (auto simp: active_upd active_def)
  have same: "same_session st st1" using rd(2) by (auto simp: same_session_def)
  have "niorelay env st i io = relay_rest env i io cc e st1"
    unfolding niorelay_def relay_rest_def by (simp only: r ev rd(1) nonnull_simps rbind_Inr prod.case if_False)
  with same rd(3-8) show ?thesis by (intro exI [of _ cc] exI [of _ e] exI [of _ st1] conjI)
qed

lemma niorelay_works:
  assumes "pyx_ok env tab st" "active env (relay st) i" "r_peer (relay st i) = Some p" "active env (relay st) p"
    and "\<not> read_ends (relay st i) (io_rd io)" "write_works (io_w1 io)"
  shows "\<exists>st'. niorelay env st i io = Inr st' \<and> pyx_ok env tab st' \<and> same_session st st' \<and>
    relayed st i p (taken (relay st i) (io_rd io)) st'"
proof -
  from assms(2) have i: "i < maxrelay env" by (simp add: active_def)
  have p: "p \<noteq> i" using pyx_ok_relay(2) [OF assms(1) i] assms(3) by auto
  from niorelay_read [OF assms(1,2), of io] obtain cc e st1 where
    rd: "same_session st st1" "pyx_ok env tab st1" "sent st1 = sent st" "\<forall>j. j \<noteq> i \<longrightarrow> relay st1 j = relay st j"
      "r_bits (relay st1 i) = r_bits (relay st i)" "pending (relay st1 i) = pending (relay st i) @ taken (relay st i) (io_rd io)"
      "cc = 0 \<or> cc < 0 \<and> \<not> transient e \<longleftrightarrow> read_ends (relay st i) (io_rd io)"
    and go: "niorelay env st i io = relay_rest env i io cc e st1" by blast
  have p1: "r_peer (relay st1 i) = Some p" "active env (relay st1) p" "r_status (relay st1 p) = RELAY_ACTIVE"
    using assms(3,4) rd(1) by (auto simp: same_session_def active_def)
  from flush_works [OF rd(2) i _ p1(1) assms(6)] p1(2) obtain cc2 e2 st2 where
    fl: "nioflush2peer st1 i (io_w1 io) = Inr (cc2, e2, st2)" "same_session st1 st2" "pyx_ok env tab st2"
      "\<not> (cc2 < 0 \<and> \<not> transient e2)" "relayed st1 i p [] st2" by auto
  have "niorelay env st i io = Inr st2" using go rd(7) assms(5) p1(1,3) fl(1,4) by (auto simp: relay_rest_def)
  moreover have "relayed st i p (taken (relay st i) (io_rd io)) st2"
    using relayed_read [OF fl(5) rd(6,3)] rd(4,5) p by simp
  ultimately show ?thesis using fl(3) same_session_trans [OF rd(1) fl(2)] by blast
qed

lemma niorelay_ok:
  assumes "frees_null env" "pyx_ok env tab st" "i < maxrelay env" "io_w1 io \<noteq> Wr_errno EINTR"
  shows "\<exists>st'. niorelay env st i io = Inr st' \<and> pyx_ok env tab st' \<and> keeps_waiting st st'"
proof (cases "active env (relay st) i")
  case False
  then have "r_s (relay st i) < 0" using relays_ok_active(1) [of env "{}" "relay st" i] assms(2,3) by (simp add: pyx_ok_but_def)
  with assms(2) show ?thesis by (simp add: niorelay_def)
next
  case act: True
  obtain p where p: "r_peer (relay st i) = Some p" "p \<noteq> i" "p < maxrelay env"
    using pyx_ok_relay [OF assms(2,3)] act by (auto simp: relay_ok_def active_def)
  from niorelay_read [OF assms(2) act, of io] obtain cc e st1 where
    rd: "same_session st st1" "pyx_ok env tab st1"
    and go: "niorelay env st i io = relay_rest env i io cc e st1" by blast
  have k1: "keeps_waiting st st1" using rd(1) by (rule same_session_waiting)
  have p1: "r_peer (relay st1 i) = Some p" using rd(1) p by (simp add: same_session_def)
  from flush_spec [OF rd(2) assms(3) _ p1, of "io_w1 io"] obtain cc2 e2 st2 where
    fl: "nioflush2peer st1 i (io_w1 io) = Inr (cc2, e2, st2)" "same_session st1 st2"
      "pyx_ok_but env tab (if cc2 < 0 \<and> e2 \<noteq> Some EAGAIN then {i} else {}) st2"
      "cc2 < 0 \<longrightarrow> (\<exists>x. io_w1 io = Wr_errno x \<and> e2 = Some x)" by auto
  have k2: "keeps_waiting st st2" using keeps_waiting_trans [OF k1 same_session_waiting [OF fl(2)]] .
  have but: "pyx_ok_but env tab {i} st2" using fl(3) by (rule pyx_ok_mono) auto
  have p2: "r_peer (relay st2 i) = Some p" using fl(2) p1 by (simp add: same_session_def)
  have shut: "\<exists>st'. shut_pair env x i = Inr st' \<and> pyx_ok env tab st' \<and> keeps_waiting st st'"
    if "pyx_ok_but env tab S x" "r_peer (relay x i) = Some p" "S \<subseteq> {i, p}" "keeps_waiting st x" for x S
    using shut_pair_ok [OF assms(1) that(1) assms(3) that(2,3)] keeps_waiting_trans [OF that(4)] by blast
  note shut2 = shut [OF but p2 _ k2]
  show ?thesis
  proof (cases "r_status (relay st1 p) = RELAY_ACTIVE \<and> cc2 < 0 \<and> \<not> transient e2")
    case True
    have pa: "r_status (relay st2 p) = RELAY_ACTIVE" using True fl(2) by (simp add: same_session_def)
    then obtain q where q: "r_peer (relay st2 p) = Some q" using pyx_ok_relay(1) [OF but p(3)] by (auto simp: relay_ok_def)
    have "p \<notin> {i}" using p(2) by simp
    from flush_spec [OF but p(3) this q, of "io_w2 io"] obtain cc3 e3 st3 where
      f3: "nioflush2peer st2 p (io_w2 io) = Inr (cc3, e3, st3)" "same_session st2 st3"
        "pyx_ok_but env tab (if cc3 < 0 \<and> e3 \<noteq> Some EAGAIN then insert p {i} else {i}) st3" by blast
    have "pyx_ok_but env tab {i, p} st3" using f3(3) by (rule pyx_ok_mono) auto
    moreover have "r_peer (relay st3 i) = Some p" using f3(2) p2 by (simp add: same_session_def)
    moreover have "keeps_waiting st st3" using keeps_waiting_trans [OF k2 same_session_waiting [OF f3(2)]] .
    ultimately have "\<exists>st'. shut_pair env st3 i = Inr st' \<and> pyx_ok env tab st' \<and> keeps_waiting st st'" by (intro shut) auto
    with shut2 go p1 True fl(1) f3(1) show ?thesis by (auto simp: relay_rest_def)
  next
    case False
    then have "r_status (relay st1 p) = RELAY_ACTIVE \<Longrightarrow> pyx_ok env tab st2"
      using fl(3,4) assms(4) by (auto simp: transient_def split: if_splits)
    with False show ?thesis using shut2 go p1 fl(1) rd(2) k1 k2 by (auto simp: relay_rest_def)
  qed
qed

lemma niorelay_sends:
  assumes "pyx_ok env tab st" "active env (relay st) i" "r_peer (relay st i) = Some p" "active env (relay st) p"
    and "\<not> read_ends (relay st i) (io_rd io)" "io_w1 io = Wr_bytes n"
    and "length (pending (relay st i) @ taken (relay st i) (io_rd io)) \<le> n"
  shows "\<exists>st'. niorelay env st i io = Inr st' \<and>
    sent st' (r_s (relay st p)) = sent st (r_s (relay st p)) @ pending (relay st i) @ taken (relay st i) (io_rd io)"
proof -
  from assms(2) have i: "i < maxrelay env" by (simp add: active_def)
  from niorelay_read [OF assms(1,2), of io] obtain cc e st1 where
    rd: "same_session st st1" "pyx_ok env tab st1" "sent st1 = sent st"
      "pending (relay st1 i) = pending (relay st i) @ taken (relay st i) (io_rd io)"
    and go: "\<not> (cc = 0 \<or> cc < 0 \<and> \<not> transient e)" "niorelay env st i io = relay_rest env i io cc e st1"
    using assms(5) by blast
  have p1: "r_peer (relay st1 i) = Some p" "active env (relay st1) p" "r_status (relay st1 p) = RELAY_ACTIVE"
    "r_s (relay st1 p) = r_s (relay st p)"
    using assms(3,4) rd(1) by (auto simp: same_session_def active_def)
  from flush_spec [OF rd(2) i _ p1(1), of "Wr_bytes n"] p1(2) obtain cc2 e2 st2 where
    fl: "nioflush2peer st1 i (io_w1 io) = Inr (cc2, e2, st2)" "flushed st1 i p n st2" "\<not> cc2 < 0" using assms(6) by auto
  have "niorelay env st i io = Inr st2" using go p1(1,3) fl(1,3) by (auto simp: relay_rest_def)
  moreover have "take n (pending (relay st1 i)) = pending (relay st1 i)" using assms(7) rd(4) by simp
  ultimately show ?thesis using fl(2) rd(3,4) p1(4) by (simp add: flushed_def)
qed

text \<open>At the end of a connection both relays are shut, after one try to write what is buffered.\<close>

lemma niorelay_eof:
  assumes "frees_null env" "pyx_ok env tab st" "active env (relay st) i" "r_peer (relay st i) = Some p" "read_ends (relay st i) (io_rd io)"
  shows "\<exists>st'. niorelay env st i io = Inr st' \<and> pyx_ok env tab st' \<and> keeps_waiting st st' \<and>
    \<not> active env (relay st') i \<and> \<not> active env (relay st') p"
proof -
  have i: "i < maxrelay env" using assms(3) by (simp add: active_def)
  from niorelay_read [OF assms(2,3), of io] obtain st1 where
    rd: "same_session st st1" "pyx_ok env tab st1"
    and go: "niorelay env st i io = rbind (nioflush2peer st1 i (io_w1 io)) (\<lambda>(_, _, st2). shut_pair env st2 i)"
    using assms(5) by (auto simp: relay_rest_def)
  have p1: "r_peer (relay st1 i) = Some p" using rd(1) assms(4) by (simp add: same_session_def)
  from flush_spec [OF rd(2) i _ p1, of "io_w1 io"] obtain cc2 e2 st2 where
    fl: "nioflush2peer st1 i (io_w1 io) = Inr (cc2, e2, st2)" "same_session st1 st2"
      "pyx_ok_but env tab (if cc2 < 0 \<and> e2 \<noteq> Some EAGAIN then {i} else {}) st2" by auto
  have "pyx_ok_but env tab {i} st2" using fl(3) by (rule pyx_ok_mono) auto
  moreover have "r_peer (relay st2 i) = Some p" using fl(2) p1 by (simp add: same_session_def)
  moreover have "keeps_waiting st st2" using same_session_waiting [OF same_session_trans [OF rd(1) fl(2)]] .
  ultimately show ?thesis
    using shut_pair_ok [OF assms(1) _ i, of tab "{i}" st2 p] keeps_waiting_trans go fl(1) by auto
qed

text \<open>
  What an event may answer: a write is never interrupted, and a write on a socket that is reported as
  writable does not fail otherwise either.
\<close>

definition io_ok :: "relay_io \<Rightarrow> bool" where
  "io_ok io \<longleftrightarrow> io_w1 io \<noteq> Wr_errno EINTR \<and> write_works (io_w0 io)"

text \<open>An event that only says that the socket can be written to.\<close>

definition write_event :: "32 word \<Rightarrow> bool" where
  "write_event ev \<longleftrightarrow> ev AND EPOLLERR = 0 \<and> ev AND EPOLLHUP = 0 \<and> ev AND EPOLLIN = 0 \<and> ev AND EPOLLOUT \<noteq> 0"

lemma write_event_simps [simp]: "write_event EPOLLOUT" "\<not> write_event EPOLLIN"
  by (simp_all add: write_event_def EPOLLOUT_def EPOLLIN_def EPOLLERR_def EPOLLHUP_def)

lemma relay_write_event:
  "write_event ev \<Longrightarrow> debug_args env \<Longrightarrow> r_ev (relay st p) = None \<Longrightarrow> relay_event env st p ev io = Inl Null_deref"
  "write_event ev \<Longrightarrow> debug_args env \<longrightarrow> r_ev (relay st p) \<noteq> None \<Longrightarrow> r_peer (relay st p) = Some i \<Longrightarrow>
   relay_event env st p ev io = rbind (nioflush2peer st i (io_w0 io)) (\<lambda>(_, _, st1). Inr st1)"
  by (auto simp: write_event_def relay_event_def debug_events_def runrelays2_def POLLOUT_def POLLIN_def rbind_def split: sum.splits)

lemma relay_read_event:
  "relay_event env st i EPOLLIN io = niorelay env st i io"
  by (simp add: relay_event_def runrelays2_def EPOLLIN_def EPOLLERR_def EPOLLHUP_def POLLIN_def POLLOUT_def)

lemma relay_event_ok:
  assumes "frees_null env" "pyx_ok env tab st" "i < maxrelay env" "r_peer (relay st i) \<noteq> None" "io_ok io"
    and "debug_args env \<longrightarrow> write_event events \<longrightarrow> active env (relay st) i"
  shows "\<exists>st'. relay_event env st i events io = Inr st' \<and> pyx_ok env tab st' \<and> keeps_waiting st st'"
proof -
  obtain p where p: "r_peer (relay st i) = Some p" using assms(4) by auto
  then have "p < maxrelay env" "r_peer (relay st p) \<noteq> None"
    using pyx_ok_relay(1) [OF assms(2,3)] assms(2,3) by (auto simp: relay_ok_def pyx_ok_but_def peers_ok_def)
  then obtain q where q: "p < maxrelay env" "r_peer (relay st p) = Some q" by auto
  have hup: "\<exists>st'. shut_pair env st i = Inr st' \<and> pyx_ok env tab st' \<and> keeps_waiting st st'"
    using shut_pair_ok [OF assms(1-3) p] by auto
  have io: "io_w1 io \<noteq> Wr_errno EINTR" "write_works (io_w0 io)" using assms(5) by (auto simp: io_ok_def)
  have "\<exists>st'. runrelays2 env st i POLLOUT io = Inr st' \<and> pyx_ok env tab st' \<and> keeps_waiting st st'"
    using flush_works [OF assms(2) q(1) _ q(2) io(2)] p same_session_waiting by (auto simp: runrelays2_def)
  moreover have "\<exists>st'. runrelays2 env st i POLLIN io = Inr st' \<and> pyx_ok env tab st' \<and> keeps_waiting st st'"
    using niorelay_ok [OF assms(1-3) io(1)] by (simp add: runrelays2_def)
  moreover have "active env (relay st) i \<longrightarrow> r_ev (relay st i) \<noteq> None"
    using relays_ok_active(2) [of env "{}" "relay st" i] assms(2,3) by (simp add: pyx_ok_but_def)
  ultimately show ?thesis using hup assms(2,6) by (auto simp: relay_event_def debug_events_def write_event_def)
qed

section \<open>Sessions\<close>

lemma fmt_d_inject [simp]: "fmt_d i = fmt_d j \<longleftrightarrow> i = j"
proof
  assume "fmt_d i = fmt_d j"
  then have "scan_d (fmt_d i @ []) = scan_d (fmt_d j @ [])" by simp
  then show "i = j" by (simp only: scan_d_fmt_d no_digit_first_simps) simp
qed simp

lemma pick_second:
  "pick_idle env f rs (Some a) = (f', res) \<Longrightarrow>
   res = None \<and> f' = f \<or>
   (\<exists>b \<in> set rs. r_status (f b) = RELAY_IDLE \<and> res = Some (a, b) \<and> f' = f(b := waiting env (f b)))"
proof (induction rs)
  case (Cons x rs)
  then show ?case by (cases "r_status (f x) = RELAY_IDLE") (auto simp: Let_def)
qed simp

lemma pick_first:
  "pick_idle env f rs None = (f', res) \<Longrightarrow> distinct rs \<Longrightarrow>
   res = None \<and> (f' = f \<or> (\<exists>a \<in> set rs. r_status (f a) = RELAY_IDLE \<and> f' = f(a := waiting env (f a)))) \<or>
   (\<exists>a \<in> set rs. \<exists>b \<in> set rs. a \<noteq> b \<and> r_status (f a) = RELAY_IDLE \<and> r_status (f b) = RELAY_IDLE \<and> res = Some (a, b) \<and>
     f' = f(a := waiting env (f a), b := waiting env (f b)))"
proof (induction rs)
  case (Cons x rs)
  show ?case
  proof (cases "r_status (f x) = RELAY_IDLE")
    case True
    with Cons.prems(1) have "pick_idle env (f(x := waiting env (f x))) rs (Some x) = (f', res)" by (simp add: Let_def)
    from pick_second [OF this] show ?thesis
    proof
      assume "\<exists>b\<in>set rs. r_status ((f(x := waiting env (f x))) b) = RELAY_IDLE \<and> res = Some (x, b) \<and>
        f' = f(x := waiting env (f x), b := waiting env ((f(x := waiting env (f x))) b))"
      then obtain b where b: "b \<in> set rs" "r_status ((f(x := waiting env (f x))) b) = RELAY_IDLE" "res = Some (x, b)"
        "f' = f(x := waiting env (f x), b := waiting env ((f(x := waiting env (f x))) b))" by blast
      moreover have "b \<noteq> x" using b(1) Cons.prems(2) by auto
      ultimately show ?thesis using True by auto
    qed (use True in auto)
  next
    case False
    with Cons show ?thesis by auto
  qed
qed simp

text \<open>Relays that were idle and wait now.\<close>

lemma wait_ok:
  assumes "relays_ok env {} f" "pool_ok env f q arr" "waiting_ok env f t" "sockets_ok env f e" "r_status (f i) = RELAY_IDLE"
    and "relay_ok env r" "offsets_ok r" "r_status r = RELAY_WAIT_ACCEPT" "r_peer r \<noteq> Some i"
  shows "relays_ok env {} (f(i := r)) \<and> pool_ok env (f(i := r)) q arr \<and> waiting_ok env (f(i := r)) t \<and> sockets_ok env (f(i := r)) e"
proof (intro conjI)
  show "relays_ok env {} (f(i := r))" using assms by (intro relays_ok_upd) auto
  show "pool_ok env (f(i := r)) q arr" using assms by (intro pool_ok_same) auto
  show "waiting_ok env (f(i := r)) t" using assms(3,5) by (auto simp: waiting_ok_def)
  show "sockets_ok env (f(i := r)) e" using assms(4,5,8) by (auto simp: sockets_ok_def active_upd)
qed

lemma waiting_relay:
  "relay_ok env r \<Longrightarrow> offsets_ok r \<Longrightarrow> r_status r = RELAY_IDLE \<Longrightarrow> relay_ok env (waiting env r) \<and> offsets_ok (waiting env r)"
  by (auto simp: relay_ok_def offsets_ok_def waiting_def)

lemma getpeer_ok:
  assumes tab: "table_ok env tab" and ok: "pyx_ok env tab st"
  shows "\<exists>r st'. niogetpeer env st t = Inr (r, st') \<and> pyx_ok env tab st' \<and>
    (\<forall>j. r_status (relay st j) = RELAY_WAIT_ACCEPT \<longrightarrow> r_status (relay st' j) = RELAY_WAIT_ACCEPT) \<and>
    (\<forall>k i. tab (wpeers st') k = Some i \<longrightarrow> tab (wpeers st) k = Some i \<or> r_status (relay st i) = RELAY_IDLE) \<and>
    (\<forall>a b. r = Some (a, b) \<longrightarrow> a \<noteq> b \<and> r_peer (relay st' a) = Some b \<and> r_peer (relay st' b) = Some a \<and>
       tab (wpeers st') (fmt_d (int a)) = Some a \<and> tab (wpeers st') (fmt_d (int b)) = Some b)"
proof -
  let ?f = "relay st"
  have d: "distinct (relaycache st)" and c: "\<And>i. i \<in> set (relaycache st) \<Longrightarrow> i < maxrelay env"
    using ok by (auto simp: pyx_ok_but_def pool_ok_def)
  have w: "relay_ok env (waiting env (?f i))" "offsets_ok (waiting env (?f i))" "r_peer (?f i) \<noteq> Some i" "i < maxrelay env"
    if "i \<in> set (relaycache st)" "r_status (?f i) = RELAY_IDLE" for i
    using that c pyx_ok_relay [OF ok] waiting_relay by blast+
  have fresh: "tab (wpeers st) (fmt_d (int i)) = None" if "r_status (?f i) = RELAY_IDLE" for i
  proof (cases "tab (wpeers st) (fmt_d (int i))")
    case (Some a)
    with ok have "fmt_d (int i) = fmt_d (int a)" "r_status (?f a) = RELAY_WAIT_ACCEPT"
      by (auto simp: pyx_ok_but_def waiting_ok_def simp del: fmt_d_inject)
    with that show ?thesis by simp
  qed
  obtain f' res where pk: "pick_idle env ?f (relaycache st) None = (f', res)" by fastforce
  from pick_first [OF pk d] consider "res = None" "f' = ?f"
    | a where "res = None" "a \<in> set (relaycache st)" "r_status (?f a) = RELAY_IDLE" "f' = ?f(a := waiting env (?f a))"
    | a b where "res = Some (a, b)" "a \<in> set (relaycache st)" "b \<in> set (relaycache st)" "a \<noteq> b" "r_status (?f a) = RELAY_IDLE"
        "r_status (?f b) = RELAY_IDLE" "f' = ?f(a := waiting env (?f a), b := waiting env (?f b))" by blast
  then show ?thesis
  proof cases
    case 1
    with pk ok show ?thesis by (simp add: niogetpeer_def)
  next
    case (2 a)
    note wa = w [OF 2(2,3)]
    have "pyx_ok env tab (st\<lparr>relay := f'\<rparr>)"
      using wait_ok [of env ?f _ _ _ _ a "waiting env (?f a)"] wa 2(3,4) ok
      by (auto simp: pyx_ok_but_def waiting_def intro: peers_ok_same)
    with pk 2(1,4) show ?thesis by (auto simp: niogetpeer_def waiting_def)
  next
    case (3 a b)
    let ?ra = "(waiting env (?f a))\<lparr>r_peer := Some b, r_ttidl := nd_ttidl env + t\<rparr>"
    let ?rb = "(waiting env (?f b))\<lparr>r_peer := Some a, r_ttidl := nd_ttidl env + t\<rparr>"
    note wa = w [OF 3(2,5)] and wb = w [OF 3(3,6)]
    let ?sa = "st\<lparr>relay := ?f(a := ?ra)\<rparr>"
    have ra: "relay_ok env ?ra" "offsets_ok ?ra" "r_status ?ra = RELAY_WAIT_ACCEPT" "r_peer ?ra \<noteq> Some a"
      and rb: "relay_ok env ?rb" "offsets_ok ?rb" "r_status ?rb = RELAY_WAIT_ACCEPT" "r_peer ?rb \<noteq> Some b"
      using wa wb 3(4) by (auto simp: relay_ok_def offsets_ok_def waiting_def)
    have A: "relays_ok env {} (?f(a := ?ra))" "pool_ok env (?f(a := ?ra)) (relaycache st) (relayarray st)"
      "waiting_ok env (?f(a := ?ra)) (tab (wpeers st))" "sockets_ok env (?f(a := ?ra)) (epolled st)"
      using wait_ok [of env ?f _ _ _ _ a ?ra] 3(5) ra ok by (auto simp: pyx_ok_but_def)
    let ?g = "?f(a := ?ra, b := ?rb)"
    have B: "relays_ok env {} ?g" "pool_ok env ?g (relaycache st) (relayarray st)" "sockets_ok env ?g (epolled st)"
      using wait_ok [of env "?f(a := ?ra)" _ _ _ _ b ?rb] A rb 3(4,6) by auto
    obtain da h1 where h1: "hashinstall env (wpeers st) (fmt_d (int a)) a = (da, h1)" by fastforce
    obtain db h2 where h2: "hashinstall env h1 (fmt_d (int b)) b = (db, h2)" by fastforce
    have "\<not> fst (hashinstall env (wpeers st) (fmt_d (int a)) a)"
      "tab (snd (hashinstall env (wpeers st) (fmt_d (int a)) a)) = (tab (wpeers st))(fmt_d (int a) \<mapsto> a)"
      using tab fresh [OF 3(5)] by (auto simp: table_ok_def)
    then have i1: "\<not> da" "tab h1 = (tab (wpeers st))(fmt_d (int a) \<mapsto> a)" by (simp_all add: h1)
    then have "tab h1 (fmt_d (int b)) = None" using fresh [OF 3(6)] 3(4) by simp
    then have "\<not> fst (hashinstall env h1 (fmt_d (int b)) b)" "tab (snd (hashinstall env h1 (fmt_d (int b)) b)) = (tab h1)(fmt_d (int b) \<mapsto> b)"
      using tab by (auto simp: table_ok_def)
    then have i2: "\<not> db" "tab h2 = (tab (wpeers st))(fmt_d (int a) \<mapsto> a, fmt_d (int b) \<mapsto> b)" by (simp_all add: h2 i1)
    have "waiting_ok env ?g (tab h2)"
      using A(3) ra(3) rb(3) wa(4) wb(4) 3(4,6) ok by (auto simp: waiting_ok_def i2 pyx_ok_but_def)
    moreover have "peers_ok env ?g" using ok by (auto simp: pyx_ok_but_def peers_ok_def)
    moreover have "niogetpeer env st t = Inr (Some (a, b), st\<lparr>relay := ?g, wpeers := h2\<rparr>)"
      using pk 3(1,4,7) h1 h2 i1(1) i2(1)
      by (auto simp: niogetpeer_def upd_relay_def Let_def fun_upd_twist waiting_def)
    ultimately show ?thesis using B 3(4-6) i2(2) by (auto simp: pyx_ok_but_def waiting_def split: if_split_asm)
  qed
qed

text \<open>A control connection that a relay can take over: open, polled, and no other relay has its socket.\<close>

definition ctrl_ready :: "'h relay_env \<Rightarrow> 'h pyx \<Rightarrow> nat \<Rightarrow> bool" where
  "ctrl_ready env st c \<longleftrightarrow> 0 \<le> c_s (ctrl st c) \<and> c_ev (ctrl st c) \<noteq> None \<and> epolled st (c_s (ctrl st c)) \<noteq> None \<and>
     (\<forall>i. active env (relay st) i \<longrightarrow> r_s (relay st i) \<noteq> c_s (ctrl st c))"

lemma startrelay_none:
  assumes "table_ok env tab" "pyx_ok env tab st" "tab (wpeers st) (fmt_d sid) = None"
  shows "\<exists>st'. niostartrelay env st c sid = Inr (None, st') \<and> pyx_ok env tab st' \<and> relay st' = relay st \<and>
    tab (wpeers st') = tab (wpeers st)"
proof -
  obtain r h where h: "hashrm env (wpeers st) (fmt_d sid) = (r, h)" by fastforce
  have "fst (hashrm env (wpeers st) (fmt_d sid)) = tab (wpeers st) (fmt_d sid)"
    "tab (snd (hashrm env (wpeers st) (fmt_d sid))) = (tab (wpeers st))(fmt_d sid := None)"
    using assms(1) by (auto simp: table_ok_def)
  then have "r = None" "tab h = tab (wpeers st)" using assms(3) by (auto simp: h)
  with assms(2) show ?thesis by (auto simp: niostartrelay_def h pyx_ok_but_def)
qed

lemma startrelay_some:
  assumes "table_ok env tab" "pyx_ok env tab st" "ctrl_ready env st c" "tab (wpeers st) (fmt_d sid) = Some r"
  shows "\<exists>st'. niostartrelay env st c sid = Inr (Some r, st') \<and> pyx_ok env tab st' \<and> active env (relay st') r \<and>
    relay st' = (relay st)(r := (relay st r)\<lparr>r_status := RELAY_ACTIVE, r_s := c_s (ctrl st c), r_ev := Some EPOLLIN, r_bits := EPOLLIN\<rparr>) \<and>
    sent st' = sent st \<and> tab (wpeers st') = (tab (wpeers st))(fmt_d sid := None)"
proof -
  let ?s = "c_s (ctrl st c)"
  let ?r = "(relay st r)\<lparr>r_status := RELAY_ACTIVE, r_s := ?s, r_ev := Some EPOLLIN, r_bits := EPOLLIN\<rparr>"
  obtain x h where h: "hashrm env (wpeers st) (fmt_d sid) = (x, h)" by fastforce
  have "fst (hashrm env (wpeers st) (fmt_d sid)) = tab (wpeers st) (fmt_d sid)"
    "tab (snd (hashrm env (wpeers st) (fmt_d sid))) = (tab (wpeers st))(fmt_d sid := None)"
    using assms(1) by (auto simp: table_ok_def)
  then have x: "x = Some r" and th: "tab h = (tab (wpeers st))(fmt_d sid := None)" using assms(4) by (auto simp: h)
  have r: "r < maxrelay env" "fmt_d sid = fmt_d (int r)" "r_status (relay st r) = RELAY_WAIT_ACCEPT" "r_peer (relay st r) \<noteq> None"
    using assms(2,4) by (auto simp: pyx_ok_but_def waiting_ok_def simp del: fmt_d_inject)
  then have q: "r \<in> set (relaycache st)" using assms(2) by (auto simp: pyx_ok_but_def pool_ok_def active_def)
  obtain ev where ev: "c_ev (ctrl st c) = Some ev" using assms(3) by (auto simp: ctrl_ready_def)
  obtain e where e: "epolled st ?s = Some e" using assms(3) by (auto simp: ctrl_ready_def)
  let ?st = "st\<lparr>wpeers := h, relaycache := remove1 r (relaycache st), relayarray := (relayarray st)(r \<mapsto> r),
    relay := (relay st)(r := ?r), ctrl := (ctrl st)(c := (ctrl st c)\<lparr>c_ev := Some EPOLLIN\<rparr>), epolled := (epolled st)(?s \<mapsto> EPOLLIN)\<rparr>"
  have go: "niostartrelay env st c sid = Inr (Some r, ?st)"
    using q ev e r(3) by (auto simp: niostartrelay_def h x seq_rm_def upd_relay_def upd_ctrl_def epoll_mod_def Let_def)
  note rel = pyx_ok_relay [OF assms(2) r(1)]
  have "relays_ok env {} (relay ?st)"
    using assms(2,3) rel r by (auto simp: pyx_ok_but_def ctrl_ready_def relay_ok_def offsets_ok_def intro!: relays_ok_upd)
  moreover have "pool_ok env (relay ?st) (relaycache ?st) (relayarray ?st)"
    using assms(2) r by (auto simp: pyx_ok_but_def pool_ok_def active_upd)
  moreover have "waiting_ok env (relay ?st) (tab (wpeers ?st))"
    using assms(2) r(2) by (auto simp: pyx_ok_but_def waiting_ok_def th)
  moreover have "sockets_ok env (relay ?st) (epolled ?st)"
    using assms(2,3) by (auto simp: pyx_ok_but_def sockets_ok_def active_upd ctrl_ready_def)
  moreover have "peers_ok env (relay ?st)" using assms(2) by (auto simp: pyx_ok_but_def peers_ok_def)
  ultimately have "pyx_ok env tab ?st" by (simp add: pyx_ok_but_def)
  with go r(1) th show ?thesis by (auto simp: active_def)
qed

lemma shut_all_waiting:
  "(\<forall>i \<in> set is. r_s (relay st i) < 0) \<Longrightarrow> shut_all env st is = Inr st"
  by (induction "is") (auto simp: nioshutrelay_def)

lemma findidle_ok:
  assumes "table_ok env tab" "pyx_ok env tab st"
  shows "niofindidle env st t = Inr st"
proof -
  let ?u = "filter (\<lambda>i. r_ttidl (relay st i) \<le> t) (hashwalk env (wpeers st))"
  have wk: "set (hashwalk env (wpeers st)) = ran (tab (wpeers st))" "length (hashwalk env (wpeers st)) = card (dom (tab (wpeers st)))"
    using assms(1) by (auto simp: table_ok_def)
  have w: "i < maxrelay env \<and> k = fmt_d (int i) \<and> r_status (relay st i) = RELAY_WAIT_ACCEPT" if "tab (wpeers st) k = Some i" for k i
    using assms(2) that by (auto simp: pyx_ok_but_def waiting_ok_def)
  have "r_s (relay st i) < 0" if "i \<in> set (rev ?u)" for i
    using that w pyx_ok_relay(1) [OF assms(2)] by (auto simp: wk ran_def relay_ok_def)
  then have "shut_all env st (rev ?u) = Inr st" by (simp add: shut_all_waiting)
  moreover have "length ?u \<le> maxrelay env"
  proof -
    have sub: "dom (tab (wpeers st)) \<subseteq> (\<lambda>i. fmt_d (int i)) ` {..<maxrelay env}" using w by fastforce
    have "card (dom (tab (wpeers st))) \<le> card {..<maxrelay env}"
      using card_mono [OF _ sub] card_image_le [of "{..<maxrelay env}" "\<lambda>i. fmt_d (int i)"] by fastforce
    then show ?thesis using wk(2) length_filter_le [of "\<lambda>i. r_ttidl (relay st i) \<le> t" "hashwalk env (wpeers st)"] by simp
  qed
  ultimately show ?thesis by (simp add: niofindidle_def)
qed

section \<open>The whole event loop\<close>

text \<open>
  What \<open>nioepoll\<close> does with an event of the first listening socket and of a control connection: \<open>a\<close> and
  \<open>added\<close> are the answers of \<open>accept\<close> and \<open>epoll_ctl\<close>, \<open>es\<close> and \<open>w\<close> those of the socket.
\<close>

definition listener_event :: "'h pyx \<Rightarrow> 32 word \<Rightarrow> int \<Rightarrow> bool \<Rightarrow> 'h pyx res" where
  "listener_event st events a added =
     (if events AND EPOLLERR \<noteq> 0 \<or> events AND EPOLLHUP \<noteq> 0 \<or> events AND EPOLLIN = 0 then Inr st
      else rbind (nioacceptctrl st a added) (\<lambda>(c, st1). Inr st1))"

definition ctrl_event :: "'e pyx_env_scheme \<Rightarrow> 'h pyx \<Rightarrow> nat \<Rightarrow> 32 word \<Rightarrow> rd_event list \<Rightarrow> wr_answer \<Rightarrow> 'h pyx res" where
  "ctrl_event env st c events es w =
     (let st0 = upd_ctrl st c (c_revents_update (\<lambda>_. 0)) in
      if events AND EPOLLERR \<noteq> 0 \<or> events AND EPOLLHUP \<noteq> 0
        then nioshutctrl (upd_ctrl st0 c (c_revents_update (\<lambda>_. POLLERR))) c True
      else if events AND EPOLLIN \<noteq> 0 then
        rbind (nioasyncread env st0 c es) (\<lambda>(cc, st1, es1). if cc \<le> 0 then nioshutctrl st1 c True else Inr st1)
      else if events AND EPOLLOUT \<noteq> 0 then
        rbind (nioasyncwrite st0 c False [w]) (\<lambda>(cc, st1).
          if cc \<le> 0 then nioshutctrl st1 c True
          else
            rbind (nonnull (c_ev (ctrl st1 c))) (\<lambda>ev.
              let ev1 = (if c_snd (ctrl st1 c) = [] then ev AND NOT EPOLLOUT else ev) OR EPOLLIN
              in Inr (epoll_mod (upd_ctrl st1 c (c_ev_update (\<lambda>_. Some ev1))) (c_s (ctrl st1 c)) ev1)))
      else Inr st0)"

datatype nio_event =
    Listener_event "32 word" int bool
  | Ctrl_event nat "32 word" "rd_event list" wr_answer
  | Relay_event nat "32 word" relay_io

fun one_event :: "'h relay_env \<Rightarrow> 'h pyx \<Rightarrow> nio_event \<Rightarrow> 'h pyx res" where
  "one_event env st (Listener_event ev a added) = listener_event st ev a added"
| "one_event env st (Ctrl_event c ev es w) = ctrl_event env st c ev es w"
| "one_event env st (Relay_event i ev io) = relay_event env st i ev io"

fun nioepoll :: "'h relay_env \<Rightarrow> 'h pyx \<Rightarrow> nio_event list \<Rightarrow> 'h pyx res" where
  "nioepoll env st [] = Inr st"
| "nioepoll env st (e # es) = rbind (one_event env st e) (\<lambda>st1. nioepoll env st1 es)"

text \<open>A change of the control connections only; the sockets of active relays stay as they are.\<close>

definition controls_change :: "'h relay_env \<Rightarrow> 'h pyx \<Rightarrow> 'h pyx \<Rightarrow> bool" where
  "controls_change env st st' \<longleftrightarrow> relay st' = relay st \<and> relaycache st' = relaycache st \<and> relayarray st' = relayarray st \<and>
     wpeers st' = wpeers st \<and> acct st' = acct st \<and>
     (\<forall>i. active env (relay st) i \<longrightarrow> epolled st' (r_s (relay st i)) = epolled st (r_s (relay st i)) \<and>
        sent st' (r_s (relay st i)) = sent st (r_s (relay st i)))"

lemma controls_change_ok: "controls_change env st st' \<Longrightarrow> pyx_ok_but env tab S st \<Longrightarrow> pyx_ok_but env tab S st'"
  by (auto simp: controls_change_def pyx_ok_but_def sockets_ok_def)

lemma controls_change_trans:
  "controls_change env st st1 \<Longrightarrow> controls_change env st1 st2 \<Longrightarrow> controls_change env st st2"
  by (simp add: controls_change_def)

lemma controls_change_upd [simp]: "controls_change env st (upd_ctrl st c f)"
  by (simp add: controls_change_def upd_ctrl_def)

lemma upd_ctrl_c_s [simp]: "(\<And>x. c_s (f x) = c_s x) \<Longrightarrow> c_s (ctrl (upd_ctrl st c f) d) = c_s (ctrl st d)"
  by (simp add: upd_ctrl_def)

text \<open>A control connection whose socket no relay has.\<close>

definition own_socket :: "'h relay_env \<Rightarrow> 'h pyx \<Rightarrow> nat \<Rightarrow> bool" where
  "own_socket env st c \<longleftrightarrow> (\<forall>i. active env (relay st) i \<longrightarrow> r_s (relay st i) \<noteq> c_s (ctrl st c))"

lemma own_socket_keep:
  "own_socket env st c \<Longrightarrow> controls_change env st st' \<Longrightarrow> c_s (ctrl st' c) = c_s (ctrl st c) \<Longrightarrow> own_socket env st' c"
  by (simp add: own_socket_def controls_change_def)

lemma shutctrl_change:
  "nioshutctrl st c sh = Inr st' \<Longrightarrow> own_socket env st c \<Longrightarrow> controls_change env st st'"
  by (auto simp: nioshutctrl_def controls_change_def own_socket_def upd_ctrl_def Let_def rbind_eq_Inr seq_enque_def split: if_splits)

lemma ready_change:
  "message_ready st c = Inr st' \<Longrightarrow> controls_change env st st' \<and> c_s (ctrl st' c) = c_s (ctrl st c)"
  by (auto simp: message_ready_def controls_change_def upd_ctrl_def rbind_eq_Inr seq_enque_def split: if_splits)

lemma put_rcv_change [simp]: "controls_change env st (put_rcv st c q b)" "c_s (ctrl (put_rcv st c q b) d) = c_s (ctrl st d)"
  by (simp_all add: put_rcv_def)

lemma check_ready_change:
  "check_ready (put_rcv st c q b) c b = Inr st' \<Longrightarrow> controls_change env st st' \<and> c_s (ctrl st' c) = c_s (ctrl st c)"
  using ready_change [of "put_rcv st c q b" c st' env] controls_change_trans [of env st "put_rcv st c q b" st']
  by (auto simp: check_ready_def split: if_splits)

lemma received_change:
  "async_received e st c q b bs = Inr (r, st') \<Longrightarrow> controls_change env st st' \<and> c_s (ctrl st' c) = c_s (ctrl st c)"
  by (auto simp: async_received_def Let_def rbind_eq_Inr split: option.splits if_split_asm dest!: check_ready_change [where env = env]
      intro: controls_change_trans [OF put_rcv_change(1) controls_change_upd])

lemma asyncread_change:
  assumes "nioasyncread e st c es = Inr (cc, st', es')"
  shows "controls_change env st st' \<and> c_s (ctrl st' c) = c_s (ctrl st c)"
proof -
  let ?b = "rcv_buffer e (ctrl st c)" and ?q = "butlast (c_rcv (ctrl st c))"
  obtain ans es1 where a: "sock_answer (nb_L ?b - nb_p ?b) es = (ans, es1)" by fastforce
  from assms obtain st1 where st1: "check_ready (put_rcv st c ?q ?b) c ?b = Inr st1"
    and r: "st' = st1 \<or> (\<exists>bs r. async_received e st1 c ?q ?b bs = Inr (r, st'))"
    unfolding nioasyncread_def Let_def a by (cases ans) (auto simp: rbind_eq_Inr split: if_split_asm)
  from check_ready_change [OF st1, of env] r received_change [where env = env] controls_change_trans show ?thesis by metis
qed

lemma asyncwrite_change:
  assumes "nioasyncwrite st c False [w] = Inr (cc, st')" "own_socket env st c"
  shows "controls_change env st st' \<and> c_s (ctrl st' c) = c_s (ctrl st c)"
proof (cases "c_snd (ctrl st c) = []")
  case True
  with assms(1) show ?thesis by (simp add: nioasyncwrite_def controls_change_def)
next
  case False
  define j where "j = length (c_snd (ctrl st c)) - 1"
  have l: "asyncwrite_loop j st c False [w] 0 = Inr (cc, st')" using assms(1) False by (simp add: nioasyncwrite_def j_def)
  show ?thesis
  proof (cases w)
    case (Wr_bytes n)
    from l have "\<exists>s q. st' = upd_ctrl (st\<lparr>sent := (sent st)(c_s (ctrl st c) := s)\<rparr>) c (c_snd_update (\<lambda>_. q))"
      unfolding Wr_bytes by (subst (asm) asyncwrite_loop.simps) (auto simp: Let_def split: if_split_asm)
    with assms(2) show ?thesis by (auto simp: controls_change_def own_socket_def upd_ctrl_def)
  next
    case (Wr_errno e)
    from l show ?thesis
      unfolding Wr_errno by (subst (asm) asyncwrite_loop.simps) (auto simp: Let_def upd_ctrl_def controls_change_def split: if_split_asm)
  qed
qed

lemma ctrl_event_change:
  assumes "ctrl_event e st c events es w = Inr st'" "own_socket env st c"
  shows "controls_change env st st'"
proof -
  let ?st0 = "upd_ctrl st c (c_revents_update (\<lambda>_. 0))"
  have c0: "controls_change env st ?st0" "c_s (ctrl ?st0 c) = c_s (ctrl st c)" by simp_all
  note own = own_socket_keep [OF assms(2)]
  note trans = controls_change_trans
  have own0: "own_socket env ?st0 c" by (rule own [OF c0])
  have mod: "controls_change env x (epoll_mod (upd_ctrl x c f) (c_s (ctrl x c)) ev)" if "own_socket env x c" for x f ev
    using that by (auto simp: controls_change_def own_socket_def epoll_mod_def upd_ctrl_def split: option.splits)
  consider "events AND EPOLLERR \<noteq> 0 \<or> events AND EPOLLHUP \<noteq> 0"
    | "\<not> (events AND EPOLLERR \<noteq> 0 \<or> events AND EPOLLHUP \<noteq> 0)" "events AND EPOLLIN \<noteq> 0"
    | "\<not> (events AND EPOLLERR \<noteq> 0 \<or> events AND EPOLLHUP \<noteq> 0)" "events AND EPOLLIN = 0" "events AND EPOLLOUT \<noteq> 0"
    | "\<not> (events AND EPOLLERR \<noteq> 0 \<or> events AND EPOLLHUP \<noteq> 0)" "events AND EPOLLIN = 0" "events AND EPOLLOUT = 0" by blast
  then show ?thesis
  proof cases
    case 1
    let ?st1 = "upd_ctrl ?st0 c (c_revents_update (\<lambda>_. POLLERR))"
    from 1 assms(1) have "nioshutctrl ?st1 c True = Inr st'" by (simp add: ctrl_event_def)
    moreover have "controls_change env st ?st1" using trans [OF c0(1) controls_change_upd] .
    moreover from this have "own_socket env ?st1 c" by (rule own) simp
    ultimately show ?thesis using shutctrl_change trans by blast
  next
    case 2
    with assms(1) obtain cc st1 es1 where r: "nioasyncread e ?st0 c es = Inr (cc, st1, es1)" "st' = st1 \<or> nioshutctrl st1 c True = Inr st'"
      by (auto simp: ctrl_event_def Let_def rbind_eq_Inr split: if_split_asm)
    from asyncread_change [OF r(1), of env] have "controls_change env st st1" "own_socket env st1 c"
      using own_socket_keep [OF own0] trans [OF c0(1)] by auto
    with r(2) shutctrl_change trans show ?thesis by blast
  next
    case 3
    with assms(1) obtain cc st1 where r: "nioasyncwrite ?st0 c False [w] = Inr (cc, st1)"
      "nioshutctrl st1 c True = Inr st' \<or> (\<exists>f ev. st' = epoll_mod (upd_ctrl st1 c f) (c_s (ctrl st1 c)) ev)"
      by (auto simp: ctrl_event_def Let_def rbind_eq_Inr split: if_split_asm)
    from asyncwrite_change [OF r(1) own0] have "controls_change env st st1" "own_socket env st1 c"
      using own_socket_keep [OF own0] trans [OF c0(1)] by auto
    with r(2) shutctrl_change trans mod show ?thesis by blast
  next
    case 4
    with assms(1) have "st' = ?st0" by (simp add: ctrl_event_def)
    with c0(1) show ?thesis by simp
  qed
qed

lemma listener_event_change:
  assumes "listener_event st events a added = Inr st'" "\<forall>i. active env (relay st) i \<longrightarrow> r_s (relay st i) \<noteq> a"
  shows "controls_change env st st'"
proof -
  have refl: "controls_change env st st" by (simp add: controls_change_def)
  have cache: "controls_change env x (x\<lparr>ctrlcache := q\<rparr>)" for x :: "'a pyx" and q by (simp add: controls_change_def)
  show ?thesis
  proof (cases "seq_pop (ctrlcache st)")
    case (Pair fst_q q)
    show ?thesis
    proof (cases fst_q)
      case None
      with assms(1) Pair refl show ?thesis by (auto simp: listener_event_def nioacceptctrl_def split: if_split_asm)
    next
      case (Some c)
      let ?st1 = "upd_ctrl (st\<lparr>ctrlcache := q\<rparr>) c (\<lambda>c. c\<lparr>c_revents := 0, c_s := a\<rparr>)"
      let ?st2 = "upd_ctrl ?st1 c (c_ev_update (\<lambda>_. Some EPOLLIN))"
      have c2: "controls_change env st ?st1" "controls_change env st ?st2"
        using cache controls_change_upd controls_change_trans by blast+
      have own: "own_socket env ?st2 c" using assms(2) by (simp add: own_socket_def upd_ctrl_def)
      let ?st3 = "?st2\<lparr>epolled := (epolled ?st2)(a \<mapsto> EPOLLIN), ctrlarray := (ctrlarray ?st2)(c \<mapsto> c)\<rparr>"
      have acc: "nioacceptctrl st a added =
        (if a < 0 then rbind (seq_push q c) (\<lambda>q'. Inr (None, ?st1\<lparr>ctrlcache := q'\<rparr>))
         else if \<not> added then rbind (nioshutctrl ?st2 c True) (\<lambda>st3. Inr (None, st3)) else Inr (Some c, ?st3))"
        by (simp add: nioacceptctrl_def Pair Some Let_def)
      have "st' = st \<or> (\<exists>r. nioacceptctrl st a added = Inr (r, st'))"
        using assms(1) by (simp add: listener_event_def rbind_eq_Inr split: if_split_asm)
      then consider "st' = st" | "\<exists>q'. st' = ?st1\<lparr>ctrlcache := q'\<rparr>" | "nioshutctrl ?st2 c True = Inr st'" | "st' = ?st3"
        unfolding acc by (auto simp only: rbind_eq_Inr prod.inject sum.inject split: if_split_asm)
      then show ?thesis
      proof cases
        case 2
        with c2(1) cache controls_change_trans show ?thesis by blast
      next
        case 3
        from controls_change_trans [OF c2(2) shutctrl_change [OF this own]] show ?thesis .
      next
        case 4
        have "controls_change env ?st2 st'" using assms(2) by (auto simp: 4 controls_change_def upd_ctrl_def)
        with c2(2) controls_change_trans show ?thesis by blast
      qed (use refl in simp)
    qed
  qed
qed

section \<open>Reachable states\<close>

text \<open>
  The relay side of the daemon: operations as data. \<open>niogetpeer\<close> and \<open>niostartrelay\<close> are called by the
  main daemon, which is not in the repository, on requests of control connections.
\<close>

datatype relay_op = Get_peer int | Start_relay nat int | Event nat "32 word" relay_io | Find_idle int

fun relay_exec :: "'h relay_env \<Rightarrow> 'h pyx \<Rightarrow> relay_op \<Rightarrow> 'h pyx res" where
  "relay_exec env st (Get_peer t) = rbind (niogetpeer env st t) (\<lambda>(r, st1). Inr st1)"
| "relay_exec env st (Start_relay c sid) = rbind (niostartrelay env st c sid) (\<lambda>(r, st1). Inr st1)"
| "relay_exec env st (Event i ev io) = one_event env st (Relay_event i ev io)"
| "relay_exec env st (Find_idle t) = niofindidle env st t"

fun op_ok :: "'h relay_env \<Rightarrow> 'h pyx \<Rightarrow> relay_op \<Rightarrow> bool" where
  "op_ok env st (Get_peer t) = True"
| "op_ok env st (Start_relay c sid) = ctrl_ready env st c"
| "op_ok env st (Event i ev io) = (i < maxrelay env \<and> r_peer (relay st i) \<noteq> None \<and> io_ok io \<and>
     (debug_args env \<longrightarrow> write_event ev \<longrightarrow> active env (relay st) i))"
| "op_ok env st (Find_idle t) = True"

inductive relay_steps :: "'h relay_env \<Rightarrow> 'h pyx \<Rightarrow> 'h pyx \<Rightarrow> bool" for env st0 where
  refl: "relay_steps env st0 st0"
| step: "relay_steps env st0 st \<Longrightarrow> op_ok env st op \<Longrightarrow> relay_exec env st op = Inr st' \<Longrightarrow> relay_steps env st0 st'"
| controls: "relay_steps env st0 st \<Longrightarrow> controls_change env st st' \<Longrightarrow> relay_steps env st0 st'"

definition relay_reach :: "'h relay_env \<Rightarrow> 'h pyx \<Rightarrow> bool" where
  "relay_reach env st \<longleftrightarrow> relay_steps env (nioinit env) st"

lemma relay_exec_ok:
  assumes "table_ok env tab" "frees_null env" "pyx_ok env tab st" "op_ok env st op"
  shows "\<exists>st'. relay_exec env st op = Inr st' \<and> pyx_ok env tab st'"
proof (cases op)
  case (Get_peer t)
  with getpeer_ok [OF assms(1,3), of t] show ?thesis by auto
next
  case (Start_relay c sid)
  with assms startrelay_none [OF assms(1,3), of sid c] startrelay_some [OF assms(1,3), of c sid]
  show ?thesis by (cases "tab (wpeers st) (fmt_d sid)") auto
next
  case (Event i ev io)
  with assms(4) relay_event_ok [OF assms(2,3), of i io ev] show ?thesis by auto
next
  case (Find_idle t)
  with findidle_ok [OF assms(1,3)] assms(3) show ?thesis by simp
qed

lemma relay_steps_ok:
  assumes "relay_steps env st0 st" "table_ok env tab" "frees_null env" "pyx_ok env tab st0"
  shows "pyx_ok env tab st"
  using assms(1)
proof induction
  case refl
  show ?case by (rule assms(4))
next
  case (step st op st')
  with relay_exec_ok [OF assms(2,3)] show ?case by fastforce
next
  case (controls st st')
  then show ?case using controls_change_ok by blast
qed

lemma relay_reach_ok:
  "relay_reach env st \<Longrightarrow> table_ok env tab \<Longrightarrow> frees_null env \<Longrightarrow> pyx_ok env tab st"
  unfolding relay_reach_def by (rule relay_steps_ok [OF _ _ _ pyx_ok_init])

text \<open>A relay that waits without being in the table stays so.\<close>

definition stuck :: "('h \<Rightarrow> string \<Rightarrow> nat option) \<Rightarrow> 'h pyx \<Rightarrow> nat \<Rightarrow> bool" where
  "stuck tab st a \<longleftrightarrow> r_status (relay st a) = RELAY_WAIT_ACCEPT \<and> (\<forall>k. tab (wpeers st) k \<noteq> Some a)"

lemma relay_exec_stuck:
  assumes "table_ok env tab" "frees_null env" "pyx_ok env tab st" "op_ok env st op" "relay_exec env st op = Inr st'" "stuck tab st a"
  shows "stuck tab st' a"
proof (cases op)
  case (Get_peer t)
  with getpeer_ok [OF assms(1,3), of t] assms(5,6) show ?thesis by (fastforce simp: stuck_def)
next
  case (Start_relay c sid)
  show ?thesis
  proof (cases "tab (wpeers st) (fmt_d sid)")
    case None
    from startrelay_none [OF assms(1,3) None, of c] Start_relay assms(5,6) show ?thesis by (auto simp: stuck_def)
  next
    case (Some r)
    with assms(6) have "r \<noteq> a" by (auto simp: stuck_def)
    with startrelay_some [OF assms(1,3) _ Some, of c] Start_relay assms(4,5,6) show ?thesis
      by (auto simp: stuck_def split: if_split_asm)
  qed
next
  case (Event i ev io)
  with assms(4,5,6) relay_event_ok [OF assms(2,3), of i io ev] show ?thesis by (auto simp: stuck_def keeps_waiting_def)
next
  case (Find_idle t)
  with findidle_ok [OF assms(1,3)] assms(5,6) show ?thesis by simp
qed

lemma relay_steps_stuck:
  assumes "relay_steps env st0 st" "table_ok env tab" "frees_null env" "pyx_ok env tab st0" "stuck tab st0 a"
  shows "stuck tab st a"
  using assms(1)
proof induction
  case (step st op st')
  then show ?case using relay_exec_stuck [OF assms(2,3) relay_steps_ok [OF step.hyps(1) assms(2-4)]] by blast
next
  case (controls st st')
  then show ?case by (simp add: stuck_def controls_change_def)
qed (rule assms(5))


text \<open>How a relay gets there: it was the only idle one when \<open>niogetpeer\<close> looked for two.\<close>

lemma pick_none: "filter (\<lambda>i. r_status (f i) = RELAY_IDLE) rs = [] \<Longrightarrow> pick_idle env f rs r1 = (f, None)"
  by (induction rs) (auto split: if_split_asm)

lemma pick_one:
  "filter (\<lambda>i. r_status (f i) = RELAY_IDLE) rs = [a] \<Longrightarrow> pick_idle env f rs None = (f(a := waiting env (f a)), None)"
proof (induction rs)
  case (Cons r rs)
  show ?case
  proof (cases "r_status (f r) = RELAY_IDLE")
    case True
    with Cons.prems have r: "r = a" "\<forall>x \<in> set rs. r_status (f x) \<noteq> RELAY_IDLE" by (auto simp: filter_empty_conv)
    then have "filter (\<lambda>i. r_status ((f(a := waiting env (f a))) i) = RELAY_IDLE) rs = []"
      by (auto simp: filter_empty_conv waiting_def)
    from pick_none [OF this, of env "Some a"] True r(1) show ?thesis by (simp add: Let_def del: fun_upd_apply)
  next
    case False
    with Cons show ?thesis by auto
  qed
qed simp

lemma getpeer_last:
  assumes "pyx_ok env tab st" "filter (\<lambda>i. r_status (relay st i) = RELAY_IDLE) (relaycache st) = [a]"
  shows "\<exists>st1. niogetpeer env st t = Inr (None, st1) \<and> stuck tab st1 a"
proof -
  have "a \<in> set (filter (\<lambda>i. r_status (relay st i) = RELAY_IDLE) (relaycache st))" using assms(2) by simp
  then have "r_status (relay st a) = RELAY_IDLE" by simp
  then have "tab (wpeers st) k \<noteq> Some a" for k using assms(1) by (auto simp: pyx_ok_but_def waiting_ok_def)
  then show ?thesis by (simp add: niogetpeer_def pick_one [OF assms(2)] stuck_def waiting_def)
qed

lemma stuck_not_started:
  assumes "table_ok env tab" "stuck tab st a"
  shows "niostartrelay env st c sid \<noteq> Inr (Some a, st')"
proof -
  have "fst (hashrm env (wpeers st) (fmt_d sid)) \<noteq> Some a" using assms by (auto simp: table_ok_def stuck_def)
  then show ?thesis by (auto simp: niostartrelay_def rbind_eq_Inr Let_def split: prod.splits option.splits if_splits)
qed

end
