(* ===== verification/RelayProps.thy ===== *)
theory RelayProps
  imports RelayRun
begin

text \<open>
  What the relays promise: the invariant in every reachable state, the two byte streams between a pair
  of active relays, data that stays in a buffer, and the sessions that are not released.
\<close>

section \<open>Two active relays\<close>

definition paired :: "'h relay_env \<Rightarrow> 'h pyx \<Rightarrow> nat \<Rightarrow> nat \<Rightarrow> bool" where
  "paired env st a b \<longleftrightarrow> active env (relay st) a \<and> active env (relay st) b \<and> a \<noteq> b \<and>
     r_peer (relay st a) = Some b \<and> r_peer (relay st b) = Some a"

text \<open>While bytes from \<open>i\<close> wait, \<open>epoll\<close> reports when its peer can be written to.\<close>

definition armed :: "'h pyx \<Rightarrow> nat \<Rightarrow> nat \<Rightarrow> bool" where
  "armed st i p \<longleftrightarrow> (pending (relay st i) \<noteq> [] \<longrightarrow> r_bits (relay st p) = READ_WRITE)"

type_synonym relay_input = "nat \<times> 32 word \<times> relay_io"

text \<open>An event that does not end the session: no hang-up, end of file or hard error.\<close>

fun calm :: "nat set \<Rightarrow> relay_input \<Rightarrow> bool" where
  "calm S (i, ev, io) \<longleftrightarrow> i \<in> S \<and> ev AND EPOLLERR = 0 \<and> ev AND EPOLLHUP = 0 \<and> io_rd io \<noteq> Rd_bytes [] \<and>
     io_rd io \<noteq> Rd_errno EOTHER \<and> write_works (io_w0 io) \<and> write_works (io_w1 io)"

text \<open>An event that moves what comes from \<open>x\<close> towards \<open>y\<close>: \<open>x\<close> can be read, or \<open>y\<close> only be written to.\<close>

fun moves :: "nat \<Rightarrow> nat \<Rightarrow> relay_input \<Rightarrow> bool" where
  "moves x y (i, ev, io) \<longleftrightarrow> i = x \<and> ev AND EPOLLIN \<noteq> 0 \<or> i = y \<and> ev AND EPOLLIN = 0 \<and> ev AND EPOLLOUT \<noteq> 0"

text \<open>What the daemon reads in one event, and a run of events with all it has read from each relay.\<close>

fun read_in :: "'h pyx \<Rightarrow> relay_input \<Rightarrow> nat \<Rightarrow> char list" where
  "read_in st (i, ev, io) j = (if j = i \<and> ev AND EPOLLIN \<noteq> 0 then taken (relay st i) (io_rd io) else [])"

fun relay_run :: "'h relay_env \<Rightarrow> 'h pyx \<Rightarrow> relay_input list \<Rightarrow> ('h pyx \<times> (nat \<Rightarrow> char list)) res" where
  "relay_run env st [] = Inr (st, \<lambda>_. [])"
| "relay_run env st ((i, ev, io) # es) =
     rbind (relay_event env st i ev io) (\<lambda>st1.
     rbind (relay_run env st1 es) (\<lambda>(st2, inp). Inr (st2, \<lambda>j. read_in st (i, ev, io) j @ inp j)))"

lemma paired_sockets:
  "pyx_ok env tab st \<Longrightarrow> paired env st a b \<Longrightarrow> r_s (relay st a) \<noteq> r_s (relay st b)"
  by (auto simp: pyx_ok_but_def sockets_ok_def paired_def)

lemma same_session_paired: "same_session st st' \<Longrightarrow> paired env st a b \<Longrightarrow> paired env st' a b"
  by (simp add: same_session_def paired_def active_def)

text \<open>One direction of the pair, from \<open>x\<close> to \<open>y\<close>, over a step in which \<open>new\<close> was read from \<open>x\<close>.\<close>

definition carries :: "'h pyx \<Rightarrow> nat \<Rightarrow> nat \<Rightarrow> char list \<Rightarrow> 'h pyx \<Rightarrow> bool" where
  "carries st x y new st' \<longleftrightarrow>
     sent st' (r_s (relay st' y)) @ pending (relay st' x) = sent st (r_s (relay st y)) @ pending (relay st x) @ new"

lemma carries_trans:
  "carries st x y u st1 \<Longrightarrow> carries st1 x y v st2 \<Longrightarrow> carries st x y (u @ v) st2"
  by (simp add: carries_def)

lemma relayed_pair:
  assumes "relayed st i p new st'" "same_session st st'" "r_s (relay st i) \<noteq> r_s (relay st p)"
  shows "carries st i p new st' \<and> carries st p i [] st' \<and> armed st' i p \<and> (armed st p i \<longrightarrow> armed st' p i) \<and>
    r_bits (relay st' i) = r_bits (relay st i) \<and> pending (relay st' p) = pending (relay st p) \<and>
    (\<forall>s. s \<noteq> r_s (relay st p) \<longrightarrow> sent st' s = sent st s) \<and>
    (pending (relay st p) = [] \<longrightarrow> pending (relay st' p) = []) \<and>
    (pending (relay st i) = [] \<longrightarrow> new = [] \<longrightarrow> pending (relay st' i) = [])"
proof -
  from assms(1) obtain out where o: "sent st' = (sent st)(r_s (relay st p) := sent st (r_s (relay st p)) @ out)"
    "out @ pending (relay st' i) = pending (relay st i) @ new" by (auto simp: relayed_def)
  have "r_s (relay st' p) = r_s (relay st p)" "r_s (relay st' i) = r_s (relay st i)" using assms(2) by (auto simp: same_session_def)
  with o assms show ?thesis by (auto simp: carries_def armed_def relayed_def)
qed

lemma pair_event:
  assumes ok: "pyx_ok env tab st" and pr: "paired env st i p" and calm: "calm {i, p} (i, ev, io)"
  shows "\<exists>st'. relay_event env st i ev io = Inr st' \<and> pyx_ok env tab st' \<and> same_session st st' \<and>
    carries st i p (read_in st (i, ev, io) i) st' \<and> carries st p i [] st' \<and>
    (armed st i p \<or> moves i p (i, ev, io) \<longrightarrow> armed st' i p) \<and> (armed st p i \<or> moves p i (i, ev, io) \<longrightarrow> armed st' p i) \<and>
    (\<forall>s. s \<noteq> r_s (relay st i) \<longrightarrow> s \<noteq> r_s (relay st p) \<longrightarrow> sent st' s = sent st s) \<and>
    (pending (relay st p) = [] \<longrightarrow> pending (relay st' p) = []) \<and>
    (ev AND EPOLLIN \<noteq> 0 \<longrightarrow> r_bits (relay st' i) = r_bits (relay st i) \<and> pending (relay st' p) = pending (relay st p)) \<and>
    (ev AND EPOLLIN = 0 \<longrightarrow> r_bits (relay st' p) = r_bits (relay st p) \<and> pending (relay st' i) = pending (relay st i))"
proof -
  from pr have ip: "i \<noteq> p" by (simp add: paired_def)
  from pr have a: "active env (relay st) i" "r_peer (relay st i) = Some p" "active env (relay st) p" "r_peer (relay st p) = Some i"
    "i < maxrelay env" "p < maxrelay env" by (auto simp: paired_def active_def)
  have s: "r_s (relay st i) \<noteq> r_s (relay st p)" by (rule paired_sockets [OF ok pr])
  have v: "r_ev (relay st i) \<noteq> None" using relays_ok_active(2) [of env "{}" "relay st" i] ok a(1,5) by (simp add: pyx_ok_but_def)
  consider "ev AND EPOLLIN \<noteq> 0" | "write_event ev" "ev AND EPOLLIN = 0" | "ev AND EPOLLIN = 0" "ev AND EPOLLOUT = 0"
    using calm by (auto simp: write_event_def)
  then show ?thesis
  proof cases
    case 1
    have "\<not> read_ends (relay st i) (io_rd io)" using calm by (auto simp: read_ends_def)
    from niorelay_works [OF ok a(1-3) this] calm obtain st' where st': "niorelay env st i io = Inr st'" "pyx_ok env tab st'"
      "same_session st st'" "relayed st i p (taken (relay st i) (io_rd io)) st'" by auto
    with relayed_pair [OF st'(4,3) s] 1 calm a(1) ip show ?thesis by (auto simp: relay_event_def runrelays2_def)
  next
    case 2
    from flush_works [OF ok a(6) _ a(4), of "io_w0 io"] calm a(1) obtain cc e st' where
      st': "nioflush2peer st p (io_w0 io) = Inr (cc, e, st')" "pyx_ok env tab st'" "same_session st st'" "relayed st p i [] st'" by auto
    with relayed_pair [OF st'(4,3) s [symmetric]] 2 relay_write_event(2) [OF 2(1) _ a(2)] v ip show ?thesis by auto
  next
    case 3
    with calm ok ip show ?thesis by (auto simp: relay_event_def carries_def)
  qed
qed

definition moved :: "nat \<Rightarrow> nat \<Rightarrow> relay_input list \<Rightarrow> bool" where
  "moved x y es \<longleftrightarrow> (\<exists>e \<in> set es. moves x y e)"

lemma pair_run:
  "pyx_ok env tab st \<Longrightarrow> paired env st a b \<Longrightarrow> \<forall>e \<in> set es. calm {a, b} e \<Longrightarrow>
   \<exists>st' inp. relay_run env st es = Inr (st', inp) \<and> pyx_ok env tab st' \<and> same_session st st' \<and>
     carries st a b (inp a) st' \<and> carries st b a (inp b) st' \<and>
     (armed st a b \<or> moved a b es \<longrightarrow> armed st' a b) \<and> (armed st b a \<or> moved b a es \<longrightarrow> armed st' b a) \<and>
     (\<forall>s. s \<noteq> r_s (relay st a) \<longrightarrow> s \<noteq> r_s (relay st b) \<longrightarrow> sent st' s = sent st s)"
proof (induction es arbitrary: st)
  case Nil
  then show ?case by (simp add: carries_def moved_def)
next
  case (Cons e es)
  obtain i ev io where e: "e = (i, ev, io)" by (cases e)
  have calm: "calm {a, b} (i, ev, io)" "calm {b, a} (i, ev, io)" using Cons.prems(3) e by auto
  have sym: "paired env st b a" "a \<noteq> b" using Cons.prems(2) by (auto simp: paired_def)
  have "\<exists>st1. relay_event env st i ev io = Inr st1 \<and> pyx_ok env tab st1 \<and> same_session st st1 \<and>
    carries st a b (read_in st e a) st1 \<and> carries st b a (read_in st e b) st1 \<and>
    (armed st a b \<or> moves a b e \<longrightarrow> armed st1 a b) \<and> (armed st b a \<or> moves b a e \<longrightarrow> armed st1 b a) \<and>
    (\<forall>s. s \<noteq> r_s (relay st a) \<longrightarrow> s \<noteq> r_s (relay st b) \<longrightarrow> sent st1 s = sent st s)"
  proof (cases "i = a")
    case True
    from pair_event [OF Cons.prems(1,2)] calm(1) True obtain st1 where
      "relay_event env st a ev io = Inr st1" "pyx_ok env tab st1" "same_session st st1" "carries st a b (read_in st (a, ev, io) a) st1"
      "carries st b a [] st1" "armed st a b \<or> moves a b (a, ev, io) \<longrightarrow> armed st1 a b" "armed st b a \<or> moves b a (a, ev, io) \<longrightarrow> armed st1 b a"
      "\<forall>s. s \<noteq> r_s (relay st a) \<longrightarrow> s \<noteq> r_s (relay st b) \<longrightarrow> sent st1 s = sent st s" by blast
    moreover have "read_in st e b = []" using True sym(2) e by simp
    ultimately show ?thesis using e True by (intro exI [of _ st1]) (simp del: moves.simps read_in.simps)
  next
    case False
    then have ib: "i = b" using calm(1) by simp
    from pair_event [OF Cons.prems(1) sym(1)] calm(2) ib obtain st1 where
      "relay_event env st b ev io = Inr st1" "pyx_ok env tab st1" "same_session st st1" "carries st b a (read_in st (b, ev, io) b) st1"
      "carries st a b [] st1" "armed st b a \<or> moves b a (b, ev, io) \<longrightarrow> armed st1 b a" "armed st a b \<or> moves a b (b, ev, io) \<longrightarrow> armed st1 a b"
      "\<forall>s. s \<noteq> r_s (relay st b) \<longrightarrow> s \<noteq> r_s (relay st a) \<longrightarrow> sent st1 s = sent st s" by blast
    moreover have "read_in st e a = []" using ib sym(2) e by simp
    ultimately show ?thesis using e ib by (intro exI [of _ st1]) (simp del: moves.simps read_in.simps)
  qed
  then obtain st1 where st1: "relay_event env st i ev io = Inr st1" "pyx_ok env tab st1" "same_session st st1"
    "carries st a b (read_in st e a) st1" "carries st b a (read_in st e b) st1"
    "armed st a b \<or> moves a b e \<longrightarrow> armed st1 a b" "armed st b a \<or> moves b a e \<longrightarrow> armed st1 b a"
    "\<forall>s. s \<noteq> r_s (relay st a) \<longrightarrow> s \<noteq> r_s (relay st b) \<longrightarrow> sent st1 s = sent st s" by blast
  have "\<forall>e \<in> set es. calm {a, b} e" using Cons.prems(3) by simp
  from Cons.IH [OF st1(2) same_session_paired [OF st1(3) Cons.prems(2)] this] obtain st2 inp where
    st2: "relay_run env st1 es = Inr (st2, inp)" "pyx_ok env tab st2" "same_session st1 st2"
      "carries st1 a b (inp a) st2" "carries st1 b a (inp b) st2"
      "armed st1 a b \<or> moved a b es \<longrightarrow> armed st2 a b" "armed st1 b a \<or> moved b a es \<longrightarrow> armed st2 b a"
      "\<forall>s. s \<noteq> r_s (relay st1 a) \<longrightarrow> s \<noteq> r_s (relay st1 b) \<longrightarrow> sent st2 s = sent st1 s" by blast
  have "relay_run env st (e # es) = Inr (st2, \<lambda>j. read_in st e j @ inp j)" using st1(1) st2(1) e by simp
  moreover have "r_s (relay st1 a) = r_s (relay st a)" "r_s (relay st1 b) = r_s (relay st b)" using st1(3) by (auto simp: same_session_def)
  moreover have "armed st a b \<or> moved a b (e # es) \<longrightarrow> armed st2 a b" "armed st b a \<or> moved b a (e # es) \<longrightarrow> armed st2 b a"
    using st1(6,7) st2(6,7) by (auto simp: moved_def)
  ultimately show ?case
    using st2(2,8) st1(8) same_session_trans [OF st1(3) st2(3)] carries_trans [OF st1(4) st2(4)] carries_trans [OF st1(5) st2(5)]
    by (intro exI [of _ st2] exI [of _ "\<lambda>j. read_in st e j @ inp j"]) simp
qed

text \<open>The events that \<open>epoll\<close> may report for a socket: what it was asked for, besides hang-ups and errors.\<close>

definition asked :: "'h pyx \<Rightarrow> nat \<Rightarrow> 32 word \<Rightarrow> bool" where
  "asked st i ev \<longleftrightarrow> (case epolled st (r_s (relay st i)) of None \<Rightarrow> False
     | Some m \<Rightarrow> (ev AND EPOLLIN \<noteq> 0 \<longrightarrow> m AND EPOLLIN \<noteq> 0) \<and> (ev AND EPOLLOUT \<noteq> 0 \<longrightarrow> m AND EPOLLOUT \<noteq> 0))"

fun asked_run :: "'h relay_env \<Rightarrow> 'h pyx \<Rightarrow> relay_input list \<Rightarrow> bool" where
  "asked_run env st [] = True"
| "asked_run env st ((i, ev, io) # es) =
     (asked st i ev \<and> (case relay_event env st i ev io of Inl _ \<Rightarrow> False | Inr st1 \<Rightarrow> asked_run env st1 es))"

text \<open>What \<open>x\<close> has sent stays where it is while its peer is polled for reading only and \<open>x\<close> sends nothing more.\<close>

fun silent :: "nat \<Rightarrow> relay_input \<Rightarrow> bool" where
  "silent x (i, ev, io) \<longleftrightarrow> \<not> (i = x \<and> ev AND EPOLLIN \<noteq> 0)"

definition stays :: "'h pyx \<Rightarrow> nat \<Rightarrow> nat \<Rightarrow> 'h pyx \<Rightarrow> bool" where
  "stays st x y st' \<longleftrightarrow> same_session st st' \<and> pending (relay st' x) = pending (relay st x) \<and>
     sent st' (r_s (relay st y)) = sent st (r_s (relay st y)) \<and> r_bits (relay st' y) = r_bits (relay st y)"

lemma stall_event:
  assumes ok: "pyx_ok env tab st" and pr: "paired env st x y" and bits: "r_bits (relay st y) = EPOLLIN"
    and ev: "calm {x, y} (i, ev, io)" "asked st i ev" "silent x (i, ev, io)"
  shows "\<exists>st'. relay_event env st i ev io = Inr st' \<and> pyx_ok env tab st' \<and> stays st x y st'"
proof -
  have sym: "paired env st y x" "x \<noteq> y" "active env (relay st) y" using pr by (auto simp: paired_def)
  have ep: "epolled st (r_s (relay st y)) = Some EPOLLIN" using ok sym(3) bits by (auto simp: pyx_ok_but_def sockets_ok_def)
  have carried: "sent st' (r_s (relay st y)) = sent st (r_s (relay st y))"
    if "carries st x y [] st'" "pending (relay st' x) = pending (relay st x)" "same_session st st'" for st'
    using that by (simp add: carries_def same_session_def)
  consider "i = x" "ev AND EPOLLIN = 0" | "i = y" "ev AND EPOLLIN \<noteq> 0" | "i = y" "ev AND EPOLLIN = 0" "ev AND EPOLLOUT = 0"
    using ev ep by (cases "i = x"; cases "ev AND EPOLLIN = 0") (auto simp: asked_def)
  then show ?thesis
  proof cases
    case 1
    from pair_event [OF ok pr] ev(1) 1 obtain st' where "relay_event env st i ev io = Inr st'" "pyx_ok env tab st'" "same_session st st'"
      "carries st x y [] st'" "pending (relay st' x) = pending (relay st x)" "r_bits (relay st' y) = r_bits (relay st y)"
      by fastforce
    with carried show ?thesis by (auto simp: stays_def)
  next
    case 2
    from pair_event [OF ok sym(1)] ev(1) 2 obtain st' where "relay_event env st i ev io = Inr st'" "pyx_ok env tab st'" "same_session st st'"
      "carries st x y [] st'" "pending (relay st' x) = pending (relay st x)" "r_bits (relay st' y) = r_bits (relay st y)"
      by fastforce
    with carried show ?thesis by (auto simp: stays_def)
  next
    case 3
    with ev(1) ok show ?thesis by (auto simp: relay_event_def stays_def)
  qed
qed

lemma stall_run:
  "pyx_ok env tab st \<Longrightarrow> paired env st x y \<Longrightarrow> r_bits (relay st y) = EPOLLIN \<Longrightarrow> asked_run env st es \<Longrightarrow>
   \<forall>e \<in> set es. calm {x, y} e \<and> silent x e \<Longrightarrow>
   \<exists>st' inp. relay_run env st es = Inr (st', inp) \<and> pyx_ok env tab st' \<and> stays st x y st'"
proof (induction es arbitrary: st)
  case Nil
  then show ?case by (simp add: stays_def)
next
  case (Cons e es)
  obtain i ev io where e: "e = (i, ev, io)" by (cases e)
  from Cons.prems(4,5) have "calm {x, y} (i, ev, io)" "asked st i ev" "silent x (i, ev, io)" unfolding e by auto
  from stall_event [OF Cons.prems(1-3) this] obtain st1 where
    st1: "relay_event env st i ev io = Inr st1" "pyx_ok env tab st1" "stays st x y st1" by blast
  from st1(3) have s: "paired env st1 x y" "r_bits (relay st1 y) = EPOLLIN" "r_s (relay st1 y) = r_s (relay st y)"
    using same_session_paired [OF _ Cons.prems(2)] Cons.prems(3) by (auto simp: stays_def same_session_def)
  from Cons.IH [OF st1(2) s(1,2)] Cons.prems(4,5) st1(1) obtain st2 inp where
    st2: "relay_run env st1 es = Inr (st2, inp)" "pyx_ok env tab st2" "stays st1 x y st2" by (auto simp: e)
  with st1(1,3) s(3) same_session_trans show ?case by (fastforce simp: e stays_def)
qed

section \<open>An environment\<close>

text \<open>The table as an association list, for the examples.\<close>

definition demo_relay_env :: "(string \<times> nat) list relay_env" where
  "demo_relay_env = \<lparr>hdr_size = 2, hdr_len = (\<lambda>bs. Some (of_char (bs ! 1))), alloc_ok = (\<lambda>n. n < 1000),
     hashmake = (\<lambda>n. []), hashrm = (\<lambda>h k. (map_of h k, AList.delete k h)),
     hashinstall = (\<lambda>h k v. (map_of h k \<noteq> None, (k, v) # h)),
     hashwalk = (\<lambda>h. map snd (AList.clearjunk h)), hashnum = (\<lambda>h. length (AList.clearjunk h)),
     freeup = (\<lambda>e. None), debug_args = True, nd_ttidl = 60, maxrelay = 3, maxctrl = 4, relaybuf = 4\<rparr>"

lemma length_clearjunk: "length (AList.clearjunk h) = card (dom (map_of h))"
  using distinct_card [OF distinct_clearjunk [of h]] dom_clearjunk [of h] by (simp add: dom_map_of_conv_image_fst)

lemma demo_relay_env_ok: "table_ok demo_relay_env map_of" "frees_null demo_relay_env"
  by (auto simp: table_ok_def frees_null_def demo_relay_env_def delete_conv' length_clearjunk ran_map_of fun_eq_iff)

text \<open>States on the way: a client connects on socket \<open>s\<close> to control structure \<open>c\<close>; an operation is done.\<close>

definition connect :: "'h pyx \<Rightarrow> nat \<Rightarrow> int \<Rightarrow> 'h pyx" where
  "connect st c s = upd_ctrl (st\<lparr>epolled := (epolled st)(s \<mapsto> EPOLLIN)\<rparr>) c (\<lambda>x. x\<lparr>c_s := s, c_ev := Some EPOLLIN\<rparr>)"

definition after :: "'h pyx res \<Rightarrow> 'h pyx" where
  "after r = (case r of Inr st \<Rightarrow> st)"

lemma connect_change:
  "\<forall>i. active env (relay st) i \<longrightarrow> r_s (relay st i) \<noteq> s \<Longrightarrow> controls_change env st (connect st c s)"
  by (auto simp: controls_change_def connect_def upd_ctrl_def)

lemma connect_reach:
  assumes "relay_reach env st" "\<forall>i. active env (relay st) i \<longrightarrow> r_s (relay st i) \<noteq> s"
  shows "relay_reach env (connect st c s)"
  using assms(1) connect_change [OF assms(2)] unfolding relay_reach_def by (rule relay_steps.controls)

lemma after_reach:
  assumes "relay_reach env st" "table_ok env tab" "frees_null env" "op_ok env st op"
  shows "relay_reach env (after (relay_exec env st op))"
proof -
  from relay_exec_ok [OF assms(2,3) relay_reach_ok [OF assms(1-3)] assms(4)] obtain st' where
    st': "relay_exec env st op = Inr st'" by blast
  with assms(1,4) show ?thesis unfolding relay_reach_def after_def by (auto intro: relay_steps.step)
qed

lemma all_active_demo:
  "(\<forall>i. active demo_relay_env f i \<longrightarrow> P i) \<longleftrightarrow> list_all (\<lambda>i. r_status (f i) = RELAY_ACTIVE \<longrightarrow> P i) [0, 1, 2]"
proof -
  have "i < 3 \<longleftrightarrow> i = 0 \<or> i = 1 \<or> i = 2" for i :: nat by auto
  moreover have "maxrelay demo_relay_env = 3" by (simp add: demo_relay_env_def)
  ultimately show ?thesis by (auto simp: active_def)
qed

definition free_socket :: "'h pyx \<Rightarrow> int \<Rightarrow> bool" where
  "free_socket st s \<longleftrightarrow> list_all (\<lambda>i. r_status (relay st i) = RELAY_ACTIVE \<longrightarrow> r_s (relay st i) \<noteq> s) [0, 1, 2]"

lemma connect_demo:
  assumes "relay_reach demo_relay_env st" "free_socket st s" "0 \<le> s"
  shows "relay_reach demo_relay_env (connect st c s)" "op_ok demo_relay_env (connect st c s) (Start_relay c sid)"
proof -
  have f: "\<forall>i. active demo_relay_env (relay st) i \<longrightarrow> r_s (relay st i) \<noteq> s"
    unfolding all_active_demo using assms(2) by (simp add: free_socket_def)
  from connect_reach [OF assms(1) f] show "relay_reach demo_relay_env (connect st c s)" .
  show "op_ok demo_relay_env (connect st c s) (Start_relay c sid)"
    using f assms(3) by (simp add: ctrl_ready_def connect_def upd_ctrl_def)
qed

lemmas after_demo = after_reach [OF _ demo_relay_env_ok]

text \<open>Two relays are given out; the client of the first one comes, then that of the second.\<close>

definition demo_given :: "(string \<times> nat) list pyx" where
  "demo_given = after (relay_exec demo_relay_env (nioinit demo_relay_env) (Get_peer 5))"

definition demo_wait :: "(string \<times> nat) list pyx" where
  "demo_wait = after (relay_exec demo_relay_env (connect demo_given 0 10) (Start_relay 0 0))"

definition demo_pair :: "(string \<times> nat) list pyx" where
  "demo_pair = after (relay_exec demo_relay_env (connect demo_wait 1 11) (Start_relay 1 1))"

lemma demo_given_reach: "relay_reach demo_relay_env demo_given"
  unfolding demo_given_def by (intro after_demo) (simp_all add: relay_reach_def relay_steps.refl)

lemma demo_wait_reach: "relay_reach demo_relay_env demo_wait"
proof -
  have "free_socket demo_given 10" by code_simp
  from connect_demo [OF demo_given_reach this] show ?thesis unfolding demo_wait_def by (intro after_demo) auto
qed

text \<open>The first client sends before the second has come.\<close>

definition demo_io :: "char list \<Rightarrow> relay_io" where
  "demo_io bs = \<lparr>io_w0 = Wr_bytes 9, io_rd = Rd_bytes bs, io_w1 = Wr_bytes 9, io_w2 = Wr_bytes 9\<rparr>"

definition demo_early :: "(string \<times> nat) list pyx" where
  "demo_early = after (relay_exec demo_relay_env demo_wait (Event 0 EPOLLIN (demo_io ''hi'')))"

lemma demo_early_reach: "relay_reach demo_relay_env demo_early"
proof -
  have "r_peer (relay demo_wait 0) = Some 1" by code_simp
  then have "op_ok demo_relay_env demo_wait (Event 0 EPOLLIN (demo_io ''hi''))"
    by (simp add: demo_relay_env_def io_ok_def demo_io_def write_works_def)
  from after_demo [OF demo_wait_reach this] show ?thesis by (simp add: demo_early_def)
qed

lemma demo_pair_reach: "relay_reach demo_relay_env demo_pair"
proof -
  have "free_socket demo_wait 11" by code_simp
  from connect_demo [OF demo_wait_reach this] show ?thesis unfolding demo_pair_def by (intro after_demo) auto
qed

text \<open>
  The first client leaves before the second has come; a new pair is given out, of the third relay and the
  first again; then the second client comes, and then the two of the new pair.
\<close>

definition demo_left :: "(string \<times> nat) list pyx" where
  "demo_left = after (relay_exec demo_relay_env demo_wait (Event 0 EPOLLIN (demo_io [])))"

definition demo_again :: "(string \<times> nat) list pyx" where
  "demo_again = after (relay_exec demo_relay_env demo_left (Get_peer 9))"

definition demo_second :: "(string \<times> nat) list pyx" where
  "demo_second = after (relay_exec demo_relay_env (connect demo_again 1 11) (Start_relay 1 1))"

definition demo_third :: "(string \<times> nat) list pyx" where
  "demo_third = after (relay_exec demo_relay_env (connect demo_second 2 12) (Start_relay 2 0))"

definition demo_cross :: "(string \<times> nat) list pyx" where
  "demo_cross = after (relay_exec demo_relay_env (connect demo_third 3 13) (Start_relay 3 2))"

lemma demo_cross_reach: "relay_reach demo_relay_env demo_cross"
proof -
  have "r_peer (relay demo_wait 0) = Some 1" by code_simp
  then have "op_ok demo_relay_env demo_wait (Event 0 EPOLLIN (demo_io []))"
    by (simp add: demo_relay_env_def io_ok_def demo_io_def write_works_def)
  from after_demo [OF demo_wait_reach this] have l: "relay_reach demo_relay_env demo_left" by (simp add: demo_left_def)
  have a: "relay_reach demo_relay_env demo_again" unfolding demo_again_def by (intro after_demo l) simp
  have f: "free_socket demo_again 11" "free_socket demo_second 12" "free_socket demo_third 13" by code_simp+
  have s: "relay_reach demo_relay_env demo_second"
    unfolding demo_second_def by (intro after_demo connect_demo a f) simp_all
  have t: "relay_reach demo_relay_env demo_third"
    unfolding demo_third_def by (intro after_demo connect_demo s f) simp_all
  show ?thesis unfolding demo_cross_def by (intro after_demo connect_demo t f) simp_all
qed

section \<open>Properties\<close>

text \<open>C2. Every reachable state of the relays is well formed, and no operation faults in it: whatever is
  asked for, started, received, written or closed, in any order and with any behaviour of the control
  connections in between, the buffer offsets stay in order, idle and waiting relays are exactly those
  in the cache, the table leads to waiting relays only, every active relay is in the epoll set with
  its own socket; no assertion fails, no NULL pointer is used and no buffer is left. The exceptions (\<open>op_ok\<close>):
  the write after a read is not interrupted by a signal, and a write on a socket reported as writable neither
  fails nor is interrupted; a relay is started on a control connection that is open, polled and not a relay's
  already; an event is of a relay that has been given a peer, as every active one has; and, if \<open>syslog_\<close> evaluates
  its arguments, an event that only reports a socket as writable is of a relay that has not been shut earlier in the
  same turn, because the log line reads the events through the NULL pointer. The hash table is a map and \<open>freeup\<close>
  leaves NULL in the pointer, as the test in nioflush2peer relies on.\<close>

theorem relay_reachable_ok:
  assumes "relay_reach env st" "table_ok env tab" "frees_null env"
  shows "pyx_ok env tab st \<and> (\<forall>op. op_ok env st op \<longrightarrow> (\<exists>st'. relay_exec env st op = Inr st'))"
  using relay_reach_ok [OF assms] relay_exec_ok [OF assms(2,3)] by blast

theorem relay_reachable_ok_witness:
  "pyx_ok demo_relay_env map_of (nioinit demo_relay_env) \<and> (\<exists>st'. relay_exec demo_relay_env (nioinit demo_relay_env) (Get_peer 5) = Inr st')"
proof -
  have "relay_reach demo_relay_env (nioinit demo_relay_env)" by (simp add: relay_reach_def relay_steps.refl)
  from relay_reachable_ok [OF this demo_relay_env_ok] have "pyx_ok demo_relay_env map_of (nioinit demo_relay_env) \<and>
    (op_ok demo_relay_env (nioinit demo_relay_env) (Get_peer 5) \<longrightarrow>
      (\<exists>st'. relay_exec demo_relay_env (nioinit demo_relay_env) (Get_peer 5) = Inr st'))" by blast
  then show ?thesis by (simp only: op_ok.simps)
qed

text \<open>C3. The core of the relay: between two relays that are active with each other, over any sequence of
  events in which neither side closes, fails or interrupts a write, each direction is a first-in first-out
  buffer. What has been sent to one side, followed by what is buffered for it, is what was there before
  followed by what was read from the other side: no byte is lost, repeated or reordered, whatever part of it each
  write takes. No more than a buffer waits; a write to the other socket that takes it all delivers everything;
  and no third socket is written to. While something waits, the other socket is polled for writing, if it
  was at the start or one event at least moved data in that direction (what a client sends before its peer
  comes is not polled for at first).\<close>

theorem relay_duplex:
  assumes "relay_reach env st" "table_ok env tab" "frees_null env"
    and "paired env st a b" "\<forall>e \<in> set es. calm {a, b} e"
  shows "\<exists>st' inp. relay_run env st es = Inr (st', inp) \<and> paired env st' a b \<and>
    (\<forall>(x, y) \<in> {(a, b), (b, a)}.
       sent st' (r_s (relay st y)) @ pending (relay st' x) = sent st (r_s (relay st y)) @ pending (relay st x) @ inp x \<and>
       length (pending (relay st' x)) \<le> relaybuf env \<and>
       (armed st x y \<or> moved x y es \<longrightarrow> pending (relay st' x) \<noteq> [] \<longrightarrow> epolled st' (r_s (relay st y)) = Some READ_WRITE) \<and>
       (\<forall>n io. length (pending (relay st' x)) \<le> n \<longrightarrow> io_w0 io = Wr_bytes n \<longrightarrow>
         (\<exists>st2. relay_event env st' y EPOLLOUT io = Inr st2 \<and>
            sent st2 (r_s (relay st y)) = sent st (r_s (relay st y)) @ pending (relay st x) @ inp x))) \<and>
    (\<forall>s. s \<noteq> r_s (relay st a) \<longrightarrow> s \<noteq> r_s (relay st b) \<longrightarrow> sent st' s = sent st s)"
proof -
  from pair_run [OF relay_reach_ok [OF assms(1-3)] assms(4,5)] obtain st' inp where
    r: "relay_run env st es = Inr (st', inp)" "pyx_ok env tab st'" "same_session st st'" "carries st a b (inp a) st'"
      "carries st b a (inp b) st'" "armed st a b \<or> moved a b es \<longrightarrow> armed st' a b" "armed st b a \<or> moved b a es \<longrightarrow> armed st' b a"
      "\<forall>s. s \<noteq> r_s (relay st a) \<longrightarrow> s \<noteq> r_s (relay st b) \<longrightarrow> sent st' s = sent st s" by blast
  have pr: "paired env st' a b" "paired env st' b a"
    using same_session_paired [OF r(3) assms(4)] by (auto simp: paired_def)
  have s: "r_s (relay st' y) = r_s (relay st y)" for y using r(3) by (simp add: same_session_def)
  have dir: "sent st' (r_s (relay st y)) @ pending (relay st' x) = sent st (r_s (relay st y)) @ pending (relay st x) @ inp x \<and>
      length (pending (relay st' x)) \<le> relaybuf env \<and>
      (armed st x y \<or> moved x y es \<longrightarrow> pending (relay st' x) \<noteq> [] \<longrightarrow> epolled st' (r_s (relay st y)) = Some READ_WRITE) \<and>
      (\<forall>n io. length (pending (relay st' x)) \<le> n \<longrightarrow> io_w0 io = Wr_bytes n \<longrightarrow>
         (\<exists>st2. relay_event env st' y EPOLLOUT io = Inr st2 \<and>
            sent st2 (r_s (relay st y)) = sent st (r_s (relay st y)) @ pending (relay st x) @ inp x))"
    if "paired env st' x y" "carries st x y (inp x) st'" "armed st x y \<or> moved x y es \<longrightarrow> armed st' x y" for x y
  proof -
    from that(1) have a: "active env (relay st') x" "active env (relay st') y" "x < maxrelay env" "r_peer (relay st' x) = Some y"
      "r_peer (relay st' y) = Some x" by (auto simp: paired_def active_def)
    have v: "r_ev (relay st' y) \<noteq> None"
      using relays_ok_active(2) [of env "{}" "relay st'" y] r(2) a(2) by (simp add: pyx_ok_but_def active_def)
    have ep: "epolled st' (r_s (relay st y)) = Some (r_bits (relay st' y))" using r(2) a(2) s by (auto simp: pyx_ok_but_def sockets_ok_def)
    have len: "length (pending (relay st' x)) \<le> relaybuf env"
      using pyx_ok_relay(1) [OF r(2) a(3)] by (auto simp: relay_ok_def pending_def)
    have fl: "\<exists>st2. relay_event env st' y EPOLLOUT io = Inr st2 \<and> sent st2 (r_s (relay st y)) =
        sent st' (r_s (relay st y)) @ pending (relay st' x)"
      if n: "length (pending (relay st' x)) \<le> n" "io_w0 io = Wr_bytes n" for n io
      using flush_spec [OF r(2) a(3) _ a(4), of "Wr_bytes n"] a(2) n s v
      by (auto simp: relay_write_event(2) [OF _ _ a(5)] flushed_def)
    show ?thesis using that(2,3) ep len fl s by (auto simp: carries_def armed_def)
  qed
  from dir [OF pr(1) r(4,6)] dir [OF pr(2) r(5,7)] r(1,8) pr(1) show ?thesis by blast
qed

theorem relay_duplex_witness:
  "\<exists>st' inp. relay_run demo_relay_env demo_pair [(0, EPOLLIN, demo_io ''hi''), (1, EPOLLOUT, demo_io ''-'')] = Inr (st', inp) \<and>
    sent st' 11 @ pending (relay st' 0) = inp 0"
proof -
  have p: "paired demo_relay_env demo_pair 0 1"
    unfolding paired_def active_def by (intro conjI; code_simp)
  have e: "pending (relay demo_pair 0) = []" "sent demo_pair (r_s (relay demo_pair 1)) = []" "r_s (relay demo_pair 1) = 11"
    by code_simp+
  have "\<forall>e \<in> set [(0, EPOLLIN, demo_io ''hi''), (1, EPOLLOUT, demo_io ''-'')]. calm {0, 1} e"
    by (simp add: demo_io_def write_works_def EPOLLIN_def EPOLLOUT_def EPOLLERR_def EPOLLHUP_def)
  from relay_duplex [OF demo_pair_reach demo_relay_env_ok p this] e show ?thesis by auto
qed

text \<open>C23. What a client sends before its peer has come is not delivered when the peer comes: niorelay
  keeps it in the buffer, and niostartrelay asks epoll for the new socket's input only, although bytes wait
  for it. From then on, whatever events epoll was asked for are handled, as long as the first client sends
  nothing more (it may be waiting for the answer) and neither side closes or fails, nothing of it is
  written, and the second client's socket is never polled for writing.\<close>

theorem early_data_stalls:
  assumes "relay_reach env st" "table_ok env tab" "frees_null env"
    and "active env (relay st) x" "r_peer (relay st x) = Some y" "r_peer (relay st y) = Some x"
    and "tab (wpeers st) (fmt_d (int y)) = Some y" "ctrl_ready env st c" "pending (relay st x) \<noteq> []"
  shows "\<exists>st1. niostartrelay env st c (int y) = Inr (Some y, st1) \<and> paired env st1 x y \<and> pending (relay st1 x) = pending (relay st x) \<and>
    (\<forall>es. asked_run env st1 es \<longrightarrow> (\<forall>e \<in> set es. calm {x, y} e \<and> silent x e) \<longrightarrow>
      (\<exists>st2 inp. relay_run env st1 es = Inr (st2, inp) \<and> pending (relay st2 x) = pending (relay st x) \<and>
         sent st2 (r_s (relay st1 y)) = sent st (r_s (relay st1 y)) \<and> epolled st2 (r_s (relay st1 y)) = Some EPOLLIN))"
proof -
  note ok = relay_reach_ok [OF assms(1-3)]
  have xy: "x \<noteq> y" using pyx_ok_relay(2) [OF ok] assms(4,5) by (auto simp: active_def)
  from startrelay_some [OF assms(2) ok assms(8,7)] obtain st1 where
    st1: "niostartrelay env st c (int y) = Inr (Some y, st1)" "pyx_ok env tab st1" "active env (relay st1) y"
      "relay st1 = (relay st)(y := (relay st y)\<lparr>r_status := RELAY_ACTIVE, r_s := c_s (ctrl st c), r_ev := Some EPOLLIN, r_bits := EPOLLIN\<rparr>)"
      "sent st1 = sent st" by blast
  have r: "relay st1 x = relay st x" "r_bits (relay st1 y) = EPOLLIN" "r_peer (relay st1 y) = Some x"
    unfolding st1(4) using xy assms(6) by simp_all
  have pr: "paired env st1 x y" using st1(3) r xy assms(4,5) by (simp add: paired_def active_def)
  have "\<exists>st2 inp. relay_run env st1 es = Inr (st2, inp) \<and> pending (relay st2 x) = pending (relay st x) \<and>
         sent st2 (r_s (relay st1 y)) = sent st (r_s (relay st1 y)) \<and> epolled st2 (r_s (relay st1 y)) = Some EPOLLIN"
    if es: "asked_run env st1 es" "\<forall>e \<in> set es. calm {x, y} e \<and> silent x e" for es
  proof -
    from stall_run [OF st1(2) pr r(2) es] obtain st2 inp where
      st2: "relay_run env st1 es = Inr (st2, inp)" "pyx_ok env tab st2" "stays st1 x y st2" by blast
    have "active env (relay st2) y" "r_s (relay st2 y) = r_s (relay st1 y)"
      using st2(3) st1(3) by (auto simp: stays_def same_session_def active_def)
    with st2(2) have "epolled st2 (r_s (relay st1 y)) = Some (r_bits (relay st2 y))" by (auto simp: pyx_ok_but_def sockets_ok_def)
    with st2 r st1(5) show ?thesis by (simp add: stays_def)
  qed
  with st1(1) pr r(1) show ?thesis by auto
qed

theorem early_data_stalls_witness:
  "pending (relay demo_early 0) = ''hi'' \<and>
   (\<exists>st1 st2 inp. niostartrelay demo_relay_env (connect demo_early 1 11) 1 1 = Inr (Some 1, st1) \<and>
     relay_run demo_relay_env st1 [(1, EPOLLIN, demo_io ''ok'')] = Inr (st2, inp) \<and> pending (relay st2 0) = ''hi'' \<and>
     epolled st2 (r_s (relay st1 1)) = Some EPOLLIN)"
proof -
  have f: "free_socket demo_early 11" by code_simp
  have c: "relay_reach demo_relay_env (connect demo_early 1 11)" "op_ok demo_relay_env (connect demo_early 1 11) (Start_relay 1 1)"
    by (rule connect_demo [OF demo_early_reach f], simp)+
  have a: "active demo_relay_env (relay (connect demo_early 1 11)) 0" unfolding active_def by (intro conjI; code_simp)
  have p: "r_peer (relay (connect demo_early 1 11) 0) = Some 1" "r_peer (relay (connect demo_early 1 11) 1) = Some 0"
    "map_of (wpeers (connect demo_early 1 11)) (fmt_d (int 1)) = Some 1" "pending (relay (connect demo_early 1 11) 0) = ''hi''"
    "pending (relay demo_early 0) = ''hi''" by code_simp+
  have "ctrl_ready demo_relay_env (connect demo_early 1 11) 1" using c(2) by simp
  from early_data_stalls [OF c(1) demo_relay_env_ok a p(1-3) this, unfolded p(4) of_nat_1] obtain st1 where
    st1: "niostartrelay demo_relay_env (connect demo_early 1 11) 1 1 = Inr (Some 1, st1)" and
    run: "\<forall>es. asked_run demo_relay_env st1 es \<longrightarrow> (\<forall>e \<in> set es. calm {0, 1} e \<and> silent 0 e) \<longrightarrow>
      (\<exists>st2 inp. relay_run demo_relay_env st1 es = Inr (st2, inp) \<and> pending (relay st2 0) = ''hi'' \<and>
         sent st2 (r_s (relay st1 1)) = sent (connect demo_early 1 11) (r_s (relay st1 1)) \<and> epolled st2 (r_s (relay st1 1)) = Some EPOLLIN)"
    by blast
  have "st1 = after (relay_exec demo_relay_env (connect demo_early 1 11) (Start_relay 1 1))" using st1 by (simp add: after_def)
  moreover have "asked_run demo_relay_env (after (relay_exec demo_relay_env (connect demo_early 1 11) (Start_relay 1 1))) [(1, EPOLLIN, demo_io ''ok'')]"
    by code_simp
  ultimately have "asked_run demo_relay_env st1 [(1, EPOLLIN, demo_io ''ok'')]" by simp
  moreover have "\<forall>e \<in> set [(1, EPOLLIN, demo_io ''ok'')]. calm {0, 1} e \<and> silent 0 e"
    by (simp add: demo_io_def write_works_def EPOLLIN_def EPOLLERR_def EPOLLHUP_def)
  ultimately show ?thesis using st1 run p(5) by blast
qed

text \<open>C22. A session is not ended for the client that comes late. When a relay reads the end of its
  connection while its peer still waits for its client, the relay is released but the peer stays in the table
  (the comment at niostartrelay says it is removed, and its late client shut down). So as long as it
  stays there, whatever happens, the client that names it is accepted, into a session whose other end is
  gone or has been given to somebody else.\<close>

theorem late_peer_joins:
  assumes "relay_reach env st" "table_ok env tab" "frees_null env"
    and "active env (relay st) r" "r_peer (relay st r) = Some p" "tab (wpeers st) (fmt_d (int p)) = Some p"
    and "r_x1 (relay st r) < relaybuf env" "io_rd io = Rd_bytes []"
  shows "\<exists>st1. relay_event env st r EPOLLIN io = Inr st1 \<and> \<not> active env (relay st1) r \<and> tab (wpeers st1) (fmt_d (int p)) = Some p \<and>
    (\<forall>st2 c. relay_steps env st1 st2 \<longrightarrow> tab (wpeers st2) (fmt_d (int p)) = Some p \<longrightarrow> ctrl_ready env st2 c \<longrightarrow>
      (\<exists>st3. niostartrelay env st2 c (int p) = Inr (Some p, st3) \<and> active env (relay st3) p \<and>
        r_peer (relay st3 p) = r_peer (relay st2 p)))"
proof -
  note ok = relay_reach_ok [OF assms(1-3)]
  have r: "r < maxrelay env" using assms(4) by (simp add: active_def)
  have "read_ends (relay st r) (io_rd io)" using assms(7,8) pyx_ok_relay(1) [OF ok r] by (auto simp: read_ends_def relay_ok_def)
  from niorelay_eof [OF assms(3) ok assms(4,5) this] obtain st1 where
    st1: "niorelay env st r io = Inr st1" "pyx_ok env tab st1" "keeps_waiting st st1" "\<not> active env (relay st1) r"
    by blast
  have ev: "relay_event env st r EPOLLIN io = Inr st1"
    using st1(1) by (simp add: relay_read_event)
  have "\<exists>st3. niostartrelay env st2 c (int p) = Inr (Some p, st3) \<and> active env (relay st3) p \<and> r_peer (relay st3 p) = r_peer (relay st2 p)"
    if "relay_steps env st1 st2" "tab (wpeers st2) (fmt_d (int p)) = Some p" "ctrl_ready env st2 c" for st2 c
    using startrelay_some [OF assms(2) relay_steps_ok [OF that(1) assms(2,3) st1(2)] that(3,2)] by auto
  with ev st1(3,4) assms(6) show ?thesis by (auto simp: keeps_waiting_def)
qed

theorem late_peer_joins_witness:
  "\<exists>st1. relay_event demo_relay_env demo_wait 0 EPOLLIN (demo_io []) = Inr st1 \<and> \<not> active demo_relay_env (relay st1) 0 \<and>
    map_of (wpeers st1) ''1'' = Some 1"
proof -
  have "active demo_relay_env (relay demo_wait) 0" unfolding active_def by (intro conjI; code_simp)
  moreover have "r_peer (relay demo_wait 0) = Some 1" "map_of (wpeers demo_wait) (fmt_d (int 1)) = Some 1"
    "r_x1 (relay demo_wait 0) < relaybuf demo_relay_env" "fmt_d (int 1) = ''1''" by code_simp+
  ultimately show ?thesis
    using late_peer_joins [OF demo_wait_reach demo_relay_env_ok, of 0 1 "demo_io []"] by (auto simp: demo_io_def)
qed

text \<open>C30. Strangers are connected: when the late client's relay \<open>p\<close> is active and the relay \<open>r\<close> it was given
  as a peer serves a session with another relay \<open>q\<close>, what the client of \<open>p\<close> sends is written to the client
  of \<open>r\<close>. Such a state is reachable: see the example.\<close>

theorem cross_talk:
  assumes "relay_reach env st" "table_ok env tab" "frees_null env"
    and "paired env st r q" "active env (relay st) p" "r_peer (relay st p) = Some r" "p \<noteq> q"
    and "calm {p} (p, EPOLLIN, io)" "io_w1 io = Wr_bytes n" "length (pending (relay st p) @ taken (relay st p) (io_rd io)) \<le> n"
  shows "\<exists>st'. relay_event env st p EPOLLIN io = Inr st' \<and>
    sent st' (r_s (relay st r)) = sent st (r_s (relay st r)) @ pending (relay st p) @ taken (relay st p) (io_rd io)"
proof -
  note ok = relay_reach_ok [OF assms(1-3)]
  have p: "p < maxrelay env" using assms(5) by (simp add: active_def)
  have r: "active env (relay st) r" using assms(4) by (simp add: paired_def)
  have ne: "\<not> read_ends (relay st p) (io_rd io)" using assms(8) by (auto simp: read_ends_def)
  from niorelay_sends [OF ok assms(5,6) r ne assms(9,10)] obtain st' where
    "niorelay env st p io = Inr st'" "sent st' (r_s (relay st r)) = sent st (r_s (relay st r)) @ pending (relay st p) @ taken (relay st p) (io_rd io)"
    by blast
  then show ?thesis
    by (simp add: relay_read_event)
qed

theorem cross_talk_witness:
  "paired demo_relay_env demo_cross 0 2 \<and>
   (\<exists>st'. relay_event demo_relay_env demo_cross 1 EPOLLIN (demo_io ''key'') = Inr st' \<and> sent st' 12 = ''key'')"
proof -
  have pr: "paired demo_relay_env demo_cross 0 2" unfolding paired_def active_def by (intro conjI; code_simp)
  have a: "active demo_relay_env (relay demo_cross) 1" unfolding active_def by (intro conjI; code_simp)
  have f: "r_peer (relay demo_cross 1) = Some 0" "pending (relay demo_cross 1) = []" "r_s (relay demo_cross 0) = 12" "sent demo_cross 12 = []"
    "taken (relay demo_cross 1) (Rd_bytes ''key'') = ''key''" by code_simp+
  have "calm {1} (1, EPOLLIN, demo_io ''key'')"
    by (simp add: demo_io_def write_works_def EPOLLIN_def EPOLLERR_def EPOLLHUP_def)
  from cross_talk [OF demo_cross_reach demo_relay_env_ok pr a f(1) _ this, of 9] f pr show ?thesis by (simp add: demo_io_def)
qed

text \<open>A write error is taken for a count: when a socket reported as writable fails or the write is interrupted,
  nioflush2peer adds the result -1 to its offset and nioepoll goes on. If bytes had been written before, the
  last of them will be sent again; if none had, the next write starts one byte before the buffer.\<close>

theorem write_error_moves_back:
  assumes "relay_reach env st" "table_ok env tab" "frees_null env"
    and "paired env st i p" "pending (relay st i) \<noteq> []" "e \<noteq> EAGAIN" "io_w0 io = Wr_errno e"
  shows "\<exists>st'. relay_event env st p EPOLLOUT io = Inr st' \<and>
    (0 < r_x2 (relay st i) \<longrightarrow> pending (relay st' i) = r_buf (relay st i) ! (nat (r_x2 (relay st i)) - 1) # pending (relay st i)) \<and>
    (r_x2 (relay st i) = 0 \<longrightarrow> (\<forall>io2. relay_event env st' p EPOLLOUT io2 = Inl Over_read))"
proof -
  note ok = relay_reach_ok [OF assms(1-3)]
  have pr: "i < maxrelay env" "r_peer (relay st i) = Some p" "active env (relay st) p" "r_peer (relay st p) = Some i" "i \<noteq> p"
    using assms(4) by (auto simp: paired_def active_def)
  from flush_error [OF ok pr(1) _ pr(2,3) assms(5,6)] obtain st' where st':
    "nioflush2peer st i (Wr_errno e) = Inr (-1, Some e, st')" "same_session st st'" "r_buf (relay st' i) = r_buf (relay st i)"
    "r_x1 (relay st' i) = r_x1 (relay st i)" "r_x2 (relay st' i) = r_x2 (relay st i) - 1" "r_ev (relay st' p) \<noteq> None" by auto
  have out: "relay_event env x p EPOLLOUT y = rbind (nioflush2peer x i (io_w0 y)) (\<lambda>(_, _, s). Inr s)"
    if "r_peer (relay x p) = Some i" "r_ev (relay x p) \<noteq> None" for x y
    using relay_write_event(2) [OF write_event_simps(1) _ that(1)] that(2) by simp
  have v: "r_ev (relay st p) \<noteq> None"
    using relays_ok_active(2) [of env "{}" "relay st" p] ok pr(3) by (simp add: pyx_ok_but_def active_def)
  have peers: "r_peer (relay st' p) = Some i" "r_peer (relay st' i) = Some p" using st'(2) pr by (auto simp: same_session_def)
  have off: "0 \<le> r_x2 (relay st i)" "r_x2 (relay st i) < int (r_x1 (relay st i))" "r_x1 (relay st i) \<le> length (r_buf (relay st i))"
    using pyx_ok_relay(1,3) [OF ok pr(1)] assms(5) by (auto simp: offsets_ok_def pending_def relay_ok_def)
  have "pending (relay st' i) = r_buf (relay st i) ! (nat (r_x2 (relay st i)) - 1) # pending (relay st i)" if x: "0 < r_x2 (relay st i)"
  proof -
    define a where "a = nat (r_x2 (relay st i)) - 1"
    have a: "nat (r_x2 (relay st i)) = Suc a" "nat (r_x2 (relay st i) - 1) = a" "Suc a < r_x1 (relay st i)"
      using x off(2) by (simp_all add: a_def)
    have "drop a (r_buf (relay st i)) = r_buf (relay st i) ! a # drop (Suc a) (r_buf (relay st i))"
      using a(3) off(3) by (intro Cons_nth_drop_Suc [symmetric]) simp
    moreover have "r_x1 (relay st i) - a = Suc (r_x1 (relay st i) - Suc a)" using a(3) by simp
    ultimately show ?thesis using st'(3-5) a by (simp add: pending_def)
  qed
  moreover have "relay_event env st' p EPOLLOUT io2 = Inl Over_read" if "r_x2 (relay st i) = 0" for io2
    using st'(4,5,6) peers off that pr(5) by (auto simp: out nioflush2peer_def Let_def)
  ultimately show ?thesis using out [OF pr(4) v, of io] st'(1) assms(7) by auto
qed


text \<open>A session in which the second client did not read at first: two bytes of three are still buffered.\<close>

definition demo_full :: "(string \<times> nat) list pyx" where
  "demo_full = after (relay_exec demo_relay_env demo_pair (Event 0 EPOLLIN ((demo_io ''key'')\<lparr>io_w1 := Wr_bytes 1\<rparr>)))"

lemma demo_full_reach: "relay_reach demo_relay_env demo_full"
proof -
  have "r_peer (relay demo_pair 0) = Some 1" by code_simp
  then have "op_ok demo_relay_env demo_pair (Event 0 EPOLLIN ((demo_io ''key'')\<lparr>io_w1 := Wr_bytes 1\<rparr>))"
    by (simp add: demo_relay_env_def io_ok_def demo_io_def write_works_def)
  from after_demo [OF demo_pair_reach this] show ?thesis by (simp add: demo_full_def)
qed

theorem write_error_moves_back_witness:
  "pending (relay demo_full 0) = ''ey'' \<and>
   (\<exists>st'. relay_event demo_relay_env demo_full 1 EPOLLOUT ((demo_io [])\<lparr>io_w0 := Wr_errno EINTR\<rparr>) = Inr st' \<and>
     pending (relay st' 0) = ''key'')"
proof -
  have p: "paired demo_relay_env demo_full 0 1" unfolding paired_def active_def by (intro conjI; code_simp)
  have e: "pending (relay demo_full 0) = ''ey''" "0 < r_x2 (relay demo_full 0)"
    "r_buf (relay demo_full 0) ! (nat (r_x2 (relay demo_full 0)) - 1) = CHR ''k''" by code_simp+
  from write_error_moves_back [OF demo_full_reach demo_relay_env_ok p, of EINTR "(demo_io [])\<lparr>io_w0 := Wr_errno EINTR\<rparr>"] e
  show ?thesis by auto
qed

text \<open>C32. Relays whose clients never come are not released: niofindidle, which is to shut them once their time is
  over, never changes anything, since nioshutrelay returns at once for a relay without a socket. And when only
  one relay is idle, niogetpeer fails but leaves it waiting: from then on, whatever is done, it is neither idle
  nor given to any client.\<close>

theorem waiting_relays_lost:
  assumes "relay_reach env st" "table_ok env tab" "frees_null env"
  shows "(\<forall>t. niofindidle env st t = Inr st) \<and>
    (\<forall>t a. filter (\<lambda>i. r_status (relay st i) = RELAY_IDLE) (relaycache st) = [a] \<longrightarrow>
      (\<exists>st1. niogetpeer env st t = Inr (None, st1) \<and>
        (\<forall>st2. relay_steps env st1 st2 \<longrightarrow> r_status (relay st2 a) = RELAY_WAIT_ACCEPT \<and>
          (\<forall>c sid st3. niostartrelay env st2 c sid \<noteq> Inr (Some a, st3)))))"
proof -
  note ok = relay_reach_ok [OF assms]
  have "\<exists>st1. niogetpeer env st t = Inr (None, st1) \<and>
      (\<forall>st2. relay_steps env st1 st2 \<longrightarrow> r_status (relay st2 a) = RELAY_WAIT_ACCEPT \<and>
        (\<forall>c sid st3. niostartrelay env st2 c sid \<noteq> Inr (Some a, st3)))"
    if one: "filter (\<lambda>i. r_status (relay st i) = RELAY_IDLE) (relaycache st) = [a]" for t a
  proof -
    from getpeer_last [OF ok one] obtain st1 where st1: "niogetpeer env st t = Inr (None, st1)" "stuck tab st1 a" by blast
    with getpeer_ok [OF assms(2) ok, of t] have "pyx_ok env tab st1" by auto
    then have "stuck tab st2 a" if "relay_steps env st1 st2" for st2
      using relay_steps_stuck [OF that assms(2,3) _ st1(2)] by blast
    then show ?thesis using st1(1) stuck_not_started [OF assms(2)] by (auto simp: stuck_def)
  qed
  then show ?thesis using findidle_ok [OF assms(2) ok] by blast
qed

theorem waiting_relays_lost_witness:
  "r_status (relay demo_given 2) = RELAY_IDLE \<and> niofindidle demo_relay_env demo_given 1000 = Inr demo_given \<and>
   (\<exists>st1. niogetpeer demo_relay_env demo_given 5 = Inr (None, st1) \<and> r_status (relay st1 2) = RELAY_WAIT_ACCEPT)"
proof -
  have "filter (\<lambda>i. r_status (relay demo_given i) = RELAY_IDLE) (relaycache demo_given) = [2]" by code_simp
  moreover have "r_status (relay demo_given 2) = RELAY_IDLE" by code_simp
  ultimately show ?thesis
    using waiting_relays_lost [OF demo_given_reach demo_relay_env_ok] relay_steps.refl by blast
qed

end
