(* ===== verification/SslChannel.thy ===== *)
theory SslChannel
  imports Relay
begin

text \<open>
  Control connections over SSL (\<open>src/lib/nio2.c\<close>): the handshake, the messages, and blocking input and
  output. The library is not in the repository: what \<open>SSL_accept\<close>, \<open>SSL_read\<close> and \<open>SSL_write\<close> answer,
  as \<open>SSL_get_error\<close> classifies it, is an argument.
\<close>

unbundle bit_operations_syntax

section \<open>What the library answers\<close>

text \<open>
  \<open>SSL_ERROR_NONE\<close> with the data at hand, of which the call takes what fits, or with a count;
  \<open>SSL_ERROR_WANT_READ\<close> or \<open>WANT_WRITE\<close>; \<open>SSL_ERROR_SSL\<close>, for a read with what it returned; any other
  error, or the end of the connection.
\<close>

datatype ssl_rd = SR_ok "char list" | SR_want | SR_ssl int | SR_fail

datatype ssl_wr = SW_ok nat | SW_want | SW_ssl | SW_fail

datatype ssl_acc = SA_ok | SA_want | SA_fail

section \<open>State\<close>

text \<open>Of each control connection, whether it has an SSL object, and when its handshake began.\<close>

record ssl_channels = channels +
  c_ssl :: "nat \<Rightarrow> bool"
  c_start :: "nat \<Rightarrow> int"

text \<open>The configuration, and what one call of \<open>niosslaccept\<close> is answered.\<close>

record ssl_conf =
  has_ctx :: bool        \<comment> \<open>there is an SSL context\<close>
  hndshk_timeout :: int

record ssl_handshake =
  h_new :: bool          \<comment> \<open>\<open>SSL_new\<close> succeeds\<close>
  h_set_fd :: bool       \<comment> \<open>\<open>SSL_set_fd\<close> succeeds\<close>
  h_acc :: ssl_acc
  h_now :: int

definition set_ssl :: "('z ssl_channels_scheme) \<Rightarrow> nat \<Rightarrow> bool \<Rightarrow> 'z ssl_channels_scheme" where
  "set_ssl st i v = st\<lparr>c_ssl := (c_ssl st)(i := v)\<rparr>"

definition set_revents :: "('z channels_scheme) \<Rightarrow> nat \<Rightarrow> 32 word \<Rightarrow> 'z channels_scheme" where
  "set_revents st i v = upd_ctrl st i (c_revents_update (\<lambda>_. v))"

definition sslnioshutctrl :: "('z ssl_channels_scheme) \<Rightarrow> nat \<Rightarrow> bool \<Rightarrow> ('z ssl_channels_scheme) res" where
  "sslnioshutctrl st i shut =
     (if c_s (ctrl st i) = -1 then Inr st
      else rbind (nioshutctrl st i shut) (\<lambda>st1. Inr (set_ssl (st1\<lparr>c_start := (c_start st1)(i := 0)\<rparr>) i False)))"

section \<open>The handshake\<close>

text \<open>Without an SSL context the five bytes that every relay client sends first are read, by one \<open>read\<close>.\<close>

definition read_five_bytes :: "rd_event list \<Rightarrow> rd_event list res" where
  "read_five_bytes es = (case sys_read 5 es of None \<Rightarrow> Inl Blocks | Some (_, es') \<Rightarrow> Inr es')"

definition set_accepting :: "('z channels_scheme) \<Rightarrow> nat \<Rightarrow> nat \<Rightarrow> 'z channels_scheme" where
  "set_accepting st i n = upd_ctrl st i (c_accepting_update (\<lambda>_. n))"

definition sslaccept :: "ssl_conf \<Rightarrow> ('z ssl_channels_scheme) \<Rightarrow> nat \<Rightarrow> ssl_acc \<Rightarrow> int \<Rightarrow> int \<times> 'z ssl_channels_scheme" where
  "sslaccept conf st i a t =
     (case a of
        SA_ok \<Rightarrow> (1, set_accepting st i 0)
      | SA_want \<Rightarrow>
          let n = c_accepting (ctrl st i);
              st1 = set_accepting (if n = 0 then st\<lparr>c_start := (c_start st)(i := t)\<rparr> else st) i (n + 1)
          in if hndshk_timeout conf \<le> t - c_start st1 i then (-2, set_accepting st1 i 0) else (1, st1)
      | SA_fail \<Rightarrow> (-1, set_accepting st i 0))"

definition niosslaccept :: "ssl_conf \<Rightarrow> ('z ssl_channels_scheme) \<Rightarrow> nat \<Rightarrow> ssl_handshake \<Rightarrow> rd_event list \<Rightarrow>
    (int \<times> 'z ssl_channels_scheme \<times> rd_event list) res" where
  "niosslaccept conf st i h es =
     (if \<not> has_ctx conf then rbind (read_five_bytes es) (\<lambda>es'. Inr (0, st, es'))
      else if \<not> c_ssl st i \<and> \<not> (h_new h \<and> h_set_fd h) then Inr (-1, st, es)
      else
        (let (cc, st1) = sslaccept conf (set_ssl st i True) i (h_acc h) (h_now h)
         in if 0 \<le> cc then Inr (0, st1, es)
            else rbind (if cc = -2 then sslnioshutctrl st1 i True else Inr st1) (\<lambda>st2. Inr (-1, set_ssl st2 i False, es))))"

text \<open>
  What \<open>nioepoll\<close> does with an event of the second listening socket, for the clients of relays: \<open>a\<close> and
  \<open>added\<close> are what \<open>accept\<close> and \<open>epoll_ctl\<close> answer, \<open>es\<close> is what the new client sends.
\<close>

definition relay_listener_event :: "ssl_conf \<Rightarrow> ('z ssl_channels_scheme) \<Rightarrow> 32 word \<Rightarrow> int \<Rightarrow> bool \<Rightarrow> ssl_handshake \<Rightarrow> rd_event list \<Rightarrow>
    ('z ssl_channels_scheme \<times> rd_event list) res" where
  "relay_listener_event conf st events a added h es =
     (if events AND EPOLLERR \<noteq> 0 \<or> events AND EPOLLHUP \<noteq> 0 \<or> events AND EPOLLIN = 0 then Inr (st, es)
      else rbind (nioacceptctrl st a added) (\<lambda>(c, st1).
        case c of
          None \<Rightarrow> Inr (st1, es)
        | Some i \<Rightarrow> rbind (niosslaccept conf st1 i h es) (\<lambda>(_, st2, es'). Inr (st2, es'))))"

section \<open>Messages\<close>

text \<open>\<open>sslnioasyncread\<close>: after an error it goes on as after a read of no bytes.\<close>

definition sslnioasyncread :: "'e pyx_env_scheme \<Rightarrow> 'z channels_scheme \<Rightarrow> nat \<Rightarrow> ssl_rd \<Rightarrow> (int \<times> 'z channels_scheme) res" where
  "sslnioasyncread env st i rd =
     (let c = ctrl st i; b = rcv_buffer env c; q = butlast (c_rcv c);
          st1 = (if nb_p b = nb_L b then set_revents st i POLLIN else st)
      in if (c_rcv c = [] \<or> nb_L (last (c_rcv c)) = 0) \<and> \<not> alloc_ok env (hdr_size env) then Inl Assert_fail
         else (case rd of
                 SR_ok bs \<Rightarrow> async_received env st1 i q b (take (nb_L b - nb_p b) bs)
               | SR_want \<Rightarrow> async_received env st1 i q b []
               | _ \<Rightarrow> async_received env (set_revents st1 i POLLERR) i q b []))"

text \<open>\<open>sslrelaystartread\<close>; each answer comes with whether \<open>SSL_pending\<close> is positive after it.\<close>

fun sslrelaystartread :: "'e pyx_env_scheme \<Rightarrow> 'z channels_scheme \<Rightarrow> nat \<Rightarrow> (ssl_rd \<times> bool) list \<Rightarrow> (int \<times> 'z channels_scheme) res" where
  "sslrelaystartread env st i [] = Inl Blocks"
| "sslrelaystartread env st i ((rd, pnd) # as) =
     rbind (sslnioasyncread env st i rd) (\<lambda>(cc, st1).
       if cc \<le> 0 then Inr (cc, st1)
       else if pnd then sslrelaystartread env st1 i as
       else Inr (cc, st1))"

text \<open>\<open>sslnioasyncwrite\<close>: the last buffer is written, the first is taken out; \<open>out\<close> is what the library took.\<close>

definition sslnioasyncwrite :: "('z channels_scheme) \<Rightarrow> nat \<Rightarrow> ssl_wr \<Rightarrow> (int \<times> 'z channels_scheme \<times> char list) res" where
  "sslnioasyncwrite st i w =
     (let c = ctrl st i; q = c_snd c; b = last q
      in if q = [] then Inr (0, st, [])
         else if length (nb_buf b) < nb_L b then Inl Over_read
         else (case w of
                 SW_ok n \<Rightarrow>
                   let m = min n (nb_L b - nb_p b); b1 = b\<lparr>nb_p := nb_p b + m\<rparr>; q1 = butlast q @ [b1]
                   in Inr (0, upd_ctrl st i (c_snd_update (\<lambda>_. if nb_p b1 = nb_L b1 then tl q1 else q1)), take m (drop (nb_p b) (nb_buf b)))
               | SW_want \<Rightarrow> Inr (0, upd_ctrl st i (c_snd_update (\<lambda>_. if nb_p b = nb_L b then tl q else q)), [])
               | _ \<Rightarrow> Inr (-1, set_revents st i POLLERR, [])))"

text \<open>
  What \<open>nioepoll\<close> does with an event of a control connection that has an SSL object. \<open>cc\<close> is the result of
  the last call, so the write of a connection with SSL is judged by what \<open>sslnioasyncwrite\<close> returns.
\<close>

definition ssl_ctrl_event :: "ssl_conf \<Rightarrow> 'e pyx_env_scheme \<Rightarrow> 'z ssl_channels_scheme \<Rightarrow> nat \<Rightarrow> 32 word \<Rightarrow> ssl_handshake \<Rightarrow>
    (ssl_rd \<times> bool) list \<Rightarrow> ssl_wr \<Rightarrow> ('z ssl_channels_scheme \<times> char list) res" where
  "ssl_ctrl_event conf env st i events h as w =
     (let st0 = set_revents st i 0 in
      if events AND EPOLLERR \<noteq> 0 \<or> events AND EPOLLHUP \<noteq> 0 then
        rbind (sslnioshutctrl (set_revents st0 i POLLERR) i True) (\<lambda>st1. Inr (st1, []))
      else if events AND EPOLLIN \<noteq> 0 then
        (if 0 < c_accepting (ctrl st0 i) then rbind (niosslaccept conf st0 i h []) (\<lambda>(_, st1, _). Inr (st1, []))
         else rbind (sslrelaystartread env st0 i as) (\<lambda>(cc, st1).
           rbind (if cc \<le> 0 then sslnioshutctrl st1 i True else Inr st1) (\<lambda>st2. Inr (st2, []))))
      else if events AND EPOLLOUT \<noteq> 0 then
        rbind (sslnioasyncwrite st0 i w) (\<lambda>(cc, st1, out).
          if cc \<le> 0 then rbind (sslnioshutctrl st1 i True) (\<lambda>st2. Inr (st2, out))
          else
            rbind (nonnull (c_ev (ctrl st1 i))) (\<lambda>ev.
              let ev1 = (if c_snd (ctrl st1 i) = [] then ev AND NOT EPOLLOUT else ev) OR EPOLLIN
              in Inr (epoll_mod (upd_ctrl st1 i (c_ev_update (\<lambda>_. Some ev1))) (c_s (ctrl st1 i)) ev1, out)))
      else Inr (st0, []))"

section \<open>Blocking input and output\<close>

text \<open>
  \<open>sslsyncwrite\<close> and \<open>sslsyncread\<close>. Both pass the whole length each time; the buffer for reading is the
  list \<open>buf\<close>, of which the first \<open>L2\<close> bytes are there. A call with no answer left blocks.
\<close>

fun sslsyncwrite_loop :: "char list \<Rightarrow> nat \<Rightarrow> nat \<Rightarrow> int \<Rightarrow> ssl_wr list \<Rightarrow> char list \<Rightarrow> (wr_result \<times> char list \<times> ssl_wr list) res" where
  "sslsyncwrite_loop mem L off L2 ws out =
     (if 0 < L2 then
        (case ws of
           [] \<Rightarrow> Inr (Write_blocks, out, [])
         | SW_ok n # ws' \<Rightarrow>
             (let c = min n L
              in if length mem < off + c then Inl Over_read
                 else sslsyncwrite_loop mem L (off + c) (L2 - int c) ws' (out @ take c (drop off mem)))
         | _ # ws' \<Rightarrow> Inr (Write_fail, out, ws'))
      else Inr (Write_ok L, out, ws))"

declare sslsyncwrite_loop.simps [simp del]

definition sslsyncwrite :: "char list \<Rightarrow> nat \<Rightarrow> ssl_wr list \<Rightarrow> (wr_result \<times> char list \<times> ssl_wr list) res" where
  "sslsyncwrite mem L ws = sslsyncwrite_loop mem L 0 (int L) ws []"

fun sslsyncread_loop :: "nat \<Rightarrow> char list \<Rightarrow> ssl_rd list \<Rightarrow> (rd_result \<times> ssl_rd list) res" where
  "sslsyncread_loop L buf rs =
     (if length buf < L then
        (case rs of
           [] \<Rightarrow> Inr (Read_blocks, [])
         | SR_ok bs # rs' \<Rightarrow>
             (let b = take L bs
              in if L < length buf + length b then Inl Buffer_overflow else sslsyncread_loop L (buf @ b) rs')
         | SR_want # rs' \<Rightarrow> sslsyncread_loop L buf rs'
         | _ # rs' \<Rightarrow> Inr (Read_fail, rs'))
      else Inr (Read_ok buf, rs))"

declare sslsyncread_loop.simps [simp del]

definition sslsyncread :: "nat \<Rightarrow> ssl_rd list \<Rightarrow> (rd_result \<times> ssl_rd list) res" where
  "sslsyncread L rs = sslsyncread_loop L [] rs"

text \<open>\<open>sslsndepyxheader\<close>: five zero bytes, \<open>SSL3_RT_HEADER_LENGTH\<close> of them, in the clear.\<close>

definition sslsndepyxheader :: "wr_answer list \<Rightarrow> (wr_result \<times> char list \<times> wr_answer list) res" where
  "sslsndepyxheader es = niowriteblock (replicate 5 NUL) 5 es"

section \<open>Lemmas\<close>

lemma sys_read_nothing: "stream_bytes es = [] \<Longrightarrow> \<not> stream_ends es \<Longrightarrow> Rd_intr \<notin> set es \<Longrightarrow> sys_read n es = None"
  by (induction n es rule: sys_read.induct) auto

lemma listener_bits: "EPOLLIN AND EPOLLERR = 0" "EPOLLIN AND EPOLLHUP = 0" "EPOLLIN AND EPOLLIN \<noteq> 0"
  by (simp_all add: EPOLLIN_def EPOLLERR_def EPOLLHUP_def)

lemma set_simps [simp]:
  "ctrl (set_revents st i v) = (ctrl st)(i := (ctrl st i)\<lparr>c_revents := v\<rparr>)" "ctrlist (set_revents st i v) = ctrlist st"
  "ctrlcache (set_revents st i v) = ctrlcache st" "epolled (set_revents st i v) = epolled st" "sent (set_revents st i v) = sent st"
  "ctrl (set_accepting st i n) = (ctrl st)(i := (ctrl st i)\<lparr>c_accepting := n\<rparr>)"
  "ctrlcache (set_accepting st i n) = ctrlcache st" "epolled (set_accepting st i n) = epolled st"
  by (simp_all add: set_revents_def set_accepting_def upd_ctrl_def)

lemma set_ssl_simps [simp]:
  "ctrl (set_ssl t i v) = ctrl t" "ctrlcache (set_ssl t i v) = ctrlcache t" "c_ssl (set_ssl t i v) = (c_ssl t)(i := v)"
  "c_start (set_ssl t i v) = c_start t" "epolled (set_ssl t i v) = epolled t"
  "c_ssl (set_revents t i w) = c_ssl t" "c_start (set_revents t i w) = c_start t"
  "c_ssl (set_accepting t i n) = c_ssl t" "c_start (set_accepting t i n) = c_start t"
  by (simp_all add: set_ssl_def set_revents_def set_accepting_def upd_ctrl_def)

text \<open>Blocking writes are those of \<open>niowriteblock\<close> without a second try.\<close>

fun as_write :: "ssl_wr \<Rightarrow> wr_answer" where
  "as_write (SW_ok n) = Wr_bytes n"
| "as_write SW_want = Wr_errno EOTHER"
| "as_write SW_ssl = Wr_errno EOTHER"
| "as_write SW_fail = Wr_errno EOTHER"

lemma sslsyncwrite_loop_eq:
  "map_sum id (map_prod id (map_prod id (map as_write))) (sslsyncwrite_loop mem L off L2 ws out) =
   niowrite_loop {} mem L off L2 (map as_write ws) out"
proof (induction ws arbitrary: off L2 out)
  case Nil
  then show ?case by (cases "0 < L2") (simp_all add: sslsyncwrite_loop.simps niowrite_loop_steps)
next
  case (Cons w ws)
  show ?case
  proof (cases "0 < L2")
    case True
    with Cons show ?thesis
      by (cases w) (simp_all add: sslsyncwrite_loop.simps [of _ _ _ _ "_ # _"] niowrite_loop_steps Let_def)
  qed (simp add: sslsyncwrite_loop.simps niowrite_loop_steps)
qed

lemma sslsyncread_loop_simps:
  "\<not> length buf < L \<Longrightarrow> sslsyncread_loop L buf rs = Inr (Read_ok buf, rs)"
  "length buf < L \<Longrightarrow> sslsyncread_loop L buf [] = Inr (Read_blocks, [])"
  "length buf < L \<Longrightarrow> sslsyncread_loop L buf (SR_ok bs # rs) =
     (if L < length buf + length (take L bs) then Inl Buffer_overflow else sslsyncread_loop L (buf @ take L bs) rs)"
  "length buf < L \<Longrightarrow> sslsyncread_loop L buf (SR_want # rs) = sslsyncread_loop L buf rs"
  "length buf < L \<Longrightarrow> sslsyncread_loop L buf (SR_fail # rs) = Inr (Read_fail, rs)"
  "length buf < L \<Longrightarrow> sslsyncread_loop L buf (SR_ssl cc # rs) = Inr (Read_fail, rs)"
  by (simp_all add: sslsyncread_loop.simps [of _ _ "_ # _"] sslsyncread_loop.simps [of _ _ "[]"]
      sslsyncread_loop.simps [of _ _ rs] Let_def)

text \<open>Pieces that fill the buffer exactly.\<close>

lemma sslsyncread_pieces:
  "length (buf @ concat bss) \<le> L \<Longrightarrow> \<forall>b \<in> set bss. b \<noteq> [] \<Longrightarrow>
   sslsyncread_loop L buf (map SR_ok bss @ rs) = sslsyncread_loop L (buf @ concat bss) rs"
proof (induction bss arbitrary: buf)
  case (Cons b bss)
  then have "0 < length b" "length buf + length b \<le> L" by auto
  then have "length buf < L" "take L b = b" "length buf + length b \<le> L" by (linarith, simp_all)
  with Cons show ?case by (simp add: sslsyncread_loop_simps)
qed simp

text \<open>Messages: the header, the body, and a call after the message is complete.\<close>

lemma ssl_read_header:
  assumes "is_message env m" "hdr_size env < length m" "c_rcv (ctrl st i) = []"
  shows "\<exists>st1. sslnioasyncread env st i (SR_ok (m @ e)) = Inr (int (hdr_size env), st1) \<and>
    ctrl st1 = (ctrl st)(i := (ctrl st i)\<lparr>c_rcv := [\<lparr>nb_buf = take (hdr_size env) m, nb_p = hdr_size env, nb_L = length m\<rparr>]\<rparr>) \<and>
    ctrlist st1 = ctrlist st"
proof -
  let ?h = "hdr_size env" and ?n = "length m"
  let ?b = "\<lparr>nb_buf = take ?h m, nb_p = ?h, nb_L = ?n\<rparr>"
  have m: "0 < ?h" "hdr_len env (take ?h m) = Some (?n - ?h)" "alloc_ok env ?h" "alloc_ok env ?n" "?n - ?h \<noteq> 0" "?n \<noteq> ?h"
    using assms(1,2) by (auto simp: is_message_def)
  have b: "rcv_buffer env (ctrl st i) = \<lparr>nb_buf = [], nb_p = 0, nb_L = ?h\<rparr>" by (simp add: rcv_buffer_def assms(3))
  have "async_received env st i [] \<lparr>nb_buf = [], nb_p = 0, nb_L = ?h\<rparr> (take ?h m) = Inr (int ?h, put_rcv st i [] ?b)"
    using m assms(2) by (simp add: async_received_def check_ready_def)
  then have "sslnioasyncread env st i (SR_ok (m @ e)) = Inr (int ?h, put_rcv st i [] ?b)"
    using m assms(2,3) by (simp add: sslnioasyncread_def b)
  then show ?thesis by (simp add: put_rcv_def upd_ctrl_def)
qed

lemma ssl_read_body:
  assumes "is_message env m" "hdr_size env < length m" "i \<notin> set (ctrlist st)"
    and "c_rcv (ctrl st i) = [\<lparr>nb_buf = take (hdr_size env) m, nb_p = hdr_size env, nb_L = length m\<rparr>]"
  shows "\<exists>st1. sslnioasyncread env st i (SR_ok (drop (hdr_size env) m @ e)) = Inr (int (length m), st1) \<and> received st i m st1"
proof -
  let ?h = "hdr_size env" and ?n = "length m"
  let ?b = "\<lparr>nb_buf = take ?h m, nb_p = ?h, nb_L = ?n\<rparr>" and ?f = "\<lparr>nb_buf = m, nb_p = ?n, nb_L = ?n\<rparr>"
  have b: "rcv_buffer env (ctrl st i) = ?b" "butlast (c_rcv (ctrl st i)) = []" "?n \<noteq> ?h" "?n \<noteq> 0" "int ?h + (int ?n - int ?h) = int ?n"
    using assms(2,4) by (auto simp: rcv_buffer_def)
  let ?st = "upd_ctrl ((put_rcv st i [] ?f)\<lparr>ctrlist := ctrlist st @ [i]\<rparr>) i (c_revents_update (\<lambda>_. POLLIN))"
  have "ctrlist (put_rcv st i [] ?f) = ctrlist st" by (simp add: put_rcv_def upd_ctrl_def)
  then have "message_ready (put_rcv st i [] ?f) i = Inr ?st" using assms(3) by (simp add: message_ready_def seq_enque_def)
  then have "async_received env st i [] ?b (drop ?h m) = Inr (int ?n, ?st)"
    using b assms(2) by (simp add: async_received_def check_ready_def)
  then have "sslnioasyncread env st i (SR_ok (drop ?h m @ e)) = Inr (int ?n, ?st)"
    using b assms(2,4) by (simp add: sslnioasyncread_def)
  then show ?thesis by (auto simp: received_def put_rcv_def upd_ctrl_def)
qed

lemma ssl_read_again:
  assumes "is_message env m" "hdr_size env < length m" "received st0 i m st"
  shows "sslnioasyncread env st i rd = Inl Dangling"
proof -
  have c: "c_rcv (ctrl st i) = [\<lparr>nb_buf = m, nb_p = length m, nb_L = length m\<rparr>]" "i \<in> set (ctrlist st)"
    using assms(3) by (auto simp: received_def)
  have m: "length m \<noteq> hdr_size env" "length m \<noteq> 0" using assms(2) by auto
  show ?thesis using c m
    by (cases rd) (simp_all add: sslnioasyncread_def async_received_def rcv_buffer_def Let_def check_ready_def put_rcv_def upd_ctrl_def
      message_ready_def seq_enque_def)
qed

lemma ssl_shut_open:
  assumes "c_s (ctrl st i) \<noteq> -1" "i \<notin> set (ctrlcache st)"
  shows "\<exists>st'. sslnioshutctrl st i True = Inr st' \<and> c_s (ctrl st' i) = -1 \<and> c_snd (ctrl st' i) = [] \<and> \<not> c_ssl st' i \<and>
    epolled st' (c_s (ctrl st i)) = None"
  using assms by (auto simp: sslnioshutctrl_def nioshutctrl_def Let_def upd_ctrl_def seq_enque_def)

text \<open>Events of a connection at which every read fails, and attempts of a handshake that asks for more each time.\<close>

fun failing_reads :: "ssl_conf \<Rightarrow> 'e pyx_env_scheme \<Rightarrow> 'z ssl_channels_scheme \<Rightarrow> nat \<Rightarrow> ssl_handshake \<Rightarrow> ssl_wr \<Rightarrow> ssl_rd list \<Rightarrow>
    ('z ssl_channels_scheme) res" where
  "failing_reads conf env st i h w [] = Inr st"
| "failing_reads conf env st i h w (rd # rds) =
     rbind (ssl_ctrl_event conf env st i EPOLLIN h [(rd, False)] w) (\<lambda>(st1, _). failing_reads conf env st1 i h w rds)"

fun handshakes :: "ssl_conf \<Rightarrow> ('z ssl_channels_scheme) \<Rightarrow> nat \<Rightarrow> int list \<Rightarrow> ('z ssl_channels_scheme) res" where
  "handshakes conf st i [] = Inr st"
| "handshakes conf st i (t # ts) =
     rbind (niosslaccept conf st i \<lparr>h_new = True, h_set_fd = True, h_acc = SA_want, h_now = t\<rparr> []) (\<lambda>(_, st1, _). handshakes conf st1 i ts)"

lemma failing_event:
  assumes "c_rcv (ctrl st i) = [b]" "0 < nb_p b" "nb_p b < nb_L b" "c_accepting (ctrl st i) = 0" "rd = SR_fail \<or> (\<exists>cc. rd = SR_ssl cc)"
  shows "\<exists>st'. ssl_ctrl_event conf env st i EPOLLIN h [(rd, False)] w = Inr (st', []) \<and>
    ctrl st' = (ctrl st)(i := (ctrl st i)\<lparr>c_revents := POLLERR\<rparr>) \<and> c_ssl st' = c_ssl st \<and> epolled st' = epolled st"
  using assms(5)
proof
  assume "rd = SR_fail"
  then show ?thesis using assms(1-4)
    by (simp add: ssl_ctrl_event_def EPOLLIN_def EPOLLERR_def EPOLLHUP_def sslnioasyncread_def async_received_def rcv_buffer_def Let_def
        check_ready_def put_rcv_def upd_ctrl_def set_revents_def fun_eq_iff)
next
  assume "\<exists>cc. rd = SR_ssl cc"
  then show ?thesis using assms(1-4)
    by (auto simp add: ssl_ctrl_event_def EPOLLIN_def EPOLLERR_def EPOLLHUP_def sslnioasyncread_def async_received_def rcv_buffer_def Let_def
        check_ready_def put_rcv_def upd_ctrl_def set_revents_def fun_eq_iff)
qed

lemma handshake_goes_on:
  assumes "has_ctx conf" "c_ssl st i" "0 < c_accepting (ctrl st i)" "t - c_start st i < hndshk_timeout conf"
  shows "\<exists>st'. niosslaccept conf st i \<lparr>h_new = a, h_set_fd = b, h_acc = SA_want, h_now = t\<rparr> es = Inr (0, st', es) \<and>
    ctrl st' = (ctrl st)(i := (ctrl st i)\<lparr>c_accepting := c_accepting (ctrl st i) + 1\<rparr>) \<and> c_ssl st' = c_ssl st \<and> c_start st' = c_start st \<and>
    ctrlcache st' = ctrlcache st"
  using assms by (simp add: niosslaccept_def sslaccept_def Let_def fun_upd_idem)

lemma handshakes_go_on:
  "has_ctx conf \<Longrightarrow> c_ssl st i \<Longrightarrow> 0 < c_accepting (ctrl st i) \<Longrightarrow> \<forall>t \<in> set ts. t - c_start st i < hndshk_timeout conf \<Longrightarrow>
   \<exists>st'. handshakes conf st i ts = Inr st' \<and>
     ctrl st' = (ctrl st)(i := (ctrl st i)\<lparr>c_accepting := c_accepting (ctrl st i) + length ts\<rparr>) \<and> c_ssl st' = c_ssl st \<and>
     c_start st' = c_start st \<and> ctrlcache st' = ctrlcache st"
proof (induction ts arbitrary: st)
  case (Cons t ts)
  then have "t - c_start st i < hndshk_timeout conf" by simp
  from handshake_goes_on [OF Cons.prems(1-3) this, of True True "[]"] obtain st1 where
    s: "niosslaccept conf st i \<lparr>h_new = True, h_set_fd = True, h_acc = SA_want, h_now = t\<rparr> [] = Inr (0, st1, [])"
      "ctrl st1 = (ctrl st)(i := (ctrl st i)\<lparr>c_accepting := c_accepting (ctrl st i) + 1\<rparr>)" "c_ssl st1 = c_ssl st" "c_start st1 = c_start st"
      "ctrlcache st1 = ctrlcache st" by blast
  have "c_ssl st1 i" "0 < c_accepting (ctrl st1 i)" "\<forall>t \<in> set ts. t - c_start st1 i < hndshk_timeout conf"
    using Cons.prems s by simp_all
  from Cons.IH [OF Cons.prems(1) this] s show ?case by (auto simp: fun_eq_iff)
qed simp

text \<open>A state for the examples: connection 0 is on socket 7 with some messages; it may have SSL.\<close>

definition demo_ssl :: "bool \<Rightarrow> nio_buf list \<Rightarrow> nio_buf list \<Rightarrow> ssl_channels" where
  "demo_ssl on rcv out = \<lparr>ctrl = (\<lambda>_. demo_ctrl\<lparr>c_rcv := rcv, c_snd := out\<rparr>), ctrlcache = [], ctrlarray = (\<lambda>_. None), ctrlist = [],
     epolled = [7 \<mapsto> EPOLLIN], sent = (\<lambda>_. []), c_ssl = (\<lambda>_. on), c_start = (\<lambda>_. 0)\<rparr>"

definition demo_hello :: ssl_handshake where
  "demo_hello = \<lparr>h_new = True, h_set_fd = True, h_acc = SA_want, h_now = 0\<rparr>"

definition demo_conf :: ssl_conf where "demo_conf = \<lparr>has_ctx = True, hndshk_timeout = 10\<rparr>"

section \<open>Properties\<close>

text \<open>The blocking SSL reader passes its whole length to every call although its buffer has less room left: when the
  pieces that SSL_read gives add up to the length, sslsyncread returns exactly their bytes; when a piece is longer than what is
  still missing, it is written past the end of the buffer.\<close>

theorem sslsyncread_exact_or_overflow:
  assumes "\<forall>b \<in> set bss. b \<noteq> []"
  shows "(length (concat bss) = L \<longrightarrow> sslsyncread L (map SR_ok bss @ rs) = Inr (Read_ok (concat bss), rs)) \<and>
    (\<forall>b. length (concat bss) < L \<longrightarrow> L < length (concat bss) + length b \<longrightarrow> length b \<le> L \<longrightarrow>
       sslsyncread L (map SR_ok bss @ SR_ok b # rs) = Inl Buffer_overflow)"
  using sslsyncread_pieces [of "[]" bss L] assms
  by (auto simp: sslsyncread_def sslsyncread_loop_simps)

theorem sslsyncread_exact_or_overflow_witness:
  "sslsyncread 4 [SR_ok ''key'', SR_ok ''s''] = Inr (Read_ok ''keys'', []) \<and>
   sslsyncread 4 [SR_ok ''key'', SR_ok ''ring''] = Inl Buffer_overflow"
proof -
  have "\<forall>b \<in> set [''key'', ''s'']. b \<noteq> []" "\<forall>b \<in> set [''key'']. b \<noteq> []" by simp_all
  from sslsyncread_exact_or_overflow [OF this(1), of 4 "[]"] sslsyncread_exact_or_overflow [OF this(2), of 4 "[]"]
  show ?thesis by (auto dest: spec [of _ "''ring''"])
qed

text \<open>The blocking SSL writer and niowriteblock run the same loop, with the same error in the length, but the SSL one gives up
  at every answer that is not a count: what is sent, what is read past the buffer and the result are the same
  when an answer of the library that is not a count is taken for an error of write.\<close>

theorem sslsyncwrite_equiv:
  "map_sum id (map_prod id (map_prod id (map as_write))) (sslsyncwrite mem L ws) =
   niowrite_loop {} mem L 0 (int L) (map as_write ws) []"
  unfolding sslsyncwrite_def by (rule sslsyncwrite_loop_eq)

text \<open>C21. The message that starts a relay over SSL, a header and a body in one record, is read whole by sslrelaystartread: it
  is complete in the queue and the connection is once in the list of those to process. But if the record holds
  anything more, the loop goes on because SSL_pending is positive, and whatever the next SSL_read answers, the connection
  is put a second time into the list, which destroys its links.\<close>

theorem ssl_start_message:
  assumes "is_message env m" "hdr_size env < length m" "c_rcv (ctrl st i) = []" "i \<notin> set (ctrlist st)"
  shows "(\<exists>st'. sslrelaystartread env st i [(SR_ok m, True), (SR_ok (drop (hdr_size env) m), False)] = Inr (int (length m), st') \<and>
      received st i m st') \<and>
    (\<forall>e rd pnd as. sslrelaystartread env st i ((SR_ok (m @ e), True) # (SR_ok (drop (hdr_size env) m @ e), True) # (rd, pnd) # as) =
      Inl Dangling)"
proof -
  have h: "0 < hdr_size env" "0 < length m" using assms(1,2) by (auto simp: is_message_def)
  have two: "\<exists>st1 st2. sslnioasyncread env st i (SR_ok (m @ e)) = Inr (int (hdr_size env), st1) \<and>
    sslnioasyncread env st1 i (SR_ok (drop (hdr_size env) m @ e)) = Inr (int (length m), st2) \<and> received st i m st2" for e
  proof -
    from ssl_read_header [OF assms(1-3), of e] obtain st1 where
      a: "sslnioasyncread env st i (SR_ok (m @ e)) = Inr (int (hdr_size env), st1)"
        "ctrl st1 = (ctrl st)(i := (ctrl st i)\<lparr>c_rcv := [\<lparr>nb_buf = take (hdr_size env) m, nb_p = hdr_size env, nb_L = length m\<rparr>]\<rparr>)"
        "ctrlist st1 = ctrlist st" by blast
    have "i \<notin> set (ctrlist st1)" "c_rcv (ctrl st1 i) = [\<lparr>nb_buf = take (hdr_size env) m, nb_p = hdr_size env, nb_L = length m\<rparr>]"
      using a assms(4) by simp_all
    from ssl_read_body [OF assms(1,2) this, of e] obtain st2 where
      "sslnioasyncread env st1 i (SR_ok (drop (hdr_size env) m @ e)) = Inr (int (length m), st2)" "received st1 i m st2" by blast
    with a show ?thesis by (auto simp: received_def)
  qed
  from two [of "[]"] h have "\<exists>st'. sslrelaystartread env st i [(SR_ok m, True), (SR_ok (drop (hdr_size env) m), False)] = Inr (int (length m), st') \<and>
      received st i m st'" by auto
  moreover have "sslrelaystartread env st i ((SR_ok (m @ e), True) # (SR_ok (drop (hdr_size env) m @ e), True) # (rd, pnd) # as) = Inl Dangling"
    for e rd pnd as
    using two [of e] h ssl_read_again [OF assms(1,2), of st i _ rd] by (auto simp: rbind_def)
  ultimately show ?thesis by blast
qed

theorem ssl_start_message_witness:
  "\<exists>st'. sslrelaystartread demo_env (demo_ssl True [] []) 0
      [(SR_ok [CHR ''R'', CHR 0x02, CHR ''o'', CHR ''k''], True), (SR_ok ''ok'', False)] = Inr (4, st') \<and> ctrlist st' = [0]"
proof -
  let ?m = "[CHR ''R'', CHR 0x02, CHR ''o'', CHR ''k'']"
  have "is_message demo_env ?m" "hdr_size demo_env < length ?m" by (simp_all add: is_message_def demo_env_def)
  moreover have "c_rcv (ctrl (demo_ssl True [] []) 0) = []" "ctrlist (demo_ssl True [] []) = []" by (simp_all add: demo_ssl_def)
  moreover have "drop (hdr_size demo_env) ?m = ''ok''" by (simp add: demo_env_def)
  ultimately show ?thesis using ssl_start_message [of demo_env ?m "demo_ssl True [] []" 0] by (auto simp: received_def)
qed

text \<open>C31. An SSL control connection that breaks off in the middle of a message is never closed: the error of SSL_read is noted in
  revents, but sslnioasyncread returns the number of bytes it had before, which nioepoll takes for progress. So after
  any number of events the connection is open and polled as before.\<close>

theorem ssl_broken_control_stays:
  assumes "c_rcv (ctrl st i) = [b]" "0 < nb_p b" "nb_p b < nb_L b" "c_accepting (ctrl st i) = 0"
    and "\<forall>rd \<in> set rds. rd = SR_fail \<or> (\<exists>cc. rd = SR_ssl cc)"
  shows "\<exists>st'. failing_reads conf env st i h w rds = Inr st' \<and> c_s (ctrl st' i) = c_s (ctrl st i) \<and> c_ssl st' i = c_ssl st i \<and>
    c_rcv (ctrl st' i) = [b] \<and> epolled st' = epolled st"
  using assms
proof (induction rds arbitrary: st)
  case (Cons rd rds)
  from failing_event [OF Cons.prems(1-4), of rd conf env h w] Cons.prems(5) obtain st1 where
    st1: "ssl_ctrl_event conf env st i EPOLLIN h [(rd, False)] w = Inr (st1, [])"
      "ctrl st1 = (ctrl st)(i := (ctrl st i)\<lparr>c_revents := POLLERR\<rparr>)" "c_ssl st1 = c_ssl st" "epolled st1 = epolled st" by auto
  have "c_rcv (ctrl st1 i) = [b]" "c_accepting (ctrl st1 i) = 0" "\<forall>rd \<in> set rds. rd = SR_fail \<or> (\<exists>cc. rd = SR_ssl cc)"
    using Cons.prems st1(2) by simp_all
  from Cons.IH [OF this(1) Cons.prems(2,3) this(2,3)] st1 show ?case by auto
qed simp

theorem ssl_broken_control_stays_witness:
  "\<exists>st'. failing_reads demo_conf demo_env (demo_ssl True [\<lparr>nb_buf = ''R'', nb_p = 1, nb_L = 2\<rparr>] []) 0 demo_hello SW_want [SR_fail, SR_fail] = Inr st' \<and>
    c_s (ctrl st' 0) = 7 \<and> epolled st' 7 = Some EPOLLIN"
proof -
  let ?b = "\<lparr>nb_buf = ''R'', nb_p = 1, nb_L = 2\<rparr>"
  have s: "c_rcv (ctrl (demo_ssl True [?b] []) 0) = [?b]" "c_accepting (ctrl (demo_ssl True [?b] []) 0) = 0"
    "c_s (ctrl (demo_ssl True [?b] []) 0) = 7" "epolled (demo_ssl True [?b] []) 7 = Some EPOLLIN"
    by (simp_all add: demo_ssl_def demo_ctrl_def)
  from ssl_broken_control_stays [OF s(1) _ _ s(2), of "[SR_fail, SR_fail]" demo_conf demo_env demo_hello SW_want] obtain st' where
    "failing_reads demo_conf demo_env (demo_ssl True [?b] []) 0 demo_hello SW_want [SR_fail, SR_fail] = Inr st'"
    "c_s (ctrl st' 0) = 7" "epolled st' = epolled (demo_ssl True [?b] [])" using s(3) by auto
  with s(4) show ?thesis by (auto simp del: failing_reads.simps)
qed

text \<open>Every write on an SSL control connection closes it: sslnioasyncwrite returns 0 when it succeeds, which nioepoll takes for an
  error. What the client gets is what the first SSL_write takes of the last message; all the rest of the queue is freed.\<close>

theorem ssl_reply_closes:
  assumes "c_snd (ctrl st i) = q @ [\<lparr>nb_buf = m, nb_p = p, nb_L = length m\<rparr>]" "p \<le> length m"
    and "c_s (ctrl st i) \<noteq> -1" "i \<notin> set (ctrlcache st)"
  shows "\<exists>st'. ssl_ctrl_event conf env st i EPOLLOUT h as w = Inr (st', case w of SW_ok n \<Rightarrow> take n (drop p m) | _ \<Rightarrow> []) \<and>
    c_s (ctrl st' i) = -1 \<and> c_snd (ctrl st' i) = [] \<and> \<not> c_ssl st' i \<and> epolled st' (c_s (ctrl st i)) = None"
proof -
  have "\<exists>cc st1. sslnioasyncwrite (set_revents st i 0) i w = Inr (cc, st1, case w of SW_ok n \<Rightarrow> take n (drop p m) | _ \<Rightarrow> []) \<and> cc \<le> 0 \<and>
      c_s (ctrl st1 i) = c_s (ctrl st i) \<and> ctrlcache st1 = ctrlcache st"
    using assms(1,2) by (cases w) (simp_all add: sslnioasyncwrite_def Let_def upd_ctrl_def min_def)
  then obtain cc st1 where w: "sslnioasyncwrite (set_revents st i 0) i w = Inr (cc, st1, case w of SW_ok n \<Rightarrow> take n (drop p m) | _ \<Rightarrow> [])"
    "cc \<le> 0" "c_s (ctrl st1 i) = c_s (ctrl st i)" "ctrlcache st1 = ctrlcache st" by blast
  from ssl_shut_open [of st1 i] w(3,4) assms(3,4) obtain st' where
    "sslnioshutctrl st1 i True = Inr st'" "c_s (ctrl st' i) = -1" "c_snd (ctrl st' i) = []" "\<not> c_ssl st' i" "epolled st' (c_s (ctrl st i)) = None"
    by auto
  with w(1,2) show ?thesis by (simp add: ssl_ctrl_event_def EPOLLIN_def EPOLLERR_def EPOLLHUP_def EPOLLOUT_def)
qed

theorem ssl_reply_closes_witness:
  "\<exists>st'. ssl_ctrl_event demo_conf demo_env (demo_ssl True [] [\<lparr>nb_buf = ''answer'', nb_p = 0, nb_L = 6\<rparr>]) 0 EPOLLOUT demo_hello [] (SW_ok 2) =
    Inr (st', ''an'') \<and> c_s (ctrl st' 0) = -1"
proof -
  let ?st = "demo_ssl True [] [\<lparr>nb_buf = ''answer'', nb_p = 0, nb_L = 6\<rparr>]"
  have "c_snd (ctrl ?st 0) = [] @ [\<lparr>nb_buf = ''answer'', nb_p = 0, nb_L = length ''answer''\<rparr>]" "c_s (ctrl ?st 0) \<noteq> -1" "0 \<notin> set (ctrlcache ?st)"
    by (simp_all add: demo_ssl_def demo_ctrl_def)
  from ssl_reply_closes [OF this(1) _ this(2,3), of demo_conf demo_env demo_hello "[]" "SW_ok 2"] show ?thesis by auto
qed

text \<open>C20. The handshake ends: while the library asks for more, the connection stays open and counts its attempts, until the first attempt
  that comes when the configured time has passed since the first one, which closes it; a handshake that is completed before
  leaves it open with its SSL object.\<close>

theorem ssl_handshake_ends:
  assumes "has_ctx conf" "\<not> c_ssl st i" "c_accepting (ctrl st i) = 0" "c_s (ctrl st i) \<noteq> -1" "i \<notin> set (ctrlcache st)"
    and "\<forall>t \<in> set (t0 # ts). t - t0 < hndshk_timeout conf"
  shows "\<exists>st'. handshakes conf st i (t0 # ts) = Inr st' \<and> c_accepting (ctrl st' i) = Suc (length ts) \<and> c_s (ctrl st' i) = c_s (ctrl st i) \<and>
    c_ssl st' i \<and>
    (\<forall>t a b. hndshk_timeout conf \<le> t - t0 \<longrightarrow>
      (\<exists>st2. niosslaccept conf st' i \<lparr>h_new = a, h_set_fd = b, h_acc = SA_want, h_now = t\<rparr> [] = Inr (-1, st2, []) \<and>
         c_s (ctrl st2 i) = -1 \<and> \<not> c_ssl st2 i)) \<and>
    (\<forall>t a b. \<exists>st2. niosslaccept conf st' i \<lparr>h_new = a, h_set_fd = b, h_acc = SA_ok, h_now = t\<rparr> [] = Inr (0, st2, []) \<and>
         c_accepting (ctrl st2 i) = 0 \<and> c_s (ctrl st2 i) = c_s (ctrl st i) \<and> c_ssl st2 i)"
proof -
  let ?h = "\<lparr>h_new = True, h_set_fd = True, h_acc = SA_want, h_now = t0\<rparr>"
  have z: "\<not> hndshk_timeout conf \<le> 0" using assms(6) by simp
  obtain st1 where s: "niosslaccept conf st i ?h [] = Inr (0, st1, [])" "ctrl st1 = (ctrl st)(i := (ctrl st i)\<lparr>c_accepting := 1\<rparr>)"
    "c_ssl st1 i" "c_start st1 i = t0" "ctrlcache st1 = ctrlcache st"
    using assms(1-3) z by (auto simp: niosslaccept_def sslaccept_def Let_def set_ssl_def set_accepting_def upd_ctrl_def)
  have "0 < c_accepting (ctrl st1 i)" "\<forall>t \<in> set ts. t - c_start st1 i < hndshk_timeout conf" using s assms(6) by auto
  from handshakes_go_on [OF assms(1) s(3) this] obtain st' where
    e: "handshakes conf st1 i ts = Inr st'" "ctrl st' = (ctrl st1)(i := (ctrl st1 i)\<lparr>c_accepting := c_accepting (ctrl st1 i) + length ts\<rparr>)"
      "c_ssl st' = c_ssl st1" "c_start st' = c_start st1" "ctrlcache st' = ctrlcache st1" by blast
  have f: "c_accepting (ctrl st' i) = Suc (length ts)" "c_s (ctrl st' i) = c_s (ctrl st i)" "c_ssl st' i" "c_start st' i = t0"
    "i \<notin> set (ctrlcache st')" using s e assms(5) by simp_all
  have over: "\<exists>st2. niosslaccept conf st' i \<lparr>h_new = a, h_set_fd = b, h_acc = SA_want, h_now = t\<rparr> [] = Inr (-1, st2, []) \<and>
         c_s (ctrl st2 i) = -1 \<and> \<not> c_ssl st2 i" if "hndshk_timeout conf \<le> t - t0" for t a b
  proof -
    let ?x = "set_accepting (set_accepting (set_ssl st' i True) i (Suc (length ts) + 1)) i 0"
    have "c_s (ctrl ?x i) \<noteq> -1" "i \<notin> set (ctrlcache ?x)" using f assms(4) by simp_all
    from ssl_shut_open [OF this] obtain st3 where "sslnioshutctrl ?x i True = Inr st3" "c_s (ctrl st3 i) = -1" by blast
    with f that assms(1) show ?thesis by (auto simp: niosslaccept_def sslaccept_def Let_def)
  qed
  have fin: "\<exists>st2. niosslaccept conf st' i \<lparr>h_new = a, h_set_fd = b, h_acc = SA_ok, h_now = t\<rparr> [] = Inr (0, st2, []) \<and>
         c_accepting (ctrl st2 i) = 0 \<and> c_s (ctrl st2 i) = c_s (ctrl st i) \<and> c_ssl st2 i" for t a b
    using f assms(1) by (simp add: niosslaccept_def sslaccept_def)
  show ?thesis using s(1) e(1) f over fin by (intro exI [of _ st']) simp
qed

theorem ssl_handshake_ends_witness:
  "\<exists>st' st2. handshakes demo_conf (demo_ssl False [] []) 0 [100, 104] = Inr st' \<and> c_accepting (ctrl st' 0) = 2 \<and>
    niosslaccept demo_conf st' 0 \<lparr>h_new = True, h_set_fd = True, h_acc = SA_want, h_now = 110\<rparr> [] = Inr (-1, st2, []) \<and> c_s (ctrl st2 0) = -1"
proof -
  let ?st = "demo_ssl False [] []"
  have "has_ctx demo_conf" "\<not> c_ssl ?st 0" "c_accepting (ctrl ?st 0) = 0" "c_s (ctrl ?st 0) \<noteq> -1" "0 \<notin> set (ctrlcache ?st)"
    "\<forall>t \<in> set [100, 104]. t - 100 < hndshk_timeout demo_conf" "hndshk_timeout demo_conf \<le> 110 - 100"
    by (simp_all add: demo_ssl_def demo_ctrl_def demo_conf_def)
  from ssl_handshake_ends [OF this(1-6)] this(7) show ?thesis by fastforce
qed

text \<open>Without an SSL context a client that connects to the port for relays and sends nothing stops the daemon: the accepting
  loop itself waits in a read for the five bytes of the empty header. When something comes, one read drops its first five
  bytes, but only what the first piece has of them: the rest of the five is left in front of the client's first message.\<close>

theorem relay_port_without_ssl:
  assumes "\<not> has_ctx conf" "ctrlcache st = i # q" "0 \<le> a"
  shows "(stream_bytes es = [] \<longrightarrow> \<not> stream_ends es \<longrightarrow> Rd_intr \<notin> set es \<longrightarrow> relay_listener_event conf st EPOLLIN a True h es = Inl Blocks) \<and>
    (\<forall>bs es'. es = Data bs # es' \<longrightarrow> bs \<noteq> [] \<longrightarrow>
       (\<exists>st' rest. relay_listener_event conf st EPOLLIN a True h es = Inr (st', rest) \<and> c_s (ctrl st' i) = a \<and> epolled st' a = Some EPOLLIN \<and>
          stream_bytes rest = drop (min 5 (length bs)) (stream_bytes es)))"
proof (intro conjI allI impI)
  assume "stream_bytes es = []" "\<not> stream_ends es" "Rd_intr \<notin> set es"
  then have "sys_read 5 es = None" by (rule sys_read_nothing)
  with assms show "relay_listener_event conf st EPOLLIN a True h es = Inl Blocks"
    by (simp add: relay_listener_event_def listener_bits nioacceptctrl_def niosslaccept_def read_five_bytes_def Let_def)
next
  fix bs es' assume "es = Data bs # es'" "bs \<noteq> []"
  with assms show "\<exists>st' rest. relay_listener_event conf st EPOLLIN a True h es = Inr (st', rest) \<and> c_s (ctrl st' i) = a \<and>
      epolled st' a = Some EPOLLIN \<and> stream_bytes rest = drop (min 5 (length bs)) (stream_bytes es)"
    by (simp add: relay_listener_event_def listener_bits nioacceptctrl_def niosslaccept_def read_five_bytes_def upd_ctrl_def Let_def min_def)
qed

theorem relay_port_without_ssl_witness:
  "relay_listener_event (demo_conf\<lparr>has_ctx := False\<rparr>) ((demo_ssl False [] [])\<lparr>ctrlcache := [1]\<rparr>) EPOLLIN 9 True demo_hello [] = Inl Blocks \<and>
   (\<exists>st' rest. relay_listener_event (demo_conf\<lparr>has_ctx := False\<rparr>) ((demo_ssl False [] [])\<lparr>ctrlcache := [1]\<rparr>) EPOLLIN 9 True demo_hello
      [Data [NUL, NUL], Data [NUL, NUL, NUL, CHR ''R'']] = Inr (st', rest) \<and> stream_bytes rest = [NUL, NUL, NUL, CHR ''R''])"
proof -
  have c: "\<not> has_ctx (demo_conf\<lparr>has_ctx := False\<rparr>)" "ctrlcache ((demo_ssl False [] [])\<lparr>ctrlcache := [1]\<rparr>) = 1 # []" "(0 :: int) \<le> 9" by simp_all
  from relay_port_without_ssl [OF c, of "[]" demo_hello] relay_port_without_ssl [OF c, of "[Data [NUL, NUL], Data [NUL, NUL, NUL, CHR ''R'']]" demo_hello]
  show ?thesis by fastforce
qed

end
