(* ===== verification/SslRelay.thy ===== *)
theory SslRelay
  imports RelayProps SslChannel
begin

text \<open>
  Relays over SSL (\<open>src/lib/nio2.c\<close>, functions \<open>ssl...\<close> on relays). What was read from a relay goes into
  the output queue of its peer; the SSL library may ask to repeat a call when the socket can be read or
  written. The library is not in the repository: what \<open>SSL_read\<close>, \<open>SSL_write\<close> and \<open>SSL_get_error\<close> answer
  is an argument, as the answers of the kernel are. A call of the library with a NULL object is a fault.
\<close>

unbundle bit_operations_syntax

section \<open>State\<close>

datatype sslmode = SSL_DO_OK | SSL_DO_READ | SSL_DO_WRITE

text \<open>
  \<open>pl\<close> is the state without SSL. Of each relay: whether it has an SSL object, what is to be repeated, and
  the queue of buffers for it (\<open>outbuf\<close>); of each control connection, whether it has an SSL object; of each
  socket, what the SSL connection on it has taken (\<open>sent\<close> of \<open>pl\<close> has what was written without SSL).
\<close>

record 'h ssl_pyx =
  pl :: "'h pyx"
  ssl :: "nat \<Rightarrow> bool"
  ctrl_ssl :: "nat \<Rightarrow> bool"
  mode :: "nat \<Rightarrow> sslmode"
  outbuf :: "nat \<Rightarrow> nio_buf list"
  sslsent :: "int \<Rightarrow> char list"

text \<open>What is answered during one event.\<close>

record ssl_io =
  plain_io :: relay_io
  ssl_rd :: ssl_rd
  ssl_ws :: "ssl_wr list"

definition sslnioinit :: "'h relay_env \<Rightarrow> 'h ssl_pyx" where
  "sslnioinit env = \<lparr>pl = nioinit env, ssl = (\<lambda>_. False), ctrl_ssl = (\<lambda>_. False), mode = (\<lambda>_. SSL_DO_OK),
     outbuf = (\<lambda>_. []), sslsent = (\<lambda>_. [])\<rparr>"

definition EAGAIN_code :: int where "EAGAIN_code = 11"

section \<open>Starting and stopping\<close>

definition sslniostartrelay :: "'h relay_env \<Rightarrow> 'h ssl_pyx \<Rightarrow> nat \<Rightarrow> int \<Rightarrow> (nat option \<times> 'h ssl_pyx) res" where
  "sslniostartrelay env st c sid =
     rbind (niostartrelay env (pl st) c sid) (\<lambda>(r, p).
       Inr (r, st\<lparr>pl := p, ssl := (case r of None \<Rightarrow> ssl st | Some i \<Rightarrow> (ssl st)(i := ctrl_ssl st c))\<rparr>))"

text \<open>\<open>nioshutrelay\<close> frees the SSL object; it leaves the output queue and what is to be repeated.\<close>

definition sslnioshutrelay :: "'h relay_env \<Rightarrow> 'h ssl_pyx \<Rightarrow> nat \<Rightarrow> 'h ssl_pyx res" where
  "sslnioshutrelay env st i =
     rbind (nioshutrelay env (pl st) i) (\<lambda>p.
       Inr (st\<lparr>pl := p, ssl := (if r_s (relay (pl st) i) < 0 then ssl st else (ssl st)(i := False))\<rparr>))"

definition ssl_shut_pair :: "'h relay_env \<Rightarrow> 'h ssl_pyx \<Rightarrow> nat \<Rightarrow> 'h ssl_pyx res" where
  "ssl_shut_pair env st i =
     rbind (sslnioshutrelay env st i) (\<lambda>st1.
     rbind (nonnull (r_peer (relay (pl st1) i))) (\<lambda>p. sslnioshutrelay env st1 p))"

text \<open>A step of the code without SSL: the relays that it shuts lose their SSL objects.\<close>

definition plain_step :: "'h ssl_pyx \<Rightarrow> 'h pyx res \<Rightarrow> 'h ssl_pyx res" where
  "plain_step st m =
     rbind m (\<lambda>p. Inr (st\<lparr>pl := p, ssl := (\<lambda>i. ssl st i \<and> \<not> (0 \<le> r_s (relay (pl st) i) \<and> r_s (relay p i) < 0))\<rparr>))"

section \<open>Moving data\<close>

definition nb_rest :: "nio_buf \<Rightarrow> char list" where
  "nb_rest b = take (nb_L b - nb_p b) (drop (nb_p b) (nb_buf b))"

definition ssl_put :: "'h ssl_pyx \<Rightarrow> int \<Rightarrow> char list \<Rightarrow> 'h ssl_pyx" where
  "ssl_put st s bs = st\<lparr>sslsent := (sslsent st)(s := sslsent st s @ bs)\<rparr>"

definition set_out :: "'h ssl_pyx \<Rightarrow> nat \<Rightarrow> nio_buf list \<Rightarrow> 'h ssl_pyx" where
  "set_out st i q = st\<lparr>outbuf := (outbuf st)(i := q)\<rparr>"

definition set_mode :: "'h ssl_pyx \<Rightarrow> nat \<Rightarrow> sslmode \<Rightarrow> 'h ssl_pyx" where
  "set_mode st i m = st\<lparr>mode := (mode st)(i := m)\<rparr>"

text \<open>Change the events of a relay; unlike the code without SSL, \<open>bits\<close> stays.\<close>

definition ssl_events :: "'h ssl_pyx \<Rightarrow> nat \<Rightarrow> 32 word \<Rightarrow> 'h ssl_pyx res" where
  "ssl_events st i ev =
     rbind (nonnull (r_ev (relay (pl st) i))) (\<lambda>_.
       Inr (st\<lparr>pl := epoll_mod (upd_relay (pl st) i (r_ev_update (\<lambda>_. Some ev))) (r_s (relay (pl st) i)) ev\<rparr>))"

text \<open>
  \<open>sslnioflush\<close>: the queue of \<open>i\<close>, the data for its client, is written to its peer \<open>p\<close>. Each buffer is
  taken from the queue and written once, whole or not.
\<close>

fun flush_out :: "'h ssl_pyx \<Rightarrow> nat \<Rightarrow> nat \<Rightarrow> nio_buf list \<Rightarrow> ssl_wr list \<Rightarrow> ('h ssl_pyx \<times> ssl_wr list) res" where
  "flush_out st i p [] ws = Inr (set_out st i [], ws)"
| "flush_out st i p (b # q) ws =
     (if \<not> ssl st p then Inl Null_deref
      else (case ws of
              SW_ok n # ws' \<Rightarrow> flush_out (ssl_put st (r_s (relay (pl st) p)) (take n (nb_rest b))) i p q ws'
            | _ \<Rightarrow> if ssl st i then Inr (set_out st i q, tl ws) else Inl Null_deref))"

definition sslnioflush :: "'h ssl_pyx \<Rightarrow> nat \<Rightarrow> ssl_wr list \<Rightarrow> ('h ssl_pyx \<times> ssl_wr list) res" where
  "sslnioflush st i ws =
     (if r_status (relay (pl st) i) = RELAY_WAIT_ACCEPT then Inr (st, ws)
      else rbind (nonnull (r_peer (relay (pl st) i))) (\<lambda>p. flush_out st i p (outbuf st i) ws))"

text \<open>Both queues are flushed and both relays shut.\<close>

definition ssl_end :: "'h relay_env \<Rightarrow> 'h ssl_pyx \<Rightarrow> nat \<Rightarrow> nat \<Rightarrow> ssl_wr list \<Rightarrow> (int \<times> 'h ssl_pyx \<times> ssl_wr list) res" where
  "ssl_end env st i p ws =
     rbind (sslnioflush st i ws) (\<lambda>(st1, ws1).
     rbind (sslnioflush st1 p ws1) (\<lambda>(st2, ws2).
     rbind (ssl_shut_pair env st2 i) (\<lambda>st3. Inr (-1, st3, ws2))))"

text \<open>\<open>sslniorelayread\<close>; \<open>SSL_read\<close> gets the whole buffer, and what it reads moves to the peer's queue.\<close>

definition ssl_received :: "'h relay_env \<Rightarrow> 'h ssl_pyx \<Rightarrow> nat \<Rightarrow> nat \<Rightarrow> char list \<Rightarrow> 'h ssl_pyx res" where
  "ssl_received env st i p bs =
     (if \<not> alloc_ok env (length bs) then Inl Null_deref
      else Inr ((set_out st p (outbuf st p @ [\<lparr>nb_buf = bs, nb_p = 0, nb_L = length bs\<rparr>]))
        \<lparr>pl := upd_relay (pl st) i (\<lambda>r. r\<lparr>r_x1 := 0, r_rbytes := r_rbytes r + int (length bs), r_buf := replicate (r_L r) NUL\<rparr>)\<rparr>))"

definition sslniorelayread :: "'h relay_env \<Rightarrow> 'h ssl_pyx \<Rightarrow> nat \<Rightarrow> ssl_rd \<Rightarrow> ssl_wr list \<Rightarrow> (int \<times> 'h ssl_pyx \<times> ssl_wr list) res" where
  "sslniorelayread env st i rd ws =
     (if \<not> ssl st i then Inr (-1, st, ws)
      else if r_x1 (relay (pl st) i) = r_L (relay (pl st) i) then Inl Assert_fail
      else
        rbind (nonnull (r_peer (relay (pl st) i))) (\<lambda>p.
        if mode st i = SSL_DO_WRITE then Inr (0, st, ws)
        else
          rbind (if mode st i = SSL_DO_READ then ssl_events st i EPOLLIN else Inr st) (\<lambda>st1.
          let st2 = set_mode st1 i SSL_DO_OK in
          case rd of
            SR_ok bs \<Rightarrow> rbind (ssl_received env st2 i p (take (r_L (relay (pl st) i)) bs)) (\<lambda>st3. Inr (0, st3, ws))
          | SR_want \<Rightarrow> Inr (0, set_mode st2 i SSL_DO_READ, ws)
          | SR_ssl cc \<Rightarrow> if cc = EAGAIN_code then Inr (0, st2, ws) else ssl_end env st2 i p ws
          | SR_fail \<Rightarrow> ssl_end env st2 i p ws)))"

text \<open>\<open>sslnioflush2peer\<close>: here \<open>i\<close> is the relay that is written to. The loop ends when the queue is empty.\<close>

fun ssl_drain :: "'h relay_env \<Rightarrow> 'h ssl_pyx \<Rightarrow> nat \<Rightarrow> nat \<Rightarrow> ssl_wr list \<Rightarrow> (int \<times> 'h ssl_pyx \<times> ssl_wr list) res" where
  "ssl_drain env st i p ws =
     (case outbuf st i of
        [] \<Rightarrow> Inr (0, st, ws)
      | b # q \<Rightarrow>
          (case ws of
             SW_ok n # ws' \<Rightarrow>
               let m = min n (nb_L b - nb_p b); b1 = b\<lparr>nb_p := nb_p b + m\<rparr>;
                   st1 = ssl_put st (r_s (relay (pl st) i)) (take n (nb_rest b));
                   st2 = st1\<lparr>pl := upd_relay (pl st1) i (\<lambda>r. r\<lparr>r_wbytes := r_wbytes r + int m\<rparr>)\<rparr>
               in ssl_drain env (set_out st2 i (if nb_p b1 = nb_L b1 then q else b1 # q)) i p ws'
           | SW_ssl # ws' \<Rightarrow> Inr (0, st, ws')
           | SW_fail # ws' \<Rightarrow> ssl_end env st i p ws'
           | _ \<Rightarrow> rbind (ssl_events (set_mode st i SSL_DO_WRITE) i EPOLLOUT) (\<lambda>st1. Inr (0, st1, tl ws))))"

declare ssl_drain.simps [simp del]

definition sslnioflush2peer :: "'h relay_env \<Rightarrow> 'h ssl_pyx \<Rightarrow> nat \<Rightarrow> ssl_wr list \<Rightarrow> (int \<times> 'h ssl_pyx \<times> ssl_wr list) res" where
  "sslnioflush2peer env st i ws =
     (if \<not> ssl st i then Inr (-1, st, ws)
      else if mode st i = SSL_DO_READ then rbind (nonnull (r_peer (relay (pl st) i))) (\<lambda>_. Inr (0, st, ws))
      else
        rbind (if mode st i = SSL_DO_WRITE then ssl_events st i EPOLLIN else Inr st) (\<lambda>st1.
        let st2 = set_mode st1 i SSL_DO_OK in
        if outbuf st2 i = [] then Inr (0, st2, ws)
        else rbind (nonnull (r_peer (relay (pl st2) i))) (\<lambda>p. ssl_drain env st2 i p ws)))"

definition sslniorelay :: "'h relay_env \<Rightarrow> 'h ssl_pyx \<Rightarrow> nat \<Rightarrow> ssl_io \<Rightarrow> 'h ssl_pyx res" where
  "sslniorelay env st i io =
     (if r_s (relay (pl st) i) < 0 then Inr st
      else
        rbind (sslniorelayread env st i (ssl_rd io) (ssl_ws io)) (\<lambda>(_, st1, ws1).
        rbind (nonnull (r_peer (relay (pl st1) i))) (\<lambda>p.
        if r_status (relay (pl st1) p) = RELAY_ACTIVE
        then rbind (sslnioflush2peer env st1 p ws1) (\<lambda>(_, st2, _). Inr st2)
        else Inr st1)))"

text \<open>\<open>runrelays2\<close> and the events of \<open>nioepoll\<close>; \<open>abort\<close> is a failed assertion.\<close>

definition sslrunrelays2 :: "'h relay_env \<Rightarrow> 'h ssl_pyx \<Rightarrow> nat \<Rightarrow> 32 word \<Rightarrow> ssl_io \<Rightarrow> 'h ssl_pyx res" where
  "sslrunrelays2 env st i revents io =
     (if \<not> ssl st i then plain_step st (runrelays2 env (pl st) i revents (plain_io io))
      else
        rbind (if revents AND POLLOUT \<noteq> 0 then
                 (case mode st i of
                    SSL_DO_READ \<Rightarrow> sslniorelay env st i io
                  | SSL_DO_WRITE \<Rightarrow> rbind (sslnioflush2peer env st i (ssl_ws io)) (\<lambda>(_, st1, _). Inr st1)
                  | SSL_DO_OK \<Rightarrow> Inl Assert_fail)
               else Inr st) (\<lambda>st1.
        if revents AND POLLIN \<noteq> 0 then
          (case mode st1 i of
             SSL_DO_WRITE \<Rightarrow> rbind (sslnioflush2peer env st1 i (ssl_ws io)) (\<lambda>(_, st2, _). Inr st2)
           | _ \<Rightarrow> sslniorelay env st1 i io)
        else Inr st1))"

definition ssl_relay_event :: "'h relay_env \<Rightarrow> 'h ssl_pyx \<Rightarrow> nat \<Rightarrow> 32 word \<Rightarrow> ssl_io \<Rightarrow> 'h ssl_pyx res" where
  "ssl_relay_event env st i events io =
     (if events AND EPOLLERR \<noteq> 0 \<or> events AND EPOLLHUP \<noteq> 0 then ssl_shut_pair env st i
      else if events AND EPOLLIN \<noteq> 0 then sslrunrelays2 env st i POLLIN io
      else if events AND EPOLLOUT \<noteq> 0 then
        rbind (if ssl st i then Inr () else debug_events env (r_ev (relay (pl st) i))) (\<lambda>_. sslrunrelays2 env st i POLLOUT io)
      else Inr st)"

fun ssl_turn :: "'h relay_env \<Rightarrow> 'h ssl_pyx \<Rightarrow> (nat \<times> 32 word \<times> ssl_io) list \<Rightarrow> 'h ssl_pyx res" where
  "ssl_turn env st [] = Inr st"
| "ssl_turn env st ((i, ev, io) # es) = rbind (ssl_relay_event env st i ev io) (\<lambda>st1. ssl_turn env st1 es)"

end
