(* ===== verification/SslProps.thy ===== *)
theory SslProps
  imports SslRelay
begin

text \<open>
  What the SSL relays promise and where they go wrong. The states here are those of one session: two
  active relays that are peers of each other, new or with what an earlier session has left.
\<close>

section \<open>One session\<close>

definition out_pending :: "'h ssl_pyx \<Rightarrow> nat \<Rightarrow> char list" where
  "out_pending st i = concat (map nb_rest (outbuf st i))"

text \<open>
  One end: its socket is polled for writing only when a write is to be repeated; its buffer is empty
  between events, since what was read is moved at once. Nothing is said of what is queued, nor of the
  mode while the socket is polled for reading: \<open>nioshutrelay\<close> resets neither \<open>sslmode\<close> nor \<open>outbuf\<close>, so a
  new session starts with those of an earlier one.
\<close>

definition nb_ok :: "nio_buf \<Rightarrow> bool" where
  "nb_ok b \<longleftrightarrow> nb_L b = length (nb_buf b) \<and> nb_p b \<le> nb_L b"

definition ssl_end_ok :: "'h relay_env \<Rightarrow> 'h ssl_pyx \<Rightarrow> nat \<Rightarrow> nat \<Rightarrow> bool" where
  "ssl_end_ok env st i p \<longleftrightarrow>
     (let r = relay (pl st) i in
      i < maxrelay env \<and> r_status r = RELAY_ACTIVE \<and> ssl st i \<and> 0 \<le> r_s r \<and> r_ev r \<noteq> None \<and> r_peer r = Some p \<and>
      r_x1 r = 0 \<and> 0 < r_L r \<and> (\<forall>n \<le> r_L r. alloc_ok env n) \<and>
      (epolled (pl st) (r_s r) = Some EPOLLIN \<or> epolled (pl st) (r_s r) = Some EPOLLOUT \<and> mode st i = SSL_DO_WRITE) \<and>
      (\<forall>b \<in> set (outbuf st i). nb_ok b))"

definition ssl_pair :: "'h relay_env \<Rightarrow> 'h ssl_pyx \<Rightarrow> nat \<Rightarrow> nat \<Rightarrow> bool" where
  "ssl_pair env st a b \<longleftrightarrow> ssl_end_ok env st a b \<and> ssl_end_ok env st b a \<and> a \<noteq> b \<and> r_s (relay (pl st) a) \<noteq> r_s (relay (pl st) b)"

lemma ssl_pair_sym: "ssl_pair env st a b \<Longrightarrow> ssl_pair env st b a"
  by (auto simp: ssl_pair_def)

text \<open>Polled for writing exactly when a write is to be repeated; a step keeps this at both ends.\<close>

definition ssl_polled :: "'h ssl_pyx \<Rightarrow> nat \<Rightarrow> bool" where
  "ssl_polled st i \<longleftrightarrow> epolled (pl st) (r_s (relay (pl st) i)) = Some (if mode st i = SSL_DO_WRITE then EPOLLOUT else EPOLLIN)"

definition polling_kept :: "'h ssl_pyx \<Rightarrow> nat \<Rightarrow> nat \<Rightarrow> 'h ssl_pyx \<Rightarrow> bool" where
  "polling_kept st i p st' \<longleftrightarrow> (ssl_polled st i \<longrightarrow> ssl_polled st' i) \<and> (ssl_polled st p \<longrightarrow> ssl_polled st' p)"

lemma polling_kept_basic:
  "polling_kept st i p st" "polling_kept st i p st1 \<Longrightarrow> polling_kept st1 i p st2 \<Longrightarrow> polling_kept st i p st2"
  "polling_kept st i p st' \<Longrightarrow> polling_kept st p i st'"
  by (auto simp: polling_kept_def)

definition ssl_same :: "'h ssl_pyx \<Rightarrow> 'h ssl_pyx \<Rightarrow> bool" where
  "ssl_same st st' \<longleftrightarrow> ssl st' = ssl st \<and> sent (pl st') = sent (pl st) \<and>
     (\<forall>j. r_s (relay (pl st') j) = r_s (relay (pl st) j) \<and> r_L (relay (pl st') j) = r_L (relay (pl st) j))"

lemma ssl_same_trans: "ssl_same st st1 \<Longrightarrow> ssl_same st1 st2 \<Longrightarrow> ssl_same st st2"
  by (simp add: ssl_same_def)

text \<open>A step in which \<open>new\<close> is read for relay \<open>i\<close>: what its client gets, and is still to get.\<close>

definition ssl_carries :: "'h ssl_pyx \<Rightarrow> nat \<Rightarrow> char list \<Rightarrow> 'h ssl_pyx \<Rightarrow> bool" where
  "ssl_carries st i new st' \<longleftrightarrow>
     sslsent st' (r_s (relay (pl st) i)) @ out_pending st' i = sslsent st (r_s (relay (pl st) i)) @ out_pending st i @ new"

lemma ssl_carries_trans:
  "ssl_carries st i u st1 \<Longrightarrow> ssl_carries st1 i v st2 \<Longrightarrow> ssl_same st st1 \<Longrightarrow> ssl_carries st i (u @ v) st2"
  by (simp add: ssl_carries_def ssl_same_def)

text \<open>Answers that do not end the session.\<close>

definition calm_writes :: "ssl_wr list \<Rightarrow> bool" where
  "calm_writes ws \<longleftrightarrow> SW_fail \<notin> set ws"

definition calm_read :: "ssl_rd \<Rightarrow> bool" where
  "calm_read rd \<longleftrightarrow> (case rd of SR_ok _ \<Rightarrow> True | SR_want \<Rightarrow> True | SR_ssl cc \<Rightarrow> cc = EAGAIN_code | SR_fail \<Rightarrow> False)"

section \<open>Steps of a session\<close>

lemma ssl_simps [simp]:
  "outbuf (set_out st i q) = (outbuf st)(i := q)" "mode (set_out st i q) = mode st" "ssl (set_out st i q) = ssl st"
  "sslsent (set_out st i q) = sslsent st" "pl (set_out st i q) = pl st"
  "outbuf (set_mode st i m) = outbuf st" "mode (set_mode st i m) = (mode st)(i := m)" "ssl (set_mode st i m) = ssl st"
  "sslsent (set_mode st i m) = sslsent st" "pl (set_mode st i m) = pl st"
  "outbuf (ssl_put st s bs) = outbuf st" "mode (ssl_put st s bs) = mode st" "ssl (ssl_put st s bs) = ssl st"
  "sslsent (ssl_put st s bs) = (sslsent st)(s := sslsent st s @ bs)" "pl (ssl_put st s bs) = pl st"
  by (simp_all add: set_out_def set_mode_def ssl_put_def)

lemma ssl_events_eq:
  assumes "r_ev (relay (pl st) i) \<noteq> None" "epolled (pl st) (r_s (relay (pl st) i)) \<noteq> None"
  shows "\<exists>st'. ssl_events st i ev = Inr st' \<and> outbuf st' = outbuf st \<and> mode st' = mode st \<and> ssl st' = ssl st \<and> sslsent st' = sslsent st \<and>
    sent (pl st') = sent (pl st) \<and> relay (pl st') = (relay (pl st))(i := (relay (pl st) i)\<lparr>r_ev := Some ev\<rparr>) \<and>
    epolled (pl st') = (epolled (pl st))(r_s (relay (pl st) i) \<mapsto> ev)"
  using assms by (auto simp: ssl_events_def epoll_mod_def)

lemma nb_rest_step:
  assumes "nb_L b = length (nb_buf b)" "nb_p b \<le> nb_L b"
  shows "take n (nb_rest b) @ nb_rest (b\<lparr>nb_p := nb_p b + min n (nb_L b - nb_p b)\<rparr>) = nb_rest b"
proof -
  have r: "nb_rest b = drop (nb_p b) (nb_buf b)" using assms by (simp add: nb_rest_def)
  have "nb_rest (b\<lparr>nb_p := nb_p b + min n (nb_L b - nb_p b)\<rparr>) = drop (min n (length (nb_rest b))) (nb_rest b)"
    using assms by (simp add: nb_rest_def add.commute)
  then show ?thesis by (simp add: min_def)
qed

lemma nb_rest_done: "nb_L b = length (nb_buf b) \<Longrightarrow> nb_rest b = [] \<longleftrightarrow> nb_L b \<le> nb_p b"
  by (auto simp: nb_rest_def)

text \<open>What a flush of the queue of \<open>i\<close> may do.\<close>

definition ssl_flushed :: "'h relay_env \<Rightarrow> 'h ssl_pyx \<Rightarrow> nat \<Rightarrow> nat \<Rightarrow> 'h ssl_pyx \<Rightarrow> bool" where
  "ssl_flushed env st i p st' \<longleftrightarrow> ssl_pair env st' i p \<and> ssl_same st st' \<and> ssl_carries st i [] st' \<and>
     (\<forall>s. s \<noteq> r_s (relay (pl st) i) \<longrightarrow> sslsent st' s = sslsent st s) \<and> outbuf st' p = outbuf st p \<and> mode st' p = mode st p \<and>
     polling_kept st i p st'"

lemma ssl_flushed_refl: "ssl_pair env st i p \<Longrightarrow> ssl_flushed env st i p st"
  by (simp add: ssl_flushed_def ssl_same_def ssl_carries_def polling_kept_basic(1))

lemma ssl_flushed_trans:
  "ssl_flushed env st i p st1 \<Longrightarrow> ssl_flushed env st1 i p st2 \<Longrightarrow> ssl_flushed env st i p st2"
  by (auto simp: ssl_flushed_def ssl_same_def ssl_carries_def intro: polling_kept_basic(2))

text \<open>Another mode, with the events that go with it.\<close>

lemma ssl_repoll:
  assumes "ssl_pair env st i p" "ev = (if m = SSL_DO_WRITE then EPOLLOUT else EPOLLIN)"
  shows "\<exists>st'. ssl_events (set_mode st i m) i ev = Inr st' \<and> ssl_flushed env st i p st' \<and> mode st' = (mode st)(i := m) \<and>
    outbuf st' = outbuf st \<and> sslsent st' = sslsent st"
proof -
  have "r_ev (relay (pl (set_mode st i m)) i) \<noteq> None" "epolled (pl (set_mode st i m)) (r_s (relay (pl (set_mode st i m)) i)) \<noteq> None"
    using assms(1) by (auto simp: ssl_pair_def ssl_end_ok_def Let_def)
  from ssl_events_eq [OF this, of ev] obtain st' where
    e: "ssl_events (set_mode st i m) i ev = Inr st'" and
    f: "outbuf st' = outbuf st" "mode st' = (mode st)(i := m)" "ssl st' = ssl st" "sslsent st' = sslsent st" "sent (pl st') = sent (pl st)"
      "relay (pl st') = (relay (pl st))(i := (relay (pl st) i)\<lparr>r_ev := Some ev\<rparr>)"
      "epolled (pl st') = (epolled (pl st))(r_s (relay (pl st) i) \<mapsto> ev)" by auto
  have "ssl_end_ok env st' i p" "ssl_end_ok env st' p i"
    using assms by (simp_all add: ssl_pair_def ssl_end_ok_def Let_def f)
  then have "ssl_pair env st' i p" using assms(1) by (simp add: ssl_pair_def f)
  moreover from this have "polling_kept st i p st'"
    using assms by (auto simp: polling_kept_def ssl_polled_def ssl_pair_def f)
  ultimately have "ssl_flushed env st i p st'"
    using assms(1) by (simp add: ssl_flushed_def ssl_same_def ssl_carries_def out_pending_def f ssl_pair_def)
  with e f show ?thesis by blast
qed

lemma ssl_wants_write:
  "ssl_pair env st i p \<Longrightarrow> \<exists>st'. ssl_events (set_mode st i SSL_DO_WRITE) i EPOLLOUT = Inr st' \<and> ssl_flushed env st i p st'"
  using ssl_repoll [of env st i p EPOLLOUT SSL_DO_WRITE] by auto

lemma ssl_drain_count:
  fixes n :: nat
  assumes "ssl_pair env st i p" "mode st i = SSL_DO_OK" "outbuf st i = b # q"
  defines "m \<equiv> min n (nb_L b - nb_p b)"
  defines "st2 \<equiv> (ssl_put st (r_s (relay (pl st) i)) (take n (nb_rest b)))
    \<lparr>pl := upd_relay (pl st) i (\<lambda>r. r\<lparr>r_wbytes := r_wbytes r + int m\<rparr>)\<rparr>"
  shows "ssl_flushed env st i p (set_out st2 i (if nb_p b + m = nb_L b then q else b\<lparr>nb_p := nb_p b + m\<rparr> # q))"
proof -
  have b: "nb_L b = length (nb_buf b)" "nb_p b \<le> nb_L b" using assms(1,3) by (auto simp: ssl_pair_def ssl_end_ok_def Let_def nb_ok_def)
  have r: "take n (nb_rest b) @ nb_rest (b\<lparr>nb_p := nb_p b + m\<rparr>) = nb_rest b" unfolding m_def by (rule nb_rest_step [OF b])
  have d: "nb_p b + m = nb_L b \<Longrightarrow> nb_rest (b\<lparr>nb_p := nb_p b + m\<rparr>) = []" using b by (simp add: nb_rest_def)
  have "ssl_carries st i [] (set_out st2 i (if nb_p b + m = nb_L b then q else b\<lparr>nb_p := nb_p b + m\<rparr> # q))"
    using r d assms(3) by (auto simp: ssl_carries_def out_pending_def st2_def)
  moreover have "m \<le> nb_L b - nb_p b" by (simp add: m_def)
  ultimately show ?thesis using assms(1,3) b
    by (auto simp: ssl_flushed_def ssl_pair_def ssl_end_ok_def Let_def ssl_same_def st2_def nb_ok_def polling_kept_def ssl_polled_def)
qed

lemma ssl_drain_simps:
  "outbuf st i = [] \<Longrightarrow> ssl_drain env st i p ws = Inr (0, st, ws)"
  "outbuf st i = b # q \<Longrightarrow> ssl_drain env st i p [] = rbind (ssl_events (set_mode st i SSL_DO_WRITE) i EPOLLOUT) (\<lambda>st1. Inr (0, st1, []))"
  "outbuf st i = b # q \<Longrightarrow> ssl_drain env st i p (SW_want # ws) =
     rbind (ssl_events (set_mode st i SSL_DO_WRITE) i EPOLLOUT) (\<lambda>st1. Inr (0, st1, ws))"
  "outbuf st i = b # q \<Longrightarrow> ssl_drain env st i p (SW_ssl # ws) = Inr (0, st, ws)"
  "outbuf st i = b # q \<Longrightarrow> ssl_drain env st i p (SW_ok n # ws) =
     ssl_drain env (set_out ((ssl_put st (r_s (relay (pl st) i)) (take n (nb_rest b)))
       \<lparr>pl := upd_relay (pl st) i (\<lambda>r. r\<lparr>r_wbytes := r_wbytes r + int (min n (nb_L b - nb_p b))\<rparr>)\<rparr>) i
       (if nb_p b + min n (nb_L b - nb_p b) = nb_L b then q else b\<lparr>nb_p := nb_p b + min n (nb_L b - nb_p b)\<rparr> # q)) i p ws"
  by (subst ssl_drain.simps; simp add: Let_def)+

lemma ssl_drain_calm:
  "ssl_pair env st i p \<Longrightarrow> mode st i = SSL_DO_OK \<Longrightarrow> calm_writes ws \<Longrightarrow>
   \<exists>st' ws'. ssl_drain env st i p ws = Inr (0, st', ws') \<and> ssl_flushed env st i p st'"
proof (induction ws arbitrary: st)
  case Nil
  then show ?case using ssl_wants_write [OF Nil.prems(1)] ssl_flushed_refl by (cases "outbuf st i") (auto simp: ssl_drain_simps)
next
  case (Cons w ws)
  show ?case
  proof (cases "outbuf st i")
    case Nil
    with Cons.prems show ?thesis by (simp add: ssl_drain_simps ssl_flushed_refl)
  next
    case b: (Cons b q)
    show ?thesis
    proof (cases w)
      case (SW_ok n)
      let ?st = "set_out ((ssl_put st (r_s (relay (pl st) i)) (take n (nb_rest b)))
        \<lparr>pl := upd_relay (pl st) i (\<lambda>r. r\<lparr>r_wbytes := r_wbytes r + int (min n (nb_L b - nb_p b))\<rparr>)\<rparr>) i
        (if nb_p b + min n (nb_L b - nb_p b) = nb_L b then q else b\<lparr>nb_p := nb_p b + min n (nb_L b - nb_p b)\<rparr> # q)"
      have f: "ssl_flushed env st i p ?st" using ssl_drain_count [OF Cons.prems(1,2) b] .
      have "ssl_pair env ?st i p" "mode ?st i = SSL_DO_OK" "calm_writes ws"
        using f Cons.prems(2,3) by (auto simp: ssl_flushed_def calm_writes_def)
      from Cons.IH [OF this] ssl_flushed_trans [OF f] show ?thesis unfolding SW_ok ssl_drain_simps(5) [OF b] by blast
    next
      case SW_want
      with b ssl_wants_write [OF Cons.prems(1)] show ?thesis by (auto simp: ssl_drain_simps)
    next
      case SW_ssl
      with b ssl_flushed_refl [OF Cons.prems(1)] show ?thesis by (simp add: ssl_drain_simps)
    next
      case SW_fail
      with Cons.prems(3) show ?thesis by (simp add: calm_writes_def)
    qed
  qed
qed

lemma ssl_events_mode: "ssl_events (set_mode st i m) j ev = rbind (ssl_events st j ev) (\<lambda>st1. Inr (set_mode st1 i m))"
  by (cases "r_ev (relay (pl st) j)") (simp_all add: ssl_events_def set_mode_def)

text \<open>Before a read or a write: nothing is to be repeated any more.\<close>

lemma ssl_reset:
  assumes "ssl_pair env st i p" "mode st i = SSL_DO_OK \<or> mode st i = m" "m \<noteq> SSL_DO_OK"
  shows "\<exists>st1. (if mode st i = m then ssl_events st i EPOLLIN else Inr st) = Inr st1 \<and> ssl_flushed env st i p (set_mode st1 i SSL_DO_OK) \<and>
    mode st1 = mode st \<and> outbuf st1 = outbuf st \<and> sslsent st1 = sslsent st \<and> ssl st1 = ssl st"
proof (cases "mode st i = m")
  case True
  from ssl_repoll [OF assms(1), of EPOLLIN SSL_DO_OK] obtain st2 where
    st2: "ssl_events (set_mode st i SSL_DO_OK) i EPOLLIN = Inr st2" "ssl_flushed env st i p st2" by auto
  from ssl_events_eq [of st i EPOLLIN] assms(1) obtain st1 where
    "ssl_events st i EPOLLIN = Inr st1" "mode st1 = mode st" "outbuf st1 = outbuf st" "sslsent st1 = sslsent st" "ssl st1 = ssl st"
    by (auto simp: ssl_pair_def ssl_end_ok_def Let_def)
  with st2 True show ?thesis by (simp add: ssl_events_mode)
next
  case False
  with assms have "mode st i = SSL_DO_OK" by blast
  then have "set_mode st i SSL_DO_OK = st" by (simp add: set_mode_def fun_upd_idem)
  with False ssl_flushed_refl [OF assms(1)] show ?thesis by simp
qed

lemma sslnioflush2peer_drains:
  assumes "ssl_pair env st i p" "mode st i \<noteq> SSL_DO_READ"
  shows "\<exists>st1. (\<forall>ws. sslnioflush2peer env st i ws = ssl_drain env st1 i p ws) \<and> ssl_flushed env st i p st1 \<and>
    mode st1 i = SSL_DO_OK \<and> outbuf st1 = outbuf st"
proof -
  have s: "ssl st i" "r_peer (relay (pl st) i) = Some p" using assms(1) by (auto simp: ssl_pair_def ssl_end_ok_def Let_def)
  have "mode st i = SSL_DO_OK \<or> mode st i = SSL_DO_WRITE" using assms(2) by (cases "mode st i") auto
  from ssl_reset [OF assms(1) this] obtain st1 where
    st1: "(if mode st i = SSL_DO_WRITE then ssl_events st i EPOLLIN else Inr st) = Inr st1"
      "ssl_flushed env st i p (set_mode st1 i SSL_DO_OK)" "outbuf st1 = outbuf st" by auto
  then have q: "r_peer (relay (pl st1) i) = Some p" by (auto simp: ssl_flushed_def ssl_pair_def ssl_end_ok_def Let_def)
  have "sslnioflush2peer env st i ws = ssl_drain env (set_mode st1 i SSL_DO_OK) i p ws" for ws
    unfolding sslnioflush2peer_def st1(1) using s assms(2) q by (simp add: Let_def ssl_drain_simps)
  with st1(2,3) show ?thesis by (intro exI [of _ "set_mode st1 i SSL_DO_OK"]) simp
qed

lemma sslnioflush2peer_calm:
  assumes "ssl_pair env st i p" "calm_writes ws"
  shows "\<exists>st' ws'. sslnioflush2peer env st i ws = Inr (0, st', ws') \<and> ssl_flushed env st i p st'"
proof (cases "mode st i = SSL_DO_READ")
  case True
  with assms ssl_flushed_refl [OF assms(1)] show ?thesis by (auto simp: sslnioflush2peer_def ssl_pair_def ssl_end_ok_def Let_def)
next
  case False
  from sslnioflush2peer_drains [OF assms(1) this] obtain st1 where
    st1: "\<forall>ws. sslnioflush2peer env st i ws = ssl_drain env st1 i p ws" "ssl_flushed env st i p st1" "mode st1 i = SSL_DO_OK" by blast
  then have "ssl_pair env st1 i p" by (simp add: ssl_flushed_def)
  from ssl_drain_calm [OF this st1(3) assms(2)] ssl_flushed_trans [OF st1(2)] st1(1) show ?thesis by auto
qed

text \<open>A read: what it takes is queued for the peer as one buffer.\<close>

definition ssl_taken :: "'h ssl_pyx \<Rightarrow> nat \<Rightarrow> ssl_rd \<Rightarrow> char list" where
  "ssl_taken st i rd = (case rd of SR_ok bs \<Rightarrow> take (r_L (relay (pl st) i)) bs | _ \<Rightarrow> [])"

definition ssl_queued :: "'h ssl_pyx \<Rightarrow> nat \<Rightarrow> ssl_rd \<Rightarrow> nio_buf list" where
  "ssl_queued st i rd =
     (case rd of SR_ok bs \<Rightarrow> [\<lparr>nb_buf = ssl_taken st i rd, nb_p = 0, nb_L = length (ssl_taken st i rd)\<rparr>] | _ \<Rightarrow> [])"

lemma ssl_queued_rest [simp]: "concat (map nb_rest (ssl_queued st i rd)) = ssl_taken st i rd"
  by (cases rd) (simp_all add: ssl_queued_def ssl_taken_def nb_rest_def min_def)

lemma sslniorelayread_calm:
  assumes "ssl_pair env st i p" "calm_read rd" "mode st i \<noteq> SSL_DO_WRITE"
  shows "\<exists>st'. sslniorelayread env st i rd ws = Inr (0, st', ws) \<and> ssl_pair env st' i p \<and> ssl_same st st' \<and>
    sslsent st' = sslsent st \<and> outbuf st' p = outbuf st p @ ssl_queued st i rd \<and> outbuf st' i = outbuf st i \<and>
    mode st' p = mode st p \<and> mode st' i = (if rd = SR_want then SSL_DO_READ else SSL_DO_OK) \<and> polling_kept st i p st'"
proof -
  have s: "ssl st i" "r_peer (relay (pl st) i) = Some p" "r_x1 (relay (pl st) i) \<noteq> r_L (relay (pl st) i)"
    using assms(1) by (auto simp: ssl_pair_def ssl_end_ok_def Let_def)
  have "mode st i = SSL_DO_OK \<or> mode st i = SSL_DO_READ" using assms(3) by (cases "mode st i") auto
  from ssl_reset [OF assms(1) this] obtain st1 where
    st1: "(if mode st i = SSL_DO_READ then ssl_events st i EPOLLIN else Inr st) = Inr st1"
      "ssl_flushed env st i p (set_mode st1 i SSL_DO_OK)" "outbuf st1 = outbuf st" "mode st1 = mode st" "sslsent st1 = sslsent st" by auto
  let ?s = "set_mode st1 i SSL_DO_OK"
  have f: "ssl_pair env ?s i p" "ssl_same st ?s" "polling_kept st i p ?s" using st1(2) by (simp_all add: ssl_flushed_def)
  have ip: "i \<noteq> p" using assms(1) by (simp add: ssl_pair_def)
  note unf = sslniorelayread_def st1(1)
  show ?thesis
  proof (cases rd)
    case (SR_ok bs)
    let ?b = "take (r_L (relay (pl st) i)) bs"
    let ?t = "(set_out ?s p (outbuf st p @ [\<lparr>nb_buf = ?b, nb_p = 0, nb_L = length ?b\<rparr>]))
        \<lparr>pl := upd_relay (pl st1) i (\<lambda>r. r\<lparr>r_x1 := 0, r_rbytes := r_rbytes r + int (length ?b), r_buf := replicate (r_L r) NUL\<rparr>)\<rparr>"
    have "alloc_ok env (length ?b)" using assms(1) by (auto simp: ssl_pair_def ssl_end_ok_def Let_def)
    then have r: "ssl_received env ?s i p ?b = Inr ?t" using st1(3) by (simp add: ssl_received_def)
    have "ssl_pair env ?t i p" using f(1) st1(3)
      by (auto simp: ssl_pair_def ssl_end_ok_def Let_def nb_ok_def)
    moreover have "ssl_same st ?t" using f(2) by (simp add: ssl_same_def)
    moreover have "polling_kept st i p ?t" using f(3) by (auto simp: polling_kept_def ssl_polled_def)
    moreover have "sslniorelayread env st i rd ws = Inr (0, ?t, ws)"
      unfolding unf using s assms(3) SR_ok r by (simp add: Let_def)
    ultimately show ?thesis using SR_ok st1(3-5) ip by (intro exI [of _ ?t]) (auto simp: ssl_queued_def ssl_taken_def)
  next
    case SR_want
    let ?t = "set_mode ?s i SSL_DO_READ"
    have "ssl_pair env ?t i p" "ssl_same st ?t" "polling_kept st i p ?t"
      using f by (auto simp: ssl_pair_def ssl_end_ok_def Let_def ssl_same_def polling_kept_def ssl_polled_def)
    with s assms(3) SR_want st1(3-5) ip show ?thesis
      unfolding unf by (intro exI [of _ ?t]) (auto simp: Let_def ssl_queued_def)
  next
    case (SR_ssl cc)
    with assms(2) have "cc = EAGAIN_code" by (simp add: calm_read_def)
    with s assms(3) SR_ssl st1(3-5) ip f show ?thesis
      unfolding unf by (intro exI [of _ ?s]) (auto simp: Let_def ssl_queued_def)
  qed (use assms(2) in \<open>simp add: calm_read_def\<close>)
qed

text \<open>Writes that take all of what they are given empty the queue.\<close>

definition enough :: "nat list \<Rightarrow> nio_buf list \<Rightarrow> bool" where
  "enough ns q \<longleftrightarrow> list_all2 (\<lambda>n b. length (nb_rest b) \<le> n) ns q"

lemma ssl_drain_all:
  "ssl_pair env st i p \<Longrightarrow> mode st i = SSL_DO_OK \<Longrightarrow> enough ns (outbuf st i) \<Longrightarrow>
   \<exists>st'. ssl_drain env st i p (map SW_ok ns @ ws) = Inr (0, st', ws) \<and> ssl_flushed env st i p st' \<and> outbuf st' i = [] \<and> mode st' i = SSL_DO_OK"
proof (induction ns arbitrary: st)
  case Nil
  then show ?case by (simp add: enough_def ssl_drain_simps ssl_flushed_refl)
next
  case (Cons n ns)
  then obtain b q where b: "outbuf st i = b # q" "length (nb_rest b) \<le> n" "enough ns q"
    by (auto simp: enough_def list_all2_Cons1)
  have ok: "nb_ok b" using Cons.prems(1) b(1) by (simp add: ssl_pair_def ssl_end_ok_def Let_def)
  then have m: "nb_p b + min n (nb_L b - nb_p b) = nb_L b" using b(2) by (auto simp: nb_ok_def nb_rest_def)
  note f = ssl_drain_count [OF Cons.prems(1,2) b(1), of n]
  let ?st = "set_out ((ssl_put st (r_s (relay (pl st) i)) (take n (nb_rest b)))
    \<lparr>pl := upd_relay (pl st) i (\<lambda>r. r\<lparr>r_wbytes := r_wbytes r + int (min n (nb_L b - nb_p b))\<rparr>)\<rparr>) i q"
  have f: "ssl_flushed env st i p ?st" using f m by simp
  then have "ssl_pair env ?st i p" "mode ?st i = SSL_DO_OK" "enough ns (outbuf ?st i)"
    using Cons.prems(2) b(3) by (auto simp: ssl_flushed_def)
  from Cons.IH [OF this] ssl_flushed_trans [OF f] m show ?case by (simp add: ssl_drain_simps(5) [OF b(1)]) blast
qed

lemma sslnioflush2peer_all:
  assumes "ssl_pair env st i p" "mode st i \<noteq> SSL_DO_READ" "enough ns (outbuf st i)"
  shows "\<exists>st'. sslnioflush2peer env st i (map SW_ok ns @ ws) = Inr (0, st', ws) \<and> ssl_flushed env st i p st' \<and>
    outbuf st' i = [] \<and> mode st' i = SSL_DO_OK"
proof -
  from sslnioflush2peer_drains [OF assms(1,2)] obtain st1 where
    st1: "\<forall>ws. sslnioflush2peer env st i ws = ssl_drain env st1 i p ws" "ssl_flushed env st i p st1" "mode st1 i = SSL_DO_OK"
      "outbuf st1 = outbuf st" by blast
  then have "ssl_pair env st1 i p" "enough ns (outbuf st1 i)" using assms(3) by (simp_all add: ssl_flushed_def)
  from ssl_drain_all [OF this(1) st1(3) this(2), of ws] ssl_flushed_trans [OF st1(2)] st1(1) show ?thesis by auto
qed

section \<open>Events\<close>

text \<open>What the daemon reads from relay \<open>j\<close> in one event.\<close>

type_synonym ssl_input = "nat \<times> 32 word \<times> ssl_io"

fun ssl_read_in :: "'h ssl_pyx \<Rightarrow> ssl_input \<Rightarrow> nat \<Rightarrow> char list" where
  "ssl_read_in st (i, ev, io) j =
     (if \<not> ssl st i then read_in (pl st) (i, ev, plain_io io) j
      else if j = i \<and> mode st i \<noteq> SSL_DO_WRITE then ssl_taken st i (ssl_rd io) else [])"

lemma poll_bits [simp]:
  "POLLIN AND POLLOUT = 0" "POLLOUT AND POLLIN = 0" "POLLIN \<noteq> 0" "POLLOUT \<noteq> 0"
  by (simp_all add: POLLIN_def POLLOUT_def)

lemma ssl_in_event: "ssl_relay_event env st i EPOLLIN io = sslrunrelays2 env st i POLLIN io"
  by (simp add: ssl_relay_event_def EPOLLIN_def EPOLLERR_def EPOLLHUP_def)

lemma ssl_out_event: "ssl st i \<Longrightarrow> ssl_relay_event env st i EPOLLOUT io = sslrunrelays2 env st i POLLOUT io"
  by (simp add: ssl_relay_event_def EPOLLIN_def EPOLLERR_def EPOLLHUP_def EPOLLOUT_def)

lemma ssl_write_event:
  assumes "ssl_pair env st i p" "mode st i = SSL_DO_WRITE" "epolled (pl st) (r_s (relay (pl st) i)) = Some ev" "calm_writes (ssl_ws io)"
  shows "\<exists>st'. ssl_relay_event env st i ev io = Inr st' \<and> ssl_flushed env st i p st'"
proof -
  from assms(1-3) have ev: "ev = EPOLLIN \<or> ev = EPOLLOUT" "ssl st i" by (auto simp: ssl_pair_def ssl_end_ok_def Let_def)
  from sslnioflush2peer_calm [OF assms(1,4)] assms(2) ev show ?thesis
    by (auto simp: ssl_in_event ssl_out_event sslrunrelays2_def)
qed

lemma ssl_read_event:
  assumes "ssl_pair env st i p" "mode st i \<noteq> SSL_DO_WRITE" "epolled (pl st) (r_s (relay (pl st) i)) = Some ev" "calm_read (ssl_rd io)"
  shows "\<exists>st1. ssl_pair env st1 i p \<and> ssl_same st st1 \<and> sslsent st1 = sslsent st \<and>
    outbuf st1 p = outbuf st p @ ssl_queued st i (ssl_rd io) \<and> outbuf st1 i = outbuf st i \<and> mode st1 p = mode st p \<and>
    mode st1 i = (if ssl_rd io = SR_want then SSL_DO_READ else SSL_DO_OK) \<and> polling_kept st i p st1 \<and>
    ssl_relay_event env st i ev io = rbind (sslnioflush2peer env st1 p (ssl_ws io)) (\<lambda>(_, st', _). Inr st')"
proof -
  from assms(1-3) have ev: "ev = EPOLLIN" "ssl st i" "0 \<le> r_s (relay (pl st) i)"
    by (auto simp: ssl_pair_def ssl_end_ok_def Let_def)
  from sslniorelayread_calm [OF assms(1,4,2), of "ssl_ws io"] obtain st1 where
    r: "sslniorelayread env st i (ssl_rd io) (ssl_ws io) = Inr (0, st1, ssl_ws io)" "ssl_pair env st1 i p" "ssl_same st st1"
      "sslsent st1 = sslsent st" "outbuf st1 p = outbuf st p @ ssl_queued st i (ssl_rd io)" "outbuf st1 i = outbuf st i"
      "mode st1 p = mode st p" "mode st1 i = (if ssl_rd io = SR_want then SSL_DO_READ else SSL_DO_OK)" "polling_kept st i p st1"
    by blast
  have "r_peer (relay (pl st1) i) = Some p" "r_status (relay (pl st1) p) = RELAY_ACTIVE"
    using r(2) by (auto simp: ssl_pair_def ssl_end_ok_def Let_def)
  then have "ssl_relay_event env st i ev io = rbind (sslnioflush2peer env st1 p (ssl_ws io)) (\<lambda>(_, st', _). Inr st')"
    using ev assms(2) r(1) by (cases "mode st i") (simp_all add: ssl_in_event sslrunrelays2_def sslniorelay_def)
  with r(2-9) show ?thesis by blast
qed

lemma ssl_pair_event:
  assumes "ssl_pair env st i p" "epolled (pl st) (r_s (relay (pl st) i)) = Some ev" "calm_read (ssl_rd io)" "calm_writes (ssl_ws io)"
  shows "\<exists>st'. ssl_relay_event env st i ev io = Inr st' \<and> ssl_pair env st' i p \<and> ssl_same st st' \<and>
    ssl_carries st i [] st' \<and> ssl_carries st p (ssl_read_in st (i, ev, io) i) st' \<and> polling_kept st i p st' \<and>
    (\<forall>s. s \<noteq> r_s (relay (pl st) i) \<longrightarrow> s \<noteq> r_s (relay (pl st) p) \<longrightarrow> sslsent st' s = sslsent st s)"
proof (cases "mode st i = SSL_DO_WRITE")
  case True
  have "ssl st i" using assms(1) by (simp add: ssl_pair_def ssl_end_ok_def Let_def)
  with ssl_write_event [OF assms(1) True assms(2,4)] True assms(1) show ?thesis
    by (auto simp: ssl_flushed_def ssl_carries_def ssl_pair_def out_pending_def)
next
  case False
  from ssl_read_event [OF assms(1) False assms(2,3)] obtain st1 where
    r: "ssl_pair env st1 i p" "ssl_same st st1" "sslsent st1 = sslsent st" "outbuf st1 p = outbuf st p @ ssl_queued st i (ssl_rd io)"
      "outbuf st1 i = outbuf st i" "polling_kept st i p st1"
    and e: "ssl_relay_event env st i ev io = rbind (sslnioflush2peer env st1 p (ssl_ws io)) (\<lambda>(_, st', _). Inr st')" by blast
  from sslnioflush2peer_calm [OF ssl_pair_sym [OF r(1)] assms(4)] obtain st' ws' where
    f: "sslnioflush2peer env st1 p (ssl_ws io) = Inr (0, st', ws')" "ssl_flushed env st1 p i st'" by blast
  have s: "r_s (relay (pl st1) j) = r_s (relay (pl st) j)" for j using r(2) by (simp add: ssl_same_def)
  have d: "r_s (relay (pl st) i) \<noteq> r_s (relay (pl st) p)" "ssl st i" using assms(1) by (simp_all add: ssl_pair_def ssl_end_ok_def Let_def)
  have "ssl_carries st i [] st'" "ssl_carries st p (ssl_taken st i (ssl_rd io)) st'"
    using f(2) r(3-5) d(1) by (auto simp: ssl_flushed_def ssl_carries_def s out_pending_def)
  moreover have "ssl_pair env st' i p" "ssl_same st st'"
    using f(2) ssl_same_trans [OF r(2)] ssl_pair_sym by (auto simp: ssl_flushed_def)
  moreover have "polling_kept st i p st'" using f(2) r(6) by (auto simp: ssl_flushed_def polling_kept_def)
  ultimately show ?thesis using e f d(2) False r(3) by (auto simp: ssl_flushed_def s)
qed

text \<open>A run of events, each of which is what \<open>epoll\<close> was asked to report in the state it comes in.\<close>

fun ssl_calm :: "'h relay_env \<Rightarrow> nat set \<Rightarrow> 'h ssl_pyx \<Rightarrow> ssl_input list \<Rightarrow> bool" where
  "ssl_calm env S st [] \<longleftrightarrow> True"
| "ssl_calm env S st ((i, ev, io) # es) \<longleftrightarrow>
     i \<in> S \<and> epolled (pl st) (r_s (relay (pl st) i)) = Some ev \<and> calm_read (ssl_rd io) \<and> calm_writes (ssl_ws io) \<and>
     (case ssl_relay_event env st i ev io of Inl _ \<Rightarrow> True | Inr st1 \<Rightarrow> ssl_calm env S st1 es)"

fun ssl_run :: "'h relay_env \<Rightarrow> 'h ssl_pyx \<Rightarrow> ssl_input list \<Rightarrow> ('h ssl_pyx \<times> (nat \<Rightarrow> char list)) res" where
  "ssl_run env st [] = Inr (st, \<lambda>_. [])"
| "ssl_run env st ((i, ev, io) # es) =
     rbind (ssl_relay_event env st i ev io) (\<lambda>st1.
     rbind (ssl_run env st1 es) (\<lambda>(st2, inp). Inr (st2, \<lambda>j. ssl_read_in st (i, ev, io) j @ inp j)))"

lemma ssl_pair_run:
  "ssl_pair env st a b \<Longrightarrow> ssl_calm env {a, b} st es \<Longrightarrow>
   \<exists>st' inp. ssl_run env st es = Inr (st', inp) \<and> ssl_pair env st' a b \<and> ssl_same st st' \<and>
     ssl_carries st b (inp a) st' \<and> ssl_carries st a (inp b) st' \<and> polling_kept st a b st' \<and>
     (\<forall>s. s \<noteq> r_s (relay (pl st) a) \<longrightarrow> s \<noteq> r_s (relay (pl st) b) \<longrightarrow> sslsent st' s = sslsent st s)"
proof (induction es arbitrary: st)
  case Nil
  then show ?case by (simp add: ssl_carries_def ssl_same_def polling_kept_basic(1))
next
  case (Cons e es)
  obtain i ev io where e: "e = (i, ev, io)" by (cases e)
  with Cons.prems(2) have c: "i \<in> {a, b}" "epolled (pl st) (r_s (relay (pl st) i)) = Some ev" "calm_read (ssl_rd io)" "calm_writes (ssl_ws io)"
    by auto
  have ab: "a \<noteq> b" using Cons.prems(1) by (simp add: ssl_pair_def)
  have "\<exists>st1. ssl_relay_event env st i ev io = Inr st1 \<and> ssl_pair env st1 a b \<and> ssl_same st st1 \<and>
    ssl_carries st b (ssl_read_in st e a) st1 \<and> ssl_carries st a (ssl_read_in st e b) st1 \<and> polling_kept st a b st1 \<and>
    (\<forall>s. s \<noteq> r_s (relay (pl st) a) \<longrightarrow> s \<noteq> r_s (relay (pl st) b) \<longrightarrow> sslsent st1 s = sslsent st s)"
  proof (cases "i = a")
    case True
    with ssl_pair_event [OF Cons.prems(1) _ c(3,4), of ev] c(2) ab e show ?thesis by auto
  next
    case False
    then have "i = b" using c(1) by simp
    with ssl_pair_event [OF ssl_pair_sym [OF Cons.prems(1)] _ c(3,4), of ev] c(2) ab e ssl_pair_sym polling_kept_basic(3) show ?thesis by fastforce
  qed
  then obtain st1 where st1: "ssl_relay_event env st i ev io = Inr st1" "ssl_pair env st1 a b" "ssl_same st st1"
    "ssl_carries st b (ssl_read_in st e a) st1" "ssl_carries st a (ssl_read_in st e b) st1"
    "\<forall>s. s \<noteq> r_s (relay (pl st) a) \<longrightarrow> s \<noteq> r_s (relay (pl st) b) \<longrightarrow> sslsent st1 s = sslsent st s" "polling_kept st a b st1" by blast
  have "ssl_calm env {a, b} st1 es" using Cons.prems(2) st1(1) e by simp
  from Cons.IH [OF st1(2) this] obtain st2 inp where
    st2: "ssl_run env st1 es = Inr (st2, inp)" "ssl_pair env st2 a b" "ssl_same st1 st2"
      "ssl_carries st1 b (inp a) st2" "ssl_carries st1 a (inp b) st2"
      "\<forall>s. s \<noteq> r_s (relay (pl st1) a) \<longrightarrow> s \<noteq> r_s (relay (pl st1) b) \<longrightarrow> sslsent st2 s = sslsent st1 s" "polling_kept st1 a b st2" by blast
  have "ssl_run env st (e # es) = Inr (st2, \<lambda>j. ssl_read_in st e j @ inp j)" using st1(1) st2(1) e by simp
  moreover have "r_s (relay (pl st1) j) = r_s (relay (pl st) j)" for j using st1(3) by (simp add: ssl_same_def)
  ultimately show ?case
    using st2 st1(6) polling_kept_basic(2) [OF st1(7) st2(7)] ssl_same_trans [OF st1(3) st2(3)] ssl_carries_trans [OF st1(4) st2(4) st1(3)] ssl_carries_trans [OF st1(5) st2(5) st1(3)]
    by (intro exI [of _ st2] exI [of _ "\<lambda>j. ssl_read_in st e j @ inp j"]) auto
qed

section \<open>Ending a session\<close>

lemma shut_active:
  assumes "0 \<le> r_s (relay p i)" "r_status (relay p i) = RELAY_ACTIVE" "i \<notin> set (relaycache p)"
  shows "\<exists>p'. nioshutrelay env p i = Inr p' \<and> relaycache p' = relaycache p @ [i] \<and> r_status (relay p' i) = RELAY_IDLE \<and>
    r_peer (relay p' i) = r_peer (relay p i) \<and> (\<forall>j. j \<noteq> i \<longrightarrow> relay p' j = relay p j)"
  using assms by (auto simp: nioshutrelay_def Let_def seq_enque_def)

lemma ssl_shut_active:
  assumes "0 \<le> r_s (relay (pl st) i)" "r_status (relay (pl st) i) = RELAY_ACTIVE" "i \<notin> set (relaycache (pl st))"
  shows "\<exists>st'. sslnioshutrelay env st i = Inr st' \<and> relaycache (pl st') = relaycache (pl st) @ [i] \<and>
    r_status (relay (pl st') i) = RELAY_IDLE \<and> r_peer (relay (pl st') i) = r_peer (relay (pl st) i) \<and>
    (\<forall>j. j \<noteq> i \<longrightarrow> relay (pl st') j = relay (pl st) j) \<and> sslsent st' = sslsent st \<and> outbuf st' = outbuf st \<and> \<not> ssl st' i \<and>
    mode st' = mode st"
  using shut_active [OF assms, of env] assms(1) by (auto simp: sslnioshutrelay_def)

lemma ssl_shut_pair_active:
  assumes "ssl_end_ok env st i p" "ssl_end_ok env st p i" "i \<noteq> p" "{i, p} \<inter> set (relaycache (pl st)) = {}"
  shows "\<exists>st'. ssl_shut_pair env st i = Inr st' \<and> sslsent st' = sslsent st \<and> outbuf st' = outbuf st \<and> mode st' = mode st \<and>
    r_status (relay (pl st') i) = RELAY_IDLE \<and> r_status (relay (pl st') p) = RELAY_IDLE \<and> r_peer (relay (pl st') i) = Some p"
proof -
  have s: "0 \<le> r_s (relay (pl st) i)" "r_status (relay (pl st) i) = RELAY_ACTIVE" "0 \<le> r_s (relay (pl st) p)"
    "r_status (relay (pl st) p) = RELAY_ACTIVE" "r_peer (relay (pl st) i) = Some p"
    using assms(1,2) by (simp_all add: ssl_end_ok_def Let_def)
  from ssl_shut_active [OF s(1,2)] assms(4) obtain st1 where
    a: "sslnioshutrelay env st i = Inr st1" "relaycache (pl st1) = relaycache (pl st) @ [i]" "r_status (relay (pl st1) i) = RELAY_IDLE"
      "r_peer (relay (pl st1) i) = Some p" "\<forall>j. j \<noteq> i \<longrightarrow> relay (pl st1) j = relay (pl st) j" "sslsent st1 = sslsent st" "outbuf st1 = outbuf st"
      "mode st1 = mode st"
    using s(5) by auto
  have "0 \<le> r_s (relay (pl st1) p)" "r_status (relay (pl st1) p) = RELAY_ACTIVE" "p \<notin> set (relaycache (pl st1))"
    using a(2,5) s(3,4) assms(3,4) by auto
  from ssl_shut_active [OF this] obtain st2 where
    "sslnioshutrelay env st1 p = Inr st2" "r_status (relay (pl st2) p) = RELAY_IDLE" "\<forall>j. j \<noteq> p \<longrightarrow> relay (pl st2) j = relay (pl st1) j"
      "sslsent st2 = sslsent st1" "outbuf st2 = outbuf st1" "mode st2 = mode st1" by blast
  with a assms(3) show ?thesis by (auto simp: ssl_shut_pair_def)
qed

lemma flush_out_all:
  "ssl st p \<Longrightarrow> enough ns q \<Longrightarrow>
   flush_out st i p q (map SW_ok ns @ ws) = Inr (set_out (ssl_put st (r_s (relay (pl st) p)) (concat (map nb_rest q))) i [], ws)"
proof (induction ns arbitrary: st q)
  case Nil
  then show ?case by (simp add: enough_def ssl_put_def set_out_def)
next
  case (Cons n ns)
  then obtain b q' where b: "q = b # q'" "length (nb_rest b) \<le> n" "enough ns q'"
    by (auto simp: enough_def list_all2_Cons1)
  with Cons.IH [of "ssl_put st (r_s (relay (pl st) p)) (nb_rest b)" q'] Cons.prems(1) show ?case
    by (simp add: ssl_put_def set_out_def)
qed

lemma ssl_end_all:
  assumes "ssl_pair env st i p" "{i, p} \<inter> set (relaycache (pl st)) = {}"
    and "enough ns (outbuf st i)" "enough ns2 (outbuf st p)"
  shows "\<exists>st'. ssl_end env st i p (map SW_ok ns @ map SW_ok ns2) = Inr (-1, st', []) \<and>
    sslsent st' (r_s (relay (pl st) p)) = sslsent st (r_s (relay (pl st) p)) @ out_pending st i \<and>
    sslsent st' (r_s (relay (pl st) i)) = sslsent st (r_s (relay (pl st) i)) @ out_pending st p \<and>
    r_status (relay (pl st') i) = RELAY_IDLE \<and> r_status (relay (pl st') p) = RELAY_IDLE \<and> r_peer (relay (pl st') i) = Some p"
proof -
  have e: "ssl st i" "ssl st p" "r_status (relay (pl st) i) = RELAY_ACTIVE" "r_status (relay (pl st) p) = RELAY_ACTIVE"
    "r_peer (relay (pl st) i) = Some p" "r_peer (relay (pl st) p) = Some i" "i \<noteq> p" "r_s (relay (pl st) i) \<noteq> r_s (relay (pl st) p)"
    using assms(1) by (auto simp: ssl_pair_def ssl_end_ok_def Let_def)
  let ?s1 = "set_out (ssl_put st (r_s (relay (pl st) p)) (out_pending st i)) i []"
  let ?s2 = "set_out (ssl_put ?s1 (r_s (relay (pl st) i)) (out_pending st p)) p []"
  have a: "sslnioflush st i (map SW_ok ns @ map SW_ok ns2) = Inr (?s1, map SW_ok ns2)"
    using e flush_out_all [OF e(2) assms(3), of i "map SW_ok ns2"] by (simp add: sslnioflush_def out_pending_def)
  have "ssl ?s1 i" "enough ns2 (outbuf ?s1 p)" using e assms(4) by simp_all
  from flush_out_all [OF this, of p "[]"] have b: "sslnioflush ?s1 p (map SW_ok ns2) = Inr (?s2, [])"
    using e by (simp add: sslnioflush_def out_pending_def)
  have "ssl_end_ok env ?s2 i p" "ssl_end_ok env ?s2 p i" using assms(1) by (auto simp: ssl_pair_def ssl_end_ok_def Let_def)
  from ssl_shut_pair_active [OF this e(7)] assms(2) obtain st' where
    c: "ssl_shut_pair env ?s2 i = Inr st'" "sslsent st' = sslsent ?s2" "r_status (relay (pl st') i) = RELAY_IDLE" "r_status (relay (pl st') p) = RELAY_IDLE"
      "r_peer (relay (pl st') i) = Some p" by auto
  have "ssl_end env st i p (map SW_ok ns @ map SW_ok ns2) = Inr (-1, st', [])" by (simp only: ssl_end_def a b c rbind_Inr prod.case)
  with c(2-5) e(8) show ?thesis by (intro exI [of _ st']) simp
qed

text \<open>
  What is done to give relays to new clients: \<open>niogetpeer\<close> and \<open>niostartrelay\<close>, with any changes of the control
  connections in between. None of it touches the queues.
\<close>

inductive ssl_setup :: "'h relay_env \<Rightarrow> 'h ssl_pyx \<Rightarrow> 'h ssl_pyx \<Rightarrow> bool" for env st0 where
  start: "ssl_setup env st0 st0"
| given: "ssl_setup env st0 st \<Longrightarrow> niogetpeer env (pl st) t = Inr (r, q) \<Longrightarrow> ssl_setup env st0 (st\<lparr>pl := q\<rparr>)"
| joined: "ssl_setup env st0 st \<Longrightarrow> controls_change env (pl st) q \<Longrightarrow>
    sslniostartrelay env (st\<lparr>pl := q, ctrl_ssl := f\<rparr>) c sid = Inr (r, st') \<Longrightarrow> ssl_setup env st0 st'"

lemma ssl_setup_keeps: "ssl_setup env st0 st \<Longrightarrow> outbuf st = outbuf st0 \<and> mode st = mode st0"
  by (induction rule: ssl_setup.induct) (auto simp: sslniostartrelay_def rbind_eq_Inr)

section \<open>A reader that waits\<close>

lemma ssl_stalled_event:
  assumes "ssl_pair env st a b" "mode st b = SSL_DO_READ" "i \<in> {a, b}" "epolled (pl st) (r_s (relay (pl st) i)) = Some ev"
    and "calm_read (ssl_rd io)" "calm_writes (ssl_ws io)" "i = b \<longrightarrow> ssl_rd io = SR_want"
  shows "\<exists>st'. ssl_relay_event env st i ev io = Inr st' \<and> ssl_pair env st' a b \<and> ssl_same st st' \<and> mode st' b = SSL_DO_READ \<and>
    sslsent st' (r_s (relay (pl st) b)) = sslsent st (r_s (relay (pl st) b)) \<and>
    out_pending st' b = out_pending st b @ ssl_read_in st (i, ev, io) a"
proof -
  have ba: "ssl_pair env st b a" "a \<noteq> b" "ssl st a" "ssl st b" "r_s (relay (pl st) a) \<noteq> r_s (relay (pl st) b)"
    using assms(1) ssl_pair_sym by (auto simp: ssl_pair_def ssl_end_ok_def Let_def)
  consider "i = b" | "i = a" "mode st a = SSL_DO_WRITE" | "i = a" "mode st a \<noteq> SSL_DO_WRITE" using assms(3) by blast
  then show ?thesis
  proof cases
    case 1
    have "mode st b \<noteq> SSL_DO_WRITE" using assms(2) by simp
    from ssl_read_event [OF ba(1) this _ assms(5), of ev] 1 assms(4,7) obtain st1 where
      r: "ssl_pair env st1 b a" "ssl_same st st1" "sslsent st1 = sslsent st" "outbuf st1 b = outbuf st b" "mode st1 b = SSL_DO_READ"
      and e: "ssl_relay_event env st i ev io = rbind (sslnioflush2peer env st1 a (ssl_ws io)) (\<lambda>(_, st', _). Inr st')" by auto
    from sslnioflush2peer_calm [OF ssl_pair_sym [OF r(1)] assms(6)] obtain st' ws' where
      f: "sslnioflush2peer env st1 a (ssl_ws io) = Inr (0, st', ws')" "ssl_flushed env st1 a b st'" by blast
    with e r ba ssl_same_trans [OF r(2)] 1 show ?thesis
      by (auto simp: ssl_flushed_def out_pending_def ssl_same_def)
  next
    case 2
    with ssl_write_event [OF assms(1) 2(2) _ assms(6)] assms(2,4) ba show ?thesis
      by (auto simp: ssl_flushed_def out_pending_def)
  next
    case 3
    from ssl_read_event [OF assms(1) 3(2) _ assms(5)] 3(1) assms(2,4) obtain st1 where
      r: "ssl_pair env st1 a b" "ssl_same st st1" "sslsent st1 = sslsent st" "mode st1 b = SSL_DO_READ"
        "outbuf st1 b = outbuf st b @ ssl_queued st a (ssl_rd io)"
      and e: "ssl_relay_event env st i ev io = rbind (sslnioflush2peer env st1 b (ssl_ws io)) (\<lambda>(_, st', _). Inr st')" by auto
    have "ssl st1 b" "r_peer (relay (pl st1) b) \<noteq> None" using r(1) by (simp_all add: ssl_pair_def ssl_end_ok_def Let_def)
    then have "sslnioflush2peer env st1 b (ssl_ws io) = Inr (0, st1, ssl_ws io)" using r(4) by (auto simp: sslnioflush2peer_def)
    with e r ba 3 show ?thesis by (auto simp: out_pending_def)
  qed
qed

lemma ssl_stalled_run:
  "ssl_pair env st a b \<Longrightarrow> mode st b = SSL_DO_READ \<Longrightarrow> ssl_calm env {a, b} st es \<Longrightarrow>
   \<forall>(i, ev, io) \<in> set es. i = b \<longrightarrow> ssl_rd io = SR_want \<Longrightarrow>
   \<exists>st' inp. ssl_run env st es = Inr (st', inp) \<and> mode st' b = SSL_DO_READ \<and>
     sslsent st' (r_s (relay (pl st) b)) = sslsent st (r_s (relay (pl st) b)) \<and> out_pending st' b = out_pending st b @ inp a"
proof (induction es arbitrary: st)
  case Nil
  then show ?case by simp
next
  case (Cons e es)
  obtain i ev io where e: "e = (i, ev, io)" by (cases e)
  with Cons.prems(3,4) have c: "i \<in> {a, b}" "epolled (pl st) (r_s (relay (pl st) i)) = Some ev" "calm_read (ssl_rd io)"
    "calm_writes (ssl_ws io)" "i = b \<longrightarrow> ssl_rd io = SR_want" by auto
  from ssl_stalled_event [OF Cons.prems(1,2) c] obtain st1 where
    st1: "ssl_relay_event env st i ev io = Inr st1" "ssl_pair env st1 a b" "ssl_same st st1" "mode st1 b = SSL_DO_READ"
      "sslsent st1 (r_s (relay (pl st) b)) = sslsent st (r_s (relay (pl st) b))" "out_pending st1 b = out_pending st b @ ssl_read_in st e a"
    using e by blast
  have "ssl_calm env {a, b} st1 es" "\<forall>(i, ev, io) \<in> set es. i = b \<longrightarrow> ssl_rd io = SR_want"
    using Cons.prems(3,4) st1(1) e by auto
  from Cons.IH [OF st1(2,4) this] obtain st2 inp where
    st2: "ssl_run env st1 es = Inr (st2, inp)" "mode st2 b = SSL_DO_READ"
      "sslsent st2 (r_s (relay (pl st1) b)) = sslsent st1 (r_s (relay (pl st1) b))" "out_pending st2 b = out_pending st1 b @ inp a" by blast
  moreover have "r_s (relay (pl st1) b) = r_s (relay (pl st) b)" using st1(3) by (simp add: ssl_same_def)
  ultimately show ?case using st1(1,5,6) e
    by (intro exI [of _ st2] exI [of _ "\<lambda>j. ssl_read_in st e j @ inp j"]) auto
qed

section \<open>A session of which only one side has SSL\<close>

definition mixed :: "'h relay_env \<Rightarrow> ('h \<Rightarrow> string \<Rightarrow> nat option) \<Rightarrow> 'h ssl_pyx \<Rightarrow> nat \<Rightarrow> nat \<Rightarrow> bool" where
  "mixed env tab st a b \<longleftrightarrow> pyx_ok env tab (pl st) \<and> paired env (pl st) a b \<and> armed (pl st) b a \<and> pending (relay (pl st) a) = [] \<and>
     ssl st a \<and> \<not> ssl st b \<and> mode st a = SSL_DO_OK \<and> 0 < relaybuf env \<and> (\<forall>n \<le> relaybuf env. alloc_ok env n)"

text \<open>Data from the SSL client, or any event of the other one that does not end the session.\<close>

fun mixed_input :: "nat \<Rightarrow> nat \<Rightarrow> ssl_input \<Rightarrow> bool" where
  "mixed_input a b (i, ev, io) \<longleftrightarrow>
     i = a \<and> ev = EPOLLIN \<and> (\<exists>bs. ssl_rd io = SR_ok bs) \<or> calm {b} (i, ev, plain_io io)"

lemma pending_nil:
  assumes "pyx_ok env tab st" "i < maxrelay env" "pending (relay st i) = []"
  shows "r_x1 (relay st i) = 0"
  using pyx_ok_relay(1,3) [OF assms(1,2)] assms(3) by (auto simp: pending_def relay_ok_def offsets_ok_def)

lemma mixed_ssl_data:
  assumes "mixed env tab st a b" "ssl_rd io = SR_ok bs"
  shows "\<exists>st'. ssl_relay_event env st a EPOLLIN io = Inr st' \<and> mixed env tab st' a b \<and> same_session (pl st) (pl st') \<and>
    sent (pl st') = sent (pl st) \<and> sslsent st' = sslsent st \<and> outbuf st' b = outbuf st b @ ssl_queued st a (ssl_rd io) \<and>
    relay (pl st') b = relay (pl st) b"
proof -
  have st: "pyx_ok env tab (pl st)" "paired env (pl st) a b" "armed (pl st) b a" "ssl st a" "\<not> ssl st b" "mode st a = SSL_DO_OK"
    "pending (relay (pl st) a) = []" "0 < relaybuf env" "\<forall>n \<le> relaybuf env. alloc_ok env n" using assms(1) by (auto simp: mixed_def)
  have a: "a < maxrelay env" "r_status (relay (pl st) a) = RELAY_ACTIVE" "r_status (relay (pl st) b) = RELAY_ACTIVE"
    "r_peer (relay (pl st) a) = Some b" "a \<noteq> b" using st(2) by (auto simp: paired_def active_def)
  note ra = pyx_ok_relay(1) [OF st(1) a(1)]
  have x: "r_x1 (relay (pl st) a) = 0" by (rule pending_nil [OF st(1) a(1) st(7)])
  have L: "r_L (relay (pl st) a) = relaybuf env" "0 \<le> r_s (relay (pl st) a)" using ra a(2) by (auto simp: relay_ok_def)
  let ?f = "\<lambda>r. r\<lparr>r_x1 := 0, r_rbytes := r_rbytes r + int (length (take (relaybuf env) bs)), r_buf := replicate (r_L r) NUL\<rparr>"
  let ?p = "upd_relay (pl st) a ?f"
  let ?s = "(set_out st b (outbuf st b @ ssl_queued st a (SR_ok bs)))\<lparr>pl := ?p\<rparr>"
  have "set_mode st a SSL_DO_OK = st" using st(6) by (simp add: set_mode_def fun_upd_idem)
  then have "sslniorelayread env st a (ssl_rd io) (ssl_ws io) = Inr (0, ?s, ssl_ws io)"
    using st(4,6,8,9) a(4) x L(1) assms(2) by (simp add: sslniorelayread_def ssl_received_def Let_def ssl_queued_def ssl_taken_def)
  moreover have "sslnioflush2peer env ?s b (ssl_ws io) = Inr (-1, ?s, ssl_ws io)" using st(5) by (simp add: sslnioflush2peer_def)
  ultimately have e: "ssl_relay_event env st a EPOLLIN io = Inr ?s"
    using st(4,6) a L(2) by (simp add: ssl_in_event sslrunrelays2_def sslniorelay_def)
  have off: "offsets_ok (relay (pl st) a)" using pyx_ok_relay(3) [OF st(1) a(1)] by simp
  have "pyx_ok env tab ?p" using st(1) a(1,2) ra off x
    by (intro upd_buffer_ok [where S = "{}"]) (auto simp: relay_ok_def offsets_ok_def)
  moreover have "pending (relay ?p a) = []" by (simp add: pending_def)
  moreover have "same_session (pl st) ?p" by (simp add: same_session_def)
  moreover have "armed ?p b a" using st(3) a(5) by (simp add: armed_def)
  ultimately have "mixed env tab ?s a b" using st a(5) same_session_paired by (auto simp: mixed_def)
  with e a(5) \<open>same_session (pl st) ?p\<close> assms(2) show ?thesis by (intro exI [of _ ?s]) simp
qed

lemma ssl_plain_event:
  assumes "\<not> ssl st i" "ev AND EPOLLERR = 0" "ev AND EPOLLHUP = 0"
  shows "ssl_relay_event env st i ev io = plain_step st (relay_event env (pl st) i ev (plain_io io))"
  using assms by (auto simp: ssl_relay_event_def relay_event_def sslrunrelays2_def plain_step_def rbind_def split: sum.splits)

lemma mixed_plain_event:
  assumes "mixed env tab st a b" "calm {b} (b, ev, plain_io io)"
  shows "\<exists>st'. ssl_relay_event env st b ev io = Inr st' \<and> mixed env tab st' a b \<and> same_session (pl st) (pl st') \<and>
    carries (pl st) b a (read_in (pl st) (b, ev, plain_io io) b) (pl st') \<and> sent (pl st') (r_s (relay (pl st) b)) = sent (pl st) (r_s (relay (pl st) b)) \<and>
    sslsent st' = sslsent st \<and> outbuf st' = outbuf st"
proof -
  have st: "pyx_ok env tab (pl st)" "paired env (pl st) b a" "armed (pl st) b a" "armed (pl st) a b" "\<not> ssl st b"
    "pending (relay (pl st) a) = []" using assms(1) by (auto simp: mixed_def paired_def armed_def)
  have "calm {b, a} (b, ev, plain_io io)" using assms(2) by simp
  from pair_event [OF st(1,2) this] obtain p where
    p: "relay_event env (pl st) b ev (plain_io io) = Inr p" "pyx_ok env tab p" "same_session (pl st) p"
      "carries (pl st) b a (read_in (pl st) (b, ev, plain_io io) b) p" "carries (pl st) a b [] p" "armed p b a" "pending (relay p a) = []"
    using st(3,6) by blast
  have s: "r_s (relay p j) = r_s (relay (pl st) j)" for j using p(3) by (simp add: same_session_def)
  have "ev AND EPOLLERR = 0" "ev AND EPOLLHUP = 0" using assms(2) by auto
  from ssl_plain_event [OF st(5) this] p(1) have e: "ssl_relay_event env st b ev io = Inr (st\<lparr>pl := p, ssl := ssl st\<rparr>)"
    by (auto simp: plain_step_def s)
  have "sent p (r_s (relay (pl st) b)) = sent (pl st) (r_s (relay (pl st) b))" using p(5,7) st(6) by (simp add: carries_def s)
  moreover have "mixed env tab (st\<lparr>pl := p, ssl := ssl st\<rparr>) a b"
    using assms(1) p(2,6,7) same_session_paired [OF p(3)] by (simp add: mixed_def)
  ultimately show ?thesis using e p(3,4) by (intro exI [of _ "st\<lparr>pl := p, ssl := ssl st\<rparr>"]) simp
qed

lemma mixed_run:
  "mixed env tab st a b \<Longrightarrow> \<forall>e \<in> set es. mixed_input a b e \<Longrightarrow>
   \<exists>st' inp. ssl_run env st es = Inr (st', inp) \<and> mixed env tab st' a b \<and> same_session (pl st) (pl st') \<and> sslsent st' = sslsent st \<and>
     out_pending st' b = out_pending st b @ inp a \<and> carries (pl st) b a (inp b) (pl st') \<and>
     sent (pl st') (r_s (relay (pl st) b)) = sent (pl st) (r_s (relay (pl st) b))"
proof (induction es arbitrary: st)
  case Nil
  then show ?case by (simp add: carries_def)
next
  case (Cons e es)
  obtain i ev io where e: "e = (i, ev, io)" by (cases e)
  have st: "ssl st a" "\<not> ssl st b" "mode st a = SSL_DO_OK" "a \<noteq> b" using Cons.prems(1) by (auto simp: mixed_def paired_def)
  have "\<exists>st1. ssl_relay_event env st i ev io = Inr st1 \<and> mixed env tab st1 a b \<and> same_session (pl st) (pl st1) \<and> sslsent st1 = sslsent st \<and>
    out_pending st1 b = out_pending st b @ ssl_read_in st e a \<and> carries (pl st) b a (ssl_read_in st e b) (pl st1) \<and>
    sent (pl st1) (r_s (relay (pl st) b)) = sent (pl st) (r_s (relay (pl st) b))"
  proof (cases "calm {b} (i, ev, plain_io io)")
    case True
    then have i: "i = b" by simp
    with mixed_plain_event [OF Cons.prems(1), of ev io] True e st show ?thesis by (auto simp: out_pending_def)
  next
    case False
    then obtain bs where d: "i = a" "ev = EPOLLIN" "ssl_rd io = SR_ok bs" using Cons.prems(2) e by auto
    from mixed_ssl_data [OF Cons.prems(1) d(3)] d e st show ?thesis
      by (auto simp: out_pending_def carries_def same_session_def mixed_def)
  qed
  then obtain st1 where st1: "ssl_relay_event env st i ev io = Inr st1" "mixed env tab st1 a b" "same_session (pl st) (pl st1)"
    "sslsent st1 = sslsent st" "out_pending st1 b = out_pending st b @ ssl_read_in st e a" "carries (pl st) b a (ssl_read_in st e b) (pl st1)"
    "sent (pl st1) (r_s (relay (pl st) b)) = sent (pl st) (r_s (relay (pl st) b))" by blast
  have "\<forall>e \<in> set es. mixed_input a b e" using Cons.prems(2) by simp
  from Cons.IH [OF st1(2) this] obtain st2 inp where
    st2: "ssl_run env st1 es = Inr (st2, inp)" "mixed env tab st2 a b" "same_session (pl st1) (pl st2)" "sslsent st2 = sslsent st1"
      "out_pending st2 b = out_pending st1 b @ inp a" "carries (pl st1) b a (inp b) (pl st2)"
      "sent (pl st2) (r_s (relay (pl st1) b)) = sent (pl st1) (r_s (relay (pl st1) b))" by blast
  have "r_s (relay (pl st1) j) = r_s (relay (pl st) j)" for j using st1(3) by (simp add: same_session_def)
  then show ?case using st1 st2 e same_session_trans [OF st1(3) st2(3)] carries_trans [OF st1(6) st2(6)]
    by (intro exI [of _ st2] exI [of _ "\<lambda>j. ssl_read_in st e j @ inp j"]) auto
qed

section \<open>Example states\<close>

text \<open>Clients with SSL connect to the pair of relays that was given out in \<open>demo_given\<close>.\<close>

definition ssl_after :: "'h ssl_pyx res \<Rightarrow> 'h ssl_pyx" where
  "ssl_after r = (case r of Inr st \<Rightarrow> st)"

definition ssl_client :: "'h relay_env \<Rightarrow> 'h ssl_pyx \<Rightarrow> nat \<Rightarrow> int \<Rightarrow> bool \<Rightarrow> int \<Rightarrow> 'h ssl_pyx res" where
  "ssl_client env st c s secure sid =
     rbind (sslniostartrelay env (st\<lparr>pl := connect (pl st) c s, ctrl_ssl := (ctrl_ssl st)(c := secure)\<rparr>) c sid) (\<lambda>(_, st1). Inr st1)"

definition ssl_demo_io :: "ssl_rd \<Rightarrow> ssl_wr list \<Rightarrow> ssl_io" where
  "ssl_demo_io rd ws = \<lparr>plain_io = demo_io ''hi'', ssl_rd = rd, ssl_ws = ws\<rparr>"

definition ssl_demo_one :: "(string \<times> nat) list ssl_pyx" where
  "ssl_demo_one = ssl_after (ssl_client demo_relay_env ((sslnioinit demo_relay_env)\<lparr>pl := demo_given\<rparr>) 0 10 True 0)"

definition ssl_demo_pair :: "(string \<times> nat) list ssl_pyx" where
  "ssl_demo_pair = ssl_after (ssl_client demo_relay_env ssl_demo_one 1 11 True 1)"

text \<open>The second client's SSL connection has taken two bytes of three; the first one's has refused two; the second one's
  waits for the rest of a record.\<close>

definition ssl_demo_busy :: "(string \<times> nat) list ssl_pyx" where
  "ssl_demo_busy = ssl_after (ssl_turn demo_relay_env ssl_demo_pair [(0, EPOLLIN, ssl_demo_io (SR_ok ''key'') [SW_ok 2, SW_want])])"

definition ssl_demo_kept :: "(string \<times> nat) list ssl_pyx" where
  "ssl_demo_kept = ssl_after (ssl_turn demo_relay_env ssl_demo_pair [(1, EPOLLIN, ssl_demo_io (SR_ok ''re'') [SW_ssl])])"

definition ssl_demo_partial :: "(string \<times> nat) list ssl_pyx" where
  "ssl_demo_partial = ssl_after (ssl_turn demo_relay_env ssl_demo_pair [(1, EPOLLIN, ssl_demo_io SR_want [])])"

text \<open>The first client sends two bytes and leaves; then the second one comes.\<close>

definition ssl_demo_late :: "(string \<times> nat) list ssl_pyx" where
  "ssl_demo_late = ssl_after (rbind (ssl_turn demo_relay_env ssl_demo_one
     [(0, EPOLLIN, ssl_demo_io (SR_ok ''hi'') []), (0, EPOLLIN, ssl_demo_io SR_fail [])])
     (\<lambda>st. ssl_client demo_relay_env st 1 11 True 1))"

text \<open>
  The second client of the busy session hangs up. A new pair is given out, which has its relay again: the new
  clients are on sockets 12 and 13.
\<close>

definition ssl_demo_ended :: "(string \<times> nat) list ssl_pyx" where
  "ssl_demo_ended = ssl_after (ssl_relay_event demo_relay_env ssl_demo_busy 1 EPOLLHUP (ssl_demo_io SR_want []))"

definition ssl_get_peer :: "'h relay_env \<Rightarrow> 'h ssl_pyx \<Rightarrow> 'h ssl_pyx" where
  "ssl_get_peer env st = st\<lparr>pl := after (relay_exec env (pl st) (Get_peer 5))\<rparr>"

definition ssl_demo_given :: "(string \<times> nat) list ssl_pyx" where
  "ssl_demo_given = ssl_get_peer demo_relay_env ssl_demo_ended"

definition ssl_demo_first :: "(string \<times> nat) list ssl_pyx" where
  "ssl_demo_first = ssl_after (ssl_client demo_relay_env ssl_demo_given 2 12 True 2)"

definition ssl_demo_new :: "(string \<times> nat) list ssl_pyx" where
  "ssl_demo_new = ssl_after (ssl_client demo_relay_env ssl_demo_first 3 13 True 1)"

text \<open>The second client comes without SSL.\<close>

definition ssl_demo_mixed :: "(string \<times> nat) list ssl_pyx" where
  "ssl_demo_mixed = ssl_after (ssl_client demo_relay_env ssl_demo_one 1 11 False 1)"

text \<open>The invariant of a session, in a form that is evaluated.\<close>

definition ssl_end_check :: "'h ssl_pyx \<Rightarrow> nat \<Rightarrow> nat \<Rightarrow> bool" where
  "ssl_end_check st i p \<longleftrightarrow>
     (let r = relay (pl st) i in
      r_status r = RELAY_ACTIVE \<and> ssl st i \<and> 0 \<le> r_s r \<and> r_ev r \<noteq> None \<and> r_peer r = Some p \<and> r_x1 r = 0 \<and> r_L r = 4 \<and>
      (epolled (pl st) (r_s r) = Some EPOLLIN \<or> epolled (pl st) (r_s r) = Some EPOLLOUT \<and> mode st i = SSL_DO_WRITE) \<and>
      list_all nb_ok (outbuf st i))"

lemma ssl_demo_check:
  assumes "ssl_end_check st a b \<and> ssl_end_check st b a \<and> a < 3 \<and> b < 3 \<and> r_s (relay (pl st) a) \<noteq> r_s (relay (pl st) b)"
  shows "ssl_pair demo_relay_env st a b"
proof -
  have "alloc_ok demo_relay_env n" if "n \<le> 4" for n using that by (simp add: demo_relay_env_def)
  moreover have "maxrelay demo_relay_env = 3" by (simp add: demo_relay_env_def)
  ultimately show ?thesis using assms
    by (auto simp: ssl_pair_def ssl_end_ok_def ssl_end_check_def Let_def list_all_iff split: if_splits)
qed

lemma ssl_demo_pairs:
  "ssl_pair demo_relay_env ssl_demo_pair 0 1" "ssl_pair demo_relay_env ssl_demo_busy 0 1"
  "ssl_pair demo_relay_env ssl_demo_kept 0 1" "ssl_pair demo_relay_env ssl_demo_partial 0 1"
  "ssl_pair demo_relay_env ssl_demo_new 2 1"
  by (rule ssl_demo_check, code_simp)+

text \<open>Without its SSL part a state after a client has come is the one of the relays without SSL.\<close>

lemma ssl_client_reach:
  assumes "relay_reach demo_relay_env (pl st)" "free_socket (pl st) s" "0 \<le> s"
  shows "relay_reach demo_relay_env (pl (ssl_after (ssl_client demo_relay_env st c s secure sid)))"
proof -
  note r = connect_demo(1) [OF assms, of c] connect_demo(2) [OF assms, of c sid]
  from relay_exec_ok [OF demo_relay_env_ok relay_reach_ok [OF r(1) demo_relay_env_ok] r(2)] obtain p where
    p: "relay_exec demo_relay_env (connect (pl st) c s) (Start_relay c sid) = Inr p" by blast
  have "relay_reach demo_relay_env (after (relay_exec demo_relay_env (connect (pl st) c s) (Start_relay c sid)))"
    using r by (rule after_demo)
  with p have "relay_reach demo_relay_env p" by (simp add: after_def)
  moreover have "pl (ssl_after (ssl_client demo_relay_env st c s secure sid)) = p"
    using p by (auto simp: ssl_client_def sslniostartrelay_def ssl_after_def rbind_eq_Inr)
  ultimately show ?thesis by simp
qed

lemma ssl_demo_mixed_ok: "mixed demo_relay_env map_of ssl_demo_mixed 0 1"
proof -
  have f: "free_socket demo_given 10" "free_socket (pl ssl_demo_one) 11" by code_simp+
  have "relay_reach demo_relay_env (pl ssl_demo_one)"
    unfolding ssl_demo_one_def by (rule ssl_client_reach) (simp_all add: demo_given_reach f(1))
  then have "relay_reach demo_relay_env (pl ssl_demo_mixed)"
    unfolding ssl_demo_mixed_def by (rule ssl_client_reach) (simp_all add: f(2))
  moreover have "paired demo_relay_env (pl ssl_demo_mixed) 0 1" unfolding paired_def active_def by (intro conjI; code_simp)
  moreover have "pending (relay (pl ssl_demo_mixed) 1) = []" by code_simp
  moreover have "pending (relay (pl ssl_demo_mixed) 0) = []" "ssl ssl_demo_mixed 0" "\<not> ssl ssl_demo_mixed 1" "mode ssl_demo_mixed 0 = SSL_DO_OK"
    "relaybuf demo_relay_env = 4" by code_simp+
  moreover have "\<forall>n \<le> 4. alloc_ok demo_relay_env n" by (simp add: demo_relay_env_def)
  ultimately show ?thesis using relay_reach_ok [OF _ demo_relay_env_ok] by (simp add: mixed_def armed_def)
qed

text \<open>The steps from the end of the first session to the start of the second.\<close>

definition succeeds :: "'a res \<Rightarrow> bool" where
  "succeeds r \<longleftrightarrow> (case r of Inl _ \<Rightarrow> False | Inr _ \<Rightarrow> True)"

lemma succeedsE: "succeeds r \<Longrightarrow> (\<And>x. r = Inr x \<Longrightarrow> P) \<Longrightarrow> P"
  by (auto simp: succeeds_def split: sum.splits)

lemma ssl_setup_given:
  assumes "ssl_setup env st0 st" "succeeds (niogetpeer env (pl st) 5)"
  shows "ssl_setup env st0 (ssl_get_peer env st)"
proof -
  from assms(2) obtain r q where "niogetpeer env (pl st) 5 = Inr (r, q)" by (auto elim!: succeedsE)
  with ssl_setup.given [OF assms(1) this] show ?thesis by (simp add: ssl_get_peer_def after_def)
qed

lemma ssl_setup_joined:
  assumes "ssl_setup demo_relay_env st0 st" "free_socket (pl st) s" "succeeds (ssl_client demo_relay_env st c s secure sid)"
  shows "ssl_setup demo_relay_env st0 (ssl_after (ssl_client demo_relay_env st c s secure sid))"
proof -
  let ?st = "st\<lparr>pl := connect (pl st) c s, ctrl_ssl := (ctrl_ssl st)(c := secure)\<rparr>"
  from assms(3) obtain r st1 where r: "sslniostartrelay demo_relay_env ?st c sid = Inr (r, st1)"
    by (auto elim!: succeedsE simp: ssl_client_def rbind_eq_Inr)
  have "\<forall>i. active demo_relay_env (relay (pl st)) i \<longrightarrow> r_s (relay (pl st) i) \<noteq> s"
    unfolding all_active_demo using assms(2) by (simp add: free_socket_def)
  from ssl_setup.joined [OF assms(1) connect_change [OF this] r] show ?thesis by (simp add: ssl_client_def r ssl_after_def)
qed

lemma ssl_demo_setup: "ssl_setup demo_relay_env ssl_demo_ended ssl_demo_new"
proof -
  have "succeeds (niogetpeer demo_relay_env (pl ssl_demo_ended) 5)" by code_simp
  then have g: "ssl_setup demo_relay_env ssl_demo_ended ssl_demo_given"
    unfolding ssl_demo_given_def by (intro ssl_setup_given ssl_setup.start)
  have "free_socket (pl ssl_demo_given) 12" "succeeds (ssl_client demo_relay_env ssl_demo_given 2 12 True 2)" by code_simp+
  then have f: "ssl_setup demo_relay_env ssl_demo_ended ssl_demo_first" unfolding ssl_demo_first_def by (rule ssl_setup_joined [OF g])
  have "free_socket (pl ssl_demo_first) 13" "succeeds (ssl_client demo_relay_env ssl_demo_first 3 13 True 1)" by code_simp+
  then show ?thesis unfolding ssl_demo_new_def by (rule ssl_setup_joined [OF f])
qed

section \<open>Properties\<close>

text \<open>C4. The core of the relay over SSL: in a session of two SSL relays, over any run in which each event is
  what epoll asks for in the state it is handled in (so one event of a relay at a time: two reported in one
  turn may abort), no side closes or fails and memory can be allocated, the SSL connection of each client gets
  exactly what the daemon read from the other, in order: what it has taken, followed by what is queued for it,
  is what there was before followed by what was read. The session may be a new one whose relays still have
  the mode and the queue of an earlier session; what is queued from there is sent first. If at the start a relay
  is polled for writing exactly when a write is to be repeated, so it is at the end; and when a write is to be repeated,
  the next event, at which every write takes all it is given, delivers the whole queue. Nothing is written to any
  socket in clear and no other session gets anything.\<close>

theorem ssl_duplex:
  assumes "ssl_pair env st a b" "ssl_calm env {a, b} st es"
  shows "\<exists>st' inp. ssl_run env st es = Inr (st', inp) \<and> ssl_pair env st' a b \<and>
    (\<forall>(x, y) \<in> {(a, b), (b, a)}.
       sslsent st' (r_s (relay (pl st) y)) @ out_pending st' y = sslsent st (r_s (relay (pl st) y)) @ out_pending st y @ inp x \<and>
       (ssl_polled st y \<longrightarrow> ssl_polled st' y) \<and>
       (mode st' y = SSL_DO_WRITE \<longrightarrow> (\<forall>io ns. \<forall>ev \<in> {EPOLLIN, EPOLLOUT}. ssl_ws io = map SW_ok ns \<longrightarrow> enough ns (outbuf st' y) \<longrightarrow>
          (\<exists>st2. ssl_relay_event env st' y ev io = Inr st2 \<and> outbuf st2 y = [] \<and>
             sslsent st2 (r_s (relay (pl st) y)) = sslsent st (r_s (relay (pl st) y)) @ out_pending st y @ inp x)))) \<and>
    sent (pl st') = sent (pl st) \<and>
    (\<forall>s. s \<noteq> r_s (relay (pl st) a) \<longrightarrow> s \<noteq> r_s (relay (pl st) b) \<longrightarrow> sslsent st' s = sslsent st s)"
proof -
  from ssl_pair_run [OF assms] obtain st' inp where
    r: "ssl_run env st es = Inr (st', inp)" "ssl_pair env st' a b" "ssl_same st st'" "ssl_carries st b (inp a) st'" "ssl_carries st a (inp b) st'"
      "\<forall>s. s \<noteq> r_s (relay (pl st) a) \<longrightarrow> s \<noteq> r_s (relay (pl st) b) \<longrightarrow> sslsent st' s = sslsent st s" "polling_kept st a b st'" by blast
  have s: "r_s (relay (pl st') j) = r_s (relay (pl st) j)" for j using r(3) by (simp add: ssl_same_def)
  have dir: "\<exists>st2. ssl_relay_event env st' y ev io = Inr st2 \<and> outbuf st2 y = [] \<and>
      sslsent st2 (r_s (relay (pl st) y)) = sslsent st (r_s (relay (pl st) y)) @ out_pending st y @ new"
    if p: "ssl_pair env st' y x" and c: "ssl_carries st y new st'" and m: "mode st' y = SSL_DO_WRITE"
      and n: "enough ns (outbuf st' y)" and w: "ssl_ws io = map SW_ok ns" and ev: "ev \<in> {EPOLLIN, EPOLLOUT}" for x y new ns io ev
  proof -
    from sslnioflush2peer_all [OF p _ n, of "[]"] m obtain st2 where
      f: "sslnioflush2peer env st' y (map SW_ok ns) = Inr (0, st2, [])" "ssl_flushed env st' y x st2" "outbuf st2 y = []" by auto
    have "ssl st' y" using p by (simp add: ssl_pair_def ssl_end_ok_def Let_def)
    then have "ssl_relay_event env st' y ev io = Inr st2" using f(1) m w ev by (auto simp: ssl_in_event ssl_out_event sslrunrelays2_def)
    with f(2,3) c show ?thesis by (auto simp: ssl_flushed_def ssl_carries_def out_pending_def s)
  qed
  have "sent (pl st') = sent (pl st)" using r(3) by (simp add: ssl_same_def)
  moreover note c = r(4,5) [unfolded ssl_carries_def] and k = r(7) [unfolded polling_kept_def]
  ultimately show ?thesis using r(1,2,6) dir [OF ssl_pair_sym [OF r(2)] r(4)] dir [OF r(2,5)]
    by (intro exI [of _ st'] exI [of _ inp]) blast
qed

text \<open>C26. Two ordinary events of one session in one turn abort the daemon: when data comes from one client
  while a write to the other is to be repeated and its socket, polled for this, can be written to again, the first event
  writes everything that was waiting (if SSL_write takes it all), so nothing is to be repeated, and the second event finds a relay that was reported writable without such a need: runrelays2 calls
  abort.\<close>

theorem ssl_two_events_abort:
  assumes "ssl_pair env st a b" "mode st a \<noteq> SSL_DO_WRITE" "mode st b = SSL_DO_WRITE" "ssl_polled st b"
    and "calm_read (ssl_rd io)" "ssl_ws io = map SW_ok ns" "enough ns (outbuf st b @ ssl_queued st a (ssl_rd io))"
  shows "epolled (pl st) (r_s (relay (pl st) a)) = Some EPOLLIN \<and> epolled (pl st) (r_s (relay (pl st) b)) = Some EPOLLOUT \<and>
    ssl_turn env st [(a, EPOLLIN, io), (b, EPOLLOUT, io2)] = Inl Assert_fail"
proof -
  from sslniorelayread_calm [OF assms(1,5,2), of "ssl_ws io"] obtain st1 where
    r: "sslniorelayread env st a (ssl_rd io) (ssl_ws io) = Inr (0, st1, ssl_ws io)" "ssl_pair env st1 a b"
      "outbuf st1 b = outbuf st b @ ssl_queued st a (ssl_rd io)" "mode st1 b = mode st b" by blast
  have p: "r_peer (relay (pl st1) a) = Some b" "r_status (relay (pl st1) b) = RELAY_ACTIVE" "ssl st a" "0 \<le> r_s (relay (pl st) a)"
    using r(2) assms(1) by (auto simp: ssl_pair_def ssl_end_ok_def Let_def)
  from sslnioflush2peer_all [OF ssl_pair_sym [OF r(2)], of ns "[]"] assms(3,7) r(3,4) obtain st2 where
    f: "sslnioflush2peer env st1 b (map SW_ok ns) = Inr (0, st2, [])" "ssl_flushed env st1 b a st2" "mode st2 b = SSL_DO_OK" by auto
  have "ssl_relay_event env st a EPOLLIN io = Inr st2"
    using p r(1) f(1) assms(2,6) by (cases "mode st a") (simp_all add: ssl_in_event sslrunrelays2_def sslniorelay_def)
  moreover have "ssl st2 b" using f(2) by (simp add: ssl_flushed_def ssl_pair_def ssl_end_ok_def Let_def)
  ultimately have "ssl_turn env st [(a, EPOLLIN, io), (b, EPOLLOUT, io2)] = Inl Assert_fail"
    using f(3) by (simp add: ssl_out_event sslrunrelays2_def)
  then show ?thesis using assms(1-4) by (auto simp: ssl_pair_def ssl_end_ok_def Let_def ssl_polled_def)
qed

text \<open>C25. What was meant for a client goes back to the one who sent it: when in a session of two SSL relays SSL_read
  fails on relay a, while a has nothing to repeat and SSL_write takes all it is given, the data still queued for a's
  client, all of which came from the client of b, is written to the client of b, and the data queued for the client
  of b is written to the client that is leaving (sslnioflush writes the queue of a relay to its peer, but the queue
  holds what is to be written to the relay itself).\<close>

theorem ssl_close_reflects:
  assumes "ssl_pair env st a b" "{a, b} \<inter> set (relaycache (pl st)) = {}" "mode st a = SSL_DO_OK"
    and "ssl_rd io = SR_fail" "ssl_ws io = map SW_ok ns @ map SW_ok ns2" "enough ns (outbuf st a)" "enough ns2 (outbuf st b)"
  shows "\<exists>st'. ssl_relay_event env st a EPOLLIN io = Inr st' \<and>
    sslsent st' (r_s (relay (pl st) b)) = sslsent st (r_s (relay (pl st) b)) @ out_pending st a \<and>
    sslsent st' (r_s (relay (pl st) a)) = sslsent st (r_s (relay (pl st) a)) @ out_pending st b \<and>
    r_status (relay (pl st') a) = RELAY_IDLE \<and> r_status (relay (pl st') b) = RELAY_IDLE"
proof -
  from ssl_end_all [OF assms(1,2,6,7)] obtain st' where
    e: "ssl_end env st a b (ssl_ws io) = Inr (-1, st', [])"
      "sslsent st' (r_s (relay (pl st) b)) = sslsent st (r_s (relay (pl st) b)) @ out_pending st a"
      "sslsent st' (r_s (relay (pl st) a)) = sslsent st (r_s (relay (pl st) a)) @ out_pending st b"
      "r_status (relay (pl st') a) = RELAY_IDLE" "r_status (relay (pl st') b) = RELAY_IDLE" "r_peer (relay (pl st') a) = Some b"
    using assms(5) by auto
  have p: "ssl st a" "r_peer (relay (pl st) a) = Some b" "r_x1 (relay (pl st) a) \<noteq> r_L (relay (pl st) a)" "0 \<le> r_s (relay (pl st) a)"
    using assms(1) by (auto simp: ssl_pair_def ssl_end_ok_def Let_def)
  have "set_mode st a SSL_DO_OK = st" using assms(3) by (simp add: set_mode_def fun_upd_idem)
  then have "sslniorelayread env st a SR_fail (ssl_ws io) = Inr (-1, st', [])"
    using p assms(3) e(1) by (simp add: sslniorelayread_def Let_def)
  then have "ssl_relay_event env st a EPOLLIN io = Inr st'"
    using p assms(3,4) e(5,6) by (simp add: ssl_in_event sslrunrelays2_def sslniorelay_def)
  with e show ?thesis by blast
qed

text \<open>C24. Data of an ended session goes to a stranger: when a client of a session of two SSL relays hangs up while data
  is queued for relay b, both relays are released, but b keeps the queue. Whatever relays are given out and
  started afterwards, once b serves a client in a new session of two SSL relays, the first data that its new peer
  sends is written to this client behind the old data (if its SSL connection takes it all).\<close>

theorem ssl_old_data_leaks:
  assumes "ssl_pair env st a b" "{a, b} \<inter> set (relaycache (pl st)) = {}" "mode st b \<noteq> SSL_DO_READ"
    and "i \<in> {a, b}" "ev AND EPOLLHUP \<noteq> 0"
  shows "\<exists>st1. ssl_relay_event env st i ev io = Inr st1 \<and> r_status (relay (pl st1) a) = RELAY_IDLE \<and> r_status (relay (pl st1) b) = RELAY_IDLE \<and>
    (\<forall>st2 c io2 bs ns. ssl_setup env st1 st2 \<longrightarrow> ssl_pair env st2 c b \<longrightarrow> mode st2 c \<noteq> SSL_DO_WRITE \<longrightarrow>
       ssl_rd io2 = SR_ok bs \<longrightarrow> ssl_ws io2 = map SW_ok ns \<longrightarrow> enough ns (outbuf st b @ ssl_queued st2 c (SR_ok bs)) \<longrightarrow>
       (\<exists>st3. ssl_relay_event env st2 c EPOLLIN io2 = Inr st3 \<and>
          sslsent st3 (r_s (relay (pl st2) b)) = sslsent st2 (r_s (relay (pl st2) b)) @ out_pending st b @ ssl_taken st2 c (SR_ok bs)))"
proof -
  have e: "ssl_end_ok env st a b" "ssl_end_ok env st b a" "a \<noteq> b" using assms(1) by (simp_all add: ssl_pair_def)
  have "\<exists>st1. ssl_shut_pair env st i = Inr st1 \<and> outbuf st1 = outbuf st \<and> mode st1 = mode st \<and>
      r_status (relay (pl st1) a) = RELAY_IDLE \<and> r_status (relay (pl st1) b) = RELAY_IDLE"
    using ssl_shut_pair_active [OF e assms(2)] ssl_shut_pair_active [OF e(2,1) e(3) [symmetric]] assms(2,4) by auto
  then obtain st1 where st1: "ssl_relay_event env st i ev io = Inr st1" "outbuf st1 = outbuf st" "mode st1 = mode st"
    "r_status (relay (pl st1) a) = RELAY_IDLE" "r_status (relay (pl st1) b) = RELAY_IDLE"
    using assms(5) by (auto simp: ssl_relay_event_def)
  have "\<exists>st3. ssl_relay_event env st2 c EPOLLIN io2 = Inr st3 \<and>
      sslsent st3 (r_s (relay (pl st2) b)) = sslsent st2 (r_s (relay (pl st2) b)) @ out_pending st b @ ssl_taken st2 c (SR_ok bs)"
    if s: "ssl_setup env st1 st2" "ssl_pair env st2 c b" "mode st2 c \<noteq> SSL_DO_WRITE"
      and io: "ssl_rd io2 = SR_ok bs" "ssl_ws io2 = map SW_ok ns" "enough ns (outbuf st b @ ssl_queued st2 c (SR_ok bs))" for st2 c io2 bs ns
  proof -
    have k: "outbuf st2 = outbuf st" "mode st2 b \<noteq> SSL_DO_READ" using ssl_setup_keeps [OF s(1)] st1(2,3) assms(3) by simp_all
    have "epolled (pl st2) (r_s (relay (pl st2) c)) = Some EPOLLIN" using s(2,3) by (auto simp: ssl_pair_def ssl_end_ok_def Let_def)
    from ssl_read_event [OF s(2,3) this, of io2] io(1) obtain st3 where
      r: "ssl_pair env st3 c b" "ssl_same st2 st3" "sslsent st3 = sslsent st2" "outbuf st3 b = outbuf st2 b @ ssl_queued st2 c (SR_ok bs)"
        "mode st3 b = mode st2 b" "ssl_relay_event env st2 c EPOLLIN io2 = rbind (sslnioflush2peer env st3 b (ssl_ws io2)) (\<lambda>(_, st', _). Inr st')"
      by (auto simp: calm_read_def)
    from sslnioflush2peer_all [OF ssl_pair_sym [OF r(1)], of ns "[]"] k io(3) r(4,5) obtain st4 where
      "sslnioflush2peer env st3 b (map SW_ok ns) = Inr (0, st4, [])" "ssl_flushed env st3 b c st4" "outbuf st4 b = []" by auto
    with r k(1) io(2) show ?thesis by (auto simp: ssl_flushed_def ssl_carries_def out_pending_def ssl_same_def)
  qed
  with st1 show ?thesis by blast
qed

text \<open>A relay with data for its client whose peer has no SSL object any more.\<close>

definition peer_gone :: "'h ssl_pyx \<Rightarrow> nat \<Rightarrow> nat \<Rightarrow> bool" where
  "peer_gone st r p \<longleftrightarrow>
     (let x = relay (pl st) r in
      r_status x = RELAY_ACTIVE \<and> 0 \<le> r_s x \<and> ssl st r \<and> mode st r = SSL_DO_OK \<and> r_x1 x \<noteq> r_L x \<and> r_peer x = Some p \<and>
      \<not> ssl st p \<and> outbuf st r \<noteq> [])"

text \<open>C27. A client that comes late and leaves kills the daemon: when an SSL relay has data in its queue, its peer
  has no SSL object any more (its client had sent the data and left before this one came), and its own connection
  ends, then sslnioflush calls SSL_write with the peer's NULL object. The example runs this from the start.\<close>

theorem ssl_late_client_crashes:
  assumes "peer_gone st r p" "ssl_rd io = SR_fail"
  shows "ssl_relay_event env st r EPOLLIN io = Inl Null_deref"
proof -
  obtain b q where b: "outbuf st r = b # q" using assms(1) by (cases "outbuf st r") (auto simp: peer_gone_def)
  have "sslniorelayread env st r SR_fail (ssl_ws io) = Inl Null_deref"
    using assms(1) b by (simp add: peer_gone_def sslniorelayread_def Let_def ssl_end_def sslnioflush_def)
  then show ?thesis using assms by (simp add: peer_gone_def Let_def ssl_in_event sslrunrelays2_def sslniorelay_def)
qed

text \<open>C28. A relay that has begun to read writes no more: once SSL_read on relay b of a session of two SSL relays has asked
  for more data, then over any run in which each event is what epoll asks for when it is handled, nothing closes or fails
  and every further SSL_read on b asks for more again, nothing that comes from the other client is written to b's client, however much it is and whatever SSL_write would take,
  until b's client itself sends a whole record; it is all queued. A client that waits for an answer before it sends
  waits for ever.\<close>

theorem ssl_reader_blocks_writer:
  assumes "ssl_pair env st a b" "mode st b = SSL_DO_READ" "ssl_calm env {a, b} st es"
    and "\<forall>(i, ev, io) \<in> set es. i = b \<longrightarrow> ssl_rd io = SR_want"
  shows "\<exists>st' inp. ssl_run env st es = Inr (st', inp) \<and> mode st' b = SSL_DO_READ \<and>
    sslsent st' (r_s (relay (pl st) b)) = sslsent st (r_s (relay (pl st) b)) \<and> out_pending st' b = out_pending st b @ inp a"
  by (rule ssl_stalled_run [OF assms])

text \<open>C29. One SSL client and one without, on the same port, can get a session, which then fails in both directions
  and may kill the daemon: starting with nothing buffered from the SSL client, nothing to repeat on its relay and what is
  buffered from the other polled for (\<open>mixed\<close>), over any run of data from the SSL client and events of the other one that do not end the session,
  nothing at all is written to the client without SSL, what it sends is written in clear on the socket of the
  SSL client, and while some of this waits, the report that this socket can be written to leads to abort.\<close>

theorem mixed_session:
  assumes "mixed env tab st a b" "\<forall>e \<in> set es. mixed_input a b e"
  shows "\<exists>st' inp. ssl_run env st es = Inr (st', inp) \<and> sslsent st' = sslsent st \<and>
    sent (pl st') (r_s (relay (pl st) b)) = sent (pl st) (r_s (relay (pl st) b)) \<and>
    out_pending st' b = out_pending st b @ inp a \<and>
    sent (pl st') (r_s (relay (pl st) a)) @ pending (relay (pl st') b) =
      sent (pl st) (r_s (relay (pl st) a)) @ pending (relay (pl st) b) @ inp b \<and>
    (pending (relay (pl st') b) \<noteq> [] \<longrightarrow> epolled (pl st') (r_s (relay (pl st) a)) = Some READ_WRITE \<and>
      (\<forall>io. ssl_relay_event env st' a EPOLLOUT io = Inl Assert_fail))"
proof -
  from mixed_run [OF assms] obtain st' inp where
    r: "ssl_run env st es = Inr (st', inp)" "mixed env tab st' a b" "same_session (pl st) (pl st')" "sslsent st' = sslsent st"
      "out_pending st' b = out_pending st b @ inp a" "carries (pl st) b a (inp b) (pl st')"
      "sent (pl st') (r_s (relay (pl st) b)) = sent (pl st) (r_s (relay (pl st) b))" by blast
  have s: "r_s (relay (pl st') j) = r_s (relay (pl st) j)" for j using r(3) by (simp add: same_session_def)
  have "epolled (pl st') (r_s (relay (pl st') a)) = Some (r_bits (relay (pl st') a))"
    using r(2) by (auto simp: mixed_def pyx_ok_but_def sockets_ok_def paired_def)
  moreover have "ssl st' a" "mode st' a = SSL_DO_OK" "armed (pl st') b a" using r(2) by (auto simp: mixed_def)
  moreover from this have "\<forall>io. ssl_relay_event env st' a EPOLLOUT io = Inl Assert_fail" by (simp add: ssl_out_event sslrunrelays2_def)
  ultimately show ?thesis using r s by (intro exI [of _ st'] exI [of _ inp]) (auto simp: carries_def armed_def)
qed

theorem ssl_duplex_witness:
  "\<exists>st' inp. ssl_run demo_relay_env ssl_demo_pair [(0, EPOLLIN, ssl_demo_io (SR_ok ''key'') [SW_ok 2, SW_want])] = Inr (st', inp) \<and>
    sslsent st' 11 @ out_pending st' 1 = inp 0"
proof -
  have "ssl_calm demo_relay_env {0, 1} ssl_demo_pair [(0, EPOLLIN, ssl_demo_io (SR_ok ''key'') [SW_ok 2, SW_want])]" by code_simp
  moreover have "r_s (relay (pl ssl_demo_pair) 1) = 11" "sslsent ssl_demo_pair 11 = []" "out_pending ssl_demo_pair 1 = []" by code_simp+
  ultimately show ?thesis using ssl_duplex [OF ssl_demo_pairs(1)] by fastforce
qed

theorem ssl_two_events_abort_witness:
  "ssl_turn demo_relay_env ssl_demo_busy [(0, EPOLLIN, ssl_demo_io (SR_ok ''!'') [SW_ok 9, SW_ok 9]), (1, EPOLLOUT, ssl_demo_io SR_want [])] =
    Inl Assert_fail"
proof -
  have "mode ssl_demo_busy 0 \<noteq> SSL_DO_WRITE" "mode ssl_demo_busy 1 = SSL_DO_WRITE" "ssl_polled ssl_demo_busy 1"
    "enough [9, 9] (outbuf ssl_demo_busy 1 @ ssl_queued ssl_demo_busy 0 (SR_ok ''!''))" by code_simp+
  then show ?thesis
    using ssl_two_events_abort [OF ssl_demo_pairs(2), of "ssl_demo_io (SR_ok ''!'') [SW_ok 9, SW_ok 9]" "[9, 9]"]
    by (simp add: ssl_demo_io_def calm_read_def)
qed

theorem ssl_close_reflects_witness:
  "out_pending ssl_demo_kept 0 = ''re'' \<and>
   (\<exists>st'. ssl_relay_event demo_relay_env ssl_demo_kept 0 EPOLLIN (ssl_demo_io SR_fail [SW_ok 9]) = Inr st' \<and> sslsent st' 11 = ''re'')"
proof -
  have e: "out_pending ssl_demo_kept 0 = ''re''" "{0, 1} \<inter> set (relaycache (pl ssl_demo_kept)) = {}" "mode ssl_demo_kept 0 = SSL_DO_OK"
    "enough [9] (outbuf ssl_demo_kept 0)" "enough [] (outbuf ssl_demo_kept 1)" "r_s (relay (pl ssl_demo_kept) 1) = 11"
    "sslsent ssl_demo_kept 11 = []" by code_simp+
  from ssl_close_reflects [OF ssl_demo_pairs(3) e(2,3) _ _ e(4,5), of "ssl_demo_io SR_fail [SW_ok 9]"] e(1,6,7)
  show ?thesis by (auto simp: ssl_demo_io_def)
qed

theorem ssl_old_data_leaks_witness:
  "\<exists>st3. ssl_relay_event demo_relay_env ssl_demo_new 2 EPOLLIN (ssl_demo_io (SR_ok ''!'') [SW_ok 9, SW_ok 9]) = Inr st3 \<and> sslsent st3 13 = ''y!''"
proof -
  have e: "{0, 1} \<inter> set (relaycache (pl ssl_demo_busy)) = {}" "mode ssl_demo_busy 1 \<noteq> SSL_DO_READ" "mode ssl_demo_new 2 \<noteq> SSL_DO_WRITE"
    "out_pending ssl_demo_busy 1 = ''y''" "enough [9, 9] (outbuf ssl_demo_busy 1 @ ssl_queued ssl_demo_new 2 (SR_ok ''!''))"
    "r_s (relay (pl ssl_demo_new) 1) = 13" "sslsent ssl_demo_new 13 = []" "ssl_taken ssl_demo_new 2 (SR_ok ''!'') = ''!''" by code_simp+
  have "EPOLLHUP AND EPOLLHUP \<noteq> 0" by (simp add: EPOLLHUP_def)
  from ssl_old_data_leaks [OF ssl_demo_pairs(2) e(1,2) _ this, of 1 "ssl_demo_io SR_want []"] obtain st1 where
    s: "ssl_relay_event demo_relay_env ssl_demo_busy 1 EPOLLHUP (ssl_demo_io SR_want []) = Inr st1" and
    l: "\<And>st2 c io2 bs ns. ssl_setup demo_relay_env st1 st2 \<Longrightarrow> ssl_pair demo_relay_env st2 c 1 \<Longrightarrow> mode st2 c \<noteq> SSL_DO_WRITE \<Longrightarrow>
       ssl_rd io2 = SR_ok bs \<Longrightarrow> ssl_ws io2 = map SW_ok ns \<Longrightarrow> enough ns (outbuf ssl_demo_busy 1 @ ssl_queued st2 c (SR_ok bs)) \<Longrightarrow>
       (\<exists>st3. ssl_relay_event demo_relay_env st2 c EPOLLIN io2 = Inr st3 \<and>
          sslsent st3 (r_s (relay (pl st2) 1)) = sslsent st2 (r_s (relay (pl st2) 1)) @ out_pending ssl_demo_busy 1 @ ssl_taken st2 c (SR_ok bs))"
    by blast
  have "ssl_demo_ended = st1" using s by (simp add: ssl_demo_ended_def ssl_after_def)
  then have "ssl_setup demo_relay_env st1 ssl_demo_new" using ssl_demo_setup by simp
  from l [OF this ssl_demo_pairs(5) e(3), of "ssl_demo_io (SR_ok ''!'') [SW_ok 9, SW_ok 9]" "''!''" "[9, 9]"] e(4-8)
  show ?thesis by (simp add: ssl_demo_io_def)
qed

theorem ssl_late_client_crashes_witness:
  "ssl_relay_event demo_relay_env ssl_demo_late 1 EPOLLIN (ssl_demo_io SR_fail []) = Inl Null_deref"
proof -
  have "peer_gone ssl_demo_late 1 0" by code_simp
  then show ?thesis by (rule ssl_late_client_crashes) (simp add: ssl_demo_io_def)
qed

theorem ssl_reader_blocks_writer_witness:
  "\<exists>st' inp. ssl_run demo_relay_env ssl_demo_partial [(0, EPOLLIN, ssl_demo_io (SR_ok ''key'') [SW_ok 9])] = Inr (st', inp) \<and>
    sslsent st' 11 = [] \<and> out_pending st' 1 = inp 0"
proof -
  have e: "mode ssl_demo_partial 1 = SSL_DO_READ"
    "ssl_calm demo_relay_env {0, 1} ssl_demo_partial [(0, EPOLLIN, ssl_demo_io (SR_ok ''key'') [SW_ok 9])]"
    "r_s (relay (pl ssl_demo_partial) 1) = 11" "sslsent ssl_demo_partial 11 = []" "out_pending ssl_demo_partial 1 = []" by code_simp+
  from ssl_reader_blocks_writer [OF ssl_demo_pairs(4) e(1,2)] e(3-5) show ?thesis by auto
qed

theorem mixed_session_witness:
  "\<exists>st' inp. ssl_run demo_relay_env ssl_demo_mixed
      [(0, EPOLLIN, ssl_demo_io (SR_ok ''key'') []), (1, EPOLLIN, ssl_demo_io SR_want [])] = Inr (st', inp) \<and>
    out_pending st' 1 = inp 0 \<and> sent (pl st') 11 = []"
proof -
  have "\<forall>e \<in> set [(0, EPOLLIN, ssl_demo_io (SR_ok ''key'') []), (1, EPOLLIN, ssl_demo_io SR_want [])]. mixed_input 0 1 e"
    by (simp add: ssl_demo_io_def demo_io_def write_works_def EPOLLIN_def EPOLLERR_def EPOLLHUP_def)
  from mixed_session [OF ssl_demo_mixed_ok this]
  have "\<exists>st' inp. ssl_run demo_relay_env ssl_demo_mixed
      [(0, EPOLLIN, ssl_demo_io (SR_ok ''key'') []), (1, EPOLLIN, ssl_demo_io SR_want [])] = Inr (st', inp) \<and>
    out_pending st' 1 = out_pending ssl_demo_mixed 1 @ inp 0 \<and>
    sent (pl st') (r_s (relay (pl ssl_demo_mixed) 1)) = sent (pl ssl_demo_mixed) (r_s (relay (pl ssl_demo_mixed) 1))" by blast
  moreover have "r_s (relay (pl ssl_demo_mixed) 1) = 11" "sent (pl ssl_demo_mixed) 11 = []" "out_pending ssl_demo_mixed 1 = []" by code_simp+
  ultimately show ?thesis by simp
qed

end
