(* ===== verification/Sockets.thy ===== *)
theory Sockets
  imports RelayProps Res Names
begin

text \<open>
  The sockets of \<open>src/lib/nio2.c\<close> and the small functions around them: listening and client sockets, the
  part of \<open>nioinit\<close> that opens the listening sockets, \<open>nioshutall\<close>, the blocking flag, and the waiting
  functions; then the wrappers of \<open>src/lib/nio.c\<close>. What each system call answers is an argument; what it does to a
  socket is modelled.
\<close>

unbundle bit_operations_syntax

section \<open>Sockets of the kernel\<close>

text \<open>
  An open socket: its options, where it is bound and whether it listens, its peer, and its status flags. A new one is
  as the kernel makes it, an argument. A buffer size is the one that was asked for last.
\<close>

record tcp_socket =
  sk_reuse :: bool
  sk_sndbuf :: int
  sk_rcvbuf :: int
  sk_bound :: "(32 word \<times> 16 word) option"
  sk_listening :: bool
  sk_peer :: "(32 word \<times> 16 word) option"
  sk_flags :: "32 word"

type_synonym sockets = "int \<Rightarrow> tcp_socket option"

definition upd_socket :: "sockets \<Rightarrow> int \<Rightarrow> (tcp_socket \<Rightarrow> tcp_socket) \<Rightarrow> sockets" where
  "upd_socket ks s f = ks(s := map_option f (ks s))"

definition closed :: "sockets \<Rightarrow> int \<Rightarrow> sockets" where
  "closed ks s = ks(s := None)"

text \<open>\<open>htons\<close> takes the low 16 bits of the port.\<close>

definition port_of :: "int \<Rightarrow> 16 word" where
  "port_of p = word_of_int p"

definition INADDR_ANY :: "32 word" where "INADDR_ANY = 0"

text \<open>The configuration that the functions use.\<close>

record niodeclare =
  nd_ctrlport :: int
  nd_relayport :: int
  nd_pyx_ip :: "32 word"
  nd_sndbuf :: int
  nd_rcvbuf :: int
  nd_maxsock :: int

text \<open>The answers: the descriptor, or a negative number; whether each of the others succeeds.\<close>

record socket_answers =
  la_socket :: int
  la_reuse :: bool
  la_sndbuf :: bool
  la_rcvbuf :: bool
  la_bind :: bool
  la_listen :: bool

section \<open>Opening\<close>

definition niotcpsocket :: "tcp_socket \<Rightarrow> sockets \<Rightarrow> int \<Rightarrow> socket_answers \<Rightarrow> int \<times> sockets" where
  "niotcpsocket new ks prt a =
     (let s = la_socket a in
      if s < 0 then (-1, ks)
      else
        let ks1 = ks(s \<mapsto> new) in
        if \<not> la_reuse a then (-2, closed ks1 s)
        else
          let ks2 = upd_socket ks1 s (sk_reuse_update (\<lambda>_. True)) in
          if \<not> la_bind a then (-1, closed ks2 s)
          else (s, upd_socket ks2 s (sk_bound_update (\<lambda>_. Some (INADDR_ANY, port_of prt)))))"

text \<open>Both buffer sizes are set with the option \<open>SO_SNDBUF\<close>.\<close>

definition niolistensocket :: "niodeclare \<Rightarrow> tcp_socket \<Rightarrow> sockets \<Rightarrow> int \<Rightarrow> 32 word \<Rightarrow> socket_answers \<Rightarrow> int \<times> sockets" where
  "niolistensocket nd new ks prt addr a =
     (let s = la_socket a in
      if s < 0 then (-1, ks)
      else
        let ks1 = ks(s \<mapsto> new) in
        if \<not> la_reuse a then (-2, closed ks1 s)
        else
          let ks2 = upd_socket ks1 s (sk_reuse_update (\<lambda>_. True)) in
          if 0 < nd_sndbuf nd \<and> \<not> la_sndbuf a then (-2, closed ks2 s)
          else
            let ks3 = (if 0 < nd_sndbuf nd then upd_socket ks2 s (sk_sndbuf_update (\<lambda>_. nd_sndbuf nd)) else ks2) in
            if 0 < nd_rcvbuf nd \<and> \<not> la_rcvbuf a then (-2, closed ks3 s)
            else
              let ks4 = (if 0 < nd_rcvbuf nd then upd_socket ks3 s (sk_sndbuf_update (\<lambda>_. nd_rcvbuf nd)) else ks3) in
              if \<not> la_bind a then (-1, closed ks4 s)
              else
                let ks5 = upd_socket ks4 s (sk_bound_update (\<lambda>_. Some (addr, port_of prt))) in
                if \<not> la_listen a then (-3, closed ks5 s)
                else (s, upd_socket ks5 s (sk_listening_update (\<lambda>_. True))))"

definition nioconnect :: "sockets \<Rightarrow> int \<Rightarrow> 32 word \<times> 16 word \<Rightarrow> bool \<Rightarrow> int \<times> sockets" where
  "nioconnect ks s to connected = (if connected then (s, upd_socket ks s (sk_peer_update (\<lambda>_. Some to))) else (-1, ks))"

text \<open>
  The beginning of \<open>nioinit\<close>: \<open>efd\<close> is what \<open>epoll_create\<close> returns, \<open>cadd\<close> and \<open>radd\<close> whether
  \<open>epoll_ctl\<close> succeeds. The result is 0 or -1, the descriptors of the listeners as far as they are set,
  the sockets and the epoll set.
\<close>

definition nioinit_listeners :: "niodeclare \<Rightarrow> tcp_socket \<Rightarrow> sockets \<Rightarrow> int \<Rightarrow> socket_answers \<Rightarrow> bool \<Rightarrow> socket_answers \<Rightarrow> bool \<Rightarrow>
    int \<times> int list \<times> sockets \<times> (int \<Rightarrow> 32 word option)" where
  "nioinit_listeners nd new ks efd ca cadd ra radd =
     (if efd < 0 then (-1, [], ks, Map.empty)
      else
        let (s0, ks0) = niolistensocket nd new ks (nd_ctrlport nd) (nd_pyx_ip nd) ca in
        if s0 < 0 \<or> \<not> cadd then (-1, [s0], ks0, Map.empty)
        else
          let (s1, ks1) = niolistensocket nd new ks0 (nd_relayport nd) (nd_pyx_ip nd) ra in
          if s1 < 0 \<or> \<not> radd then (-1, [s0, s1], ks1, [s0 \<mapsto> EPOLLIN])
          else (0, [s0, s1], ks1, [s0 \<mapsto> EPOLLIN, s1 \<mapsto> EPOLLIN]))"

text \<open>The limit of sockets, with what \<open>sysconf (_SC_OPEN_MAX)\<close> returns.\<close>

definition socket_limit :: "niodeclare \<Rightarrow> int \<Rightarrow> niodeclare" where
  "socket_limit nd maxfds = (if maxfds < nd_maxsock nd then nd\<lparr>nd_maxsock := min maxfds (nd_maxsock nd)\<rparr> else nd)"

section \<open>Closing everything\<close>

text \<open>
  \<open>nioshutall\<close> with the two listening sockets \<open>s0\<close> and \<open>s1\<close>. \<open>rl\<close> is what the list \<open>relaylist\<close> holds; no
  function of the file puts anything into it.
\<close>

fun shut_ctrls :: "'h pyx \<Rightarrow> nat list \<Rightarrow> 'h pyx res" where
  "shut_ctrls st [] = Inr (st\<lparr>ctrlist := []\<rparr>)"
| "shut_ctrls st (c # q) = rbind (nioshutctrl (st\<lparr>ctrlist := q\<rparr>) c True) (\<lambda>st1. shut_ctrls st1 q)"

fun shut_relays :: "'h relay_env \<Rightarrow> 'h pyx \<Rightarrow> nat list \<Rightarrow> 'h pyx res" where
  "shut_relays env st [] = Inr st"
| "shut_relays env st (i # q) =
     rbind (nioshutrelay env (upd_relay st i (r_status_update (\<lambda>_. RELAY_ACTIVE))) i) (\<lambda>st1. shut_relays env st1 q)"

definition nioshutall :: "'h relay_env \<Rightarrow> sockets \<Rightarrow> int \<Rightarrow> int \<Rightarrow> 'h pyx \<Rightarrow> nat list \<Rightarrow> (sockets \<times> 'h pyx) res" where
  "nioshutall env ks s0 s1 st rl =
     rbind (shut_ctrls st (ctrlist st)) (\<lambda>st1.
     rbind (shut_relays env st1 rl) (\<lambda>st2. Inr (closed (closed ks s0) s1, st2)))"

section \<open>Blocking\<close>

text \<open>\<open>F_SETFL\<close> sets \<open>O_APPEND\<close>, \<open>O_ASYNC\<close>, \<open>O_DIRECT\<close>, \<open>O_NOATIME\<close> and \<open>O_NONBLOCK\<close>, and leaves the others.\<close>

definition O_NONBLOCK :: "32 word" where "O_NONBLOCK = 0x800"

definition SETTABLE :: "32 word" where "SETTABLE = 0x46C00"

definition set_flags :: "sockets \<Rightarrow> int \<Rightarrow> 32 word \<Rightarrow> int \<times> sockets" where
  "set_flags ks s v =
     (if ks s = None then (-1, ks)
      else (0, upd_socket ks s (\<lambda>k. k\<lparr>sk_flags := (sk_flags k AND NOT SETTABLE) OR (v AND SETTABLE)\<rparr>)))"

definition get_flags :: "sockets \<Rightarrow> int \<Rightarrow> 32 word" where
  "get_flags ks s = (case ks s of None \<Rightarrow> -1 | Some k \<Rightarrow> sk_flags k)"

definition niounblock :: "sockets \<Rightarrow> int \<Rightarrow> int \<times> sockets" where
  "niounblock ks s = set_flags ks s O_NONBLOCK"

definition nioblock :: "sockets \<Rightarrow> int \<Rightarrow> int \<times> sockets" where
  "nioblock ks s = set_flags ks s (get_flags ks s AND NOT O_NONBLOCK)"

definition nioisunblock :: "sockets \<Rightarrow> int \<Rightarrow> 32 word" where
  "nioisunblock ks s = get_flags ks s AND O_NONBLOCK"

text \<open>The same two of \<open>src/lib/nio.c\<close>, which return nothing.\<close>

definition nio_unblock :: "sockets \<Rightarrow> int \<Rightarrow> sockets" where
  "nio_unblock ks s = snd (set_flags ks s O_NONBLOCK)"

definition nio_block :: "sockets \<Rightarrow> int \<Rightarrow> sockets" where
  "nio_block ks s = snd (set_flags ks s (get_flags ks s AND NOT O_NONBLOCK))"

section \<open>Waiting\<close>

text \<open>
  What \<open>poll\<close> answers: the number of ready sockets, no event in the time given, a signal or another error
  after some milliseconds. \<open>niosocktimer\<close> returns its result and how long it waited; the time \<open>ms\<close> is not negative
  (a negative one waits without end). A list of answers that ends is a \<open>poll\<close> that does not return.
\<close>

datatype poll_answer = Poll_ready nat nat | Poll_timeout | Poll_intr nat | Poll_error

fun niosocktimer :: "nat \<Rightarrow> poll_answer list \<Rightarrow> (int \<times> nat \<times> poll_answer list) res" where
  "niosocktimer ms [] = Inl Blocks"
| "niosocktimer ms (Poll_ready n t # as) = Inr (int n, t, as)"
| "niosocktimer ms (Poll_timeout # as) = Inr (0, ms, as)"
| "niosocktimer ms (Poll_intr t # as) = rbind (niosocktimer ms as) (\<lambda>(cc, t', as'). Inr (cc, t + t', as'))"
| "niosocktimer ms (Poll_error # as) = Inr (-1, 0, as)"

text \<open>\<open>niomillisleep\<close>, and \<open>nio_millisleep\<close> of \<open>src/lib/nio.c\<close>: the microseconds given to \<open>select\<close>.\<close>

definition niomillisleep :: "int \<Rightarrow> int res" where
  "niomillisleep msec =
     (if msec < 1 then Inr 0 else if INT_MAX < msec * 1000 then Inl Signed_overflow else Inr (msec * 1000))"

definition nio_millisleep :: "int \<Rightarrow> int res" where
  "nio_millisleep msec =
     (if msec < 1 then Inr 0 else if INT_MAX < msec * 1000 then Inl Signed_overflow else Inr (msec * 1000))"

text \<open>
  \<open>nio_epoll\<close> and \<open>nio_epoll2\<close> of \<open>src/lib/nio.c\<close>: \<open>ready\<close> are the events at hand, or nothing when \<open>epoll_wait\<close>
  fails, as it does without room for one. The result comes with what is stored in the array.
\<close>

definition nio_epoll2 :: "'e list option \<Rightarrow> int \<Rightarrow> int \<times> 'e list" where
  "nio_epoll2 ready num_events =
     (case ready of
        None \<Rightarrow> (-1, [])
      | Some es \<Rightarrow> if num_events \<le> 0 then (-1, []) else (int (length (take (nat num_events) es)), take (nat num_events) es))"

definition nio_epoll :: "'e list option \<Rightarrow> int \<times> 'e list" where
  "nio_epoll ready =
     (case ready of None \<Rightarrow> (-1, []) | Some es \<Rightarrow> (int (length (take MAX_EVENTS es)), take MAX_EVENTS es))"

text \<open>\<open>sslnioblock\<close> and \<open>sslniounblock\<close>: \<open>SSL_get_fd\<close> gives the socket of the SSL object, or a negative number.\<close>

definition sslnioblock :: "sockets \<Rightarrow> int \<Rightarrow> int \<times> sockets" where
  "sslnioblock ks fd = (fd, snd (nioblock ks fd))"

definition sslniounblock :: "sockets \<Rightarrow> int \<Rightarrow> int \<times> sockets" where
  "sslniounblock ks fd = (fd, snd (niounblock ks fd))"

section \<open>Texts\<close>

text \<open>\<open>niowho\<close>, into a static array of 64 bytes; an address comes with its port.\<close>

definition niowho :: "32 word \<times> 16 word \<Rightarrow> string res" where
  "niowho from =
     (let who = fmt_d (uint (snd from)) @ ''@'' @ dotted (fst from)
      in if 64 \<le> length who then Inl Buffer_overflow else Inr who)"

text \<open>
  \<open>niorelayerror\<close>: the line it logs, without the text of \<open>errno\<close>. \<open>from\<close> are the addresses of the relays and \<open>num\<close> the
  numbers of the states, which are not in the repository. The address is copied into 24 bytes first, since \<open>niowho\<close>
  is called again for the peer.
\<close>

definition niorelayerror :: "(relay_status \<Rightarrow> int) \<Rightarrow> (nat \<Rightarrow> 32 word \<times> 16 word) \<Rightarrow> 'h pyx \<Rightarrow> string \<Rightarrow> nat \<Rightarrow> string res" where
  "niorelayerror num from st f i =
     (let r = relay st i in
      rbind (niowho (from i)) (\<lambda>buf.
      if 24 \<le> length buf then Inl Buffer_overflow
      else
        rbind (nonnull (r_peer r)) (\<lambda>p.
        rbind (niowho (from p)) (\<lambda>who.
          Inr (''niorelayerror: '' @ f @ '' sid '' @ fmt_d (int i) @ '' s '' @ fmt_d (r_s r) @ '' stat '' @ fmt_d (num (r_status r)) @ '' '' @ buf @
            '' peer sid '' @ fmt_d (int p) @ '' s '' @ fmt_d (r_s (relay st p)) @ '' stat '' @ fmt_d (num (r_status (relay st p))) @ '' '' @ who)))))"

section \<open>Lemmas\<close>

lemma length_byte: "length (fmt_d (uint (take_bit 8 (w :: 32 word)))) \<le> 3"
proof -
  have "uint (take_bit 8 w) = take_bit 8 (uint w)" by (simp add: unsigned_take_bit_eq)
  then have "0 \<le> uint (take_bit 8 w)" "uint (take_bit 8 w) < 256" using take_bit_int_less_exp [of 8 "uint w"] by simp_all
  then have "nat (uint (take_bit 8 w)) < 10 ^ 3" by (simp add: nat_less_iff del: nat_uint_eq)
  from length_dec_nat [OF this] \<open>0 \<le> uint (take_bit 8 w)\<close> show ?thesis by (simp add: fmt_d_def del: nat_uint_eq)
qed

text \<open>The longest text is that of 65535@255.255.255.255, so neither array overflows.\<close>

lemma length_dotted: "length (dotted w) \<le> 15"
proof -
  have "drop_bit 24 w = take_bit 8 (drop_bit 24 w)" by (rule bit_eqI) (auto simp: bit_simps dest: bit_imp_le_length)
  with length_byte [of "drop_bit 24 w"] length_byte [of "drop_bit 16 w"] length_byte [of "drop_bit 8 w"] length_byte [of w]
  show ?thesis by (simp add: dotted_def)
qed

lemma niowho_fits: "\<exists>who. niowho from = Inr who \<and> length who \<le> 21"
proof -
  have "unat (snd from) < 2 ^ 16" using unsigned_less [of "snd from"] by simp
  then have "unat (snd from) < 10 ^ 5" by simp
  from length_dec_nat [OF this] have "length (fmt_d (uint (snd from))) \<le> 5" by (simp add: fmt_d_def)
  with length_dotted [of "fst from"] show ?thesis by (simp add: niowho_def)
qed

lemma niorelayerror_fits: "niorelayerror num from st f i \<noteq> Inl Buffer_overflow"
proof -
  from niowho_fits [of "from i"] obtain a where a: "niowho (from i) = Inr a" "length a \<le> 21" by blast
  show ?thesis
  proof (cases "r_peer (relay st i)")
    case (Some p)
    from niowho_fits [of "from p"] obtain b where b: "niowho (from p) = Inr b" by blast
    have "\<not> 24 \<le> length a" using a(2) by simp
    with a(1) b Some show ?thesis by (simp only: niorelayerror_def Let_def rbind_Inr nonnull_simps if_False) simp
  qed (use a in \<open>simp add: niorelayerror_def\<close>)
qed

lemma upd_closed [simp]:
  "upd_socket ks s f s = map_option f (ks s)" "t \<noteq> s \<Longrightarrow> upd_socket ks s f t = ks t"
  "closed ks s s = None" "t \<noteq> s \<Longrightarrow> closed ks s t = ks t"
  "closed (upd_socket ks s f) s = closed ks s" "closed (ks(s \<mapsto> k)) s = closed ks s"
  "upd_socket (ks(s \<mapsto> k)) s f = ks(s \<mapsto> f k)"
  by (auto simp: upd_socket_def closed_def)

lemma closed_free [simp]: "ks s = None \<Longrightarrow> closed ks s = ks"
  by (auto simp: closed_def)

text \<open>The listening socket that \<open>niolistensocket\<close> makes.\<close>

definition listening_socket :: "niodeclare \<Rightarrow> tcp_socket \<Rightarrow> int \<Rightarrow> 32 word \<Rightarrow> tcp_socket" where
  "listening_socket nd new prt addr =
     new\<lparr>sk_reuse := True,
         sk_sndbuf := (if 0 < nd_rcvbuf nd then nd_rcvbuf nd else if 0 < nd_sndbuf nd then nd_sndbuf nd else sk_sndbuf new),
         sk_bound := Some (addr, port_of prt), sk_listening := True\<rparr>"

definition all_answered :: "niodeclare \<Rightarrow> socket_answers \<Rightarrow> bool" where
  "all_answered nd a \<longleftrightarrow> 0 \<le> la_socket a \<and> la_reuse a \<and> (0 < nd_sndbuf nd \<longrightarrow> la_sndbuf a) \<and> (0 < nd_rcvbuf nd \<longrightarrow> la_rcvbuf a) \<and>
     la_bind a \<and> la_listen a"

lemma niolistensocket_cases:
  assumes "0 \<le> la_socket a \<longrightarrow> ks (la_socket a) = None"
  shows "if all_answered nd a
     then niolistensocket nd new ks prt addr a = (la_socket a, ks(la_socket a \<mapsto> listening_socket nd new prt addr))
     else \<exists>cc \<in> {-1, -2, -3}. niolistensocket nd new ks prt addr a = (cc, ks)"
  using assms by (simp add: niolistensocket_def all_answered_def listening_socket_def Let_def)

lemma shut_ctrl_open:
  assumes "c_s (ctrl st c) \<noteq> -1" "c \<notin> set (ctrlcache st)"
  shows "\<exists>st'. nioshutctrl st c True = Inr st' \<and> c_s (ctrl st' c) = -1 \<and> (\<forall>d. d \<noteq> c \<longrightarrow> ctrl st' d = ctrl st d) \<and>
    epolled st' = (epolled st)(c_s (ctrl st c) := None) \<and> set (ctrlcache st') \<subseteq> insert c (set (ctrlcache st)) \<and>
    relay st' = relay st \<and> wpeers st' = wpeers st \<and> relayarray st' = relayarray st"
  using assms by (auto simp: nioshutctrl_def upd_ctrl_def Let_def seq_enque_def)

lemma shut_ctrls_open:
  assumes "distinct cs" "set cs \<inter> set (ctrlcache st) = {}" "\<forall>c \<in> set cs. c_s (ctrl st c) \<noteq> -1"
  shows "\<exists>st'. shut_ctrls st cs = Inr st' \<and> (\<forall>c \<in> set cs. c_s (ctrl st' c) = -1) \<and> (\<forall>d. d \<notin> set cs \<longrightarrow> ctrl st' d = ctrl st d) \<and>
    (\<forall>s. epolled st' s = (if s \<in> (\<lambda>c. c_s (ctrl st c)) ` set cs then None else epolled st s)) \<and>
    relay st' = relay st \<and> wpeers st' = wpeers st \<and> relayarray st' = relayarray st \<and> ctrlist st' = []"
  using assms
proof (induction cs arbitrary: st)
  case (Cons c q)
  have "c_s (ctrl (st\<lparr>ctrlist := q\<rparr>) c) \<noteq> -1" "c \<notin> set (ctrlcache (st\<lparr>ctrlist := q\<rparr>))" using Cons.prems by auto
  from shut_ctrl_open [OF this] obtain st1 where
    s: "nioshutctrl (st\<lparr>ctrlist := q\<rparr>) c True = Inr st1" "c_s (ctrl st1 c) = -1" "\<And>d. d \<noteq> c \<Longrightarrow> ctrl st1 d = ctrl st d"
      "epolled st1 = (epolled st)(c_s (ctrl st c) := None)" "set (ctrlcache st1) \<subseteq> insert c (set (ctrlcache st))"
      "relay st1 = relay st" "wpeers st1 = wpeers st" "relayarray st1 = relayarray st" by auto
  have same: "ctrl st1 d = ctrl st d" if "d \<in> set q" for d using s(3) [of d] that Cons.prems(1) by auto
  have "distinct q" "set q \<inter> set (ctrlcache st1) = {}" "\<forall>d \<in> set q. c_s (ctrl st1 d) \<noteq> -1"
    using Cons.prems s(5) same by auto
  from Cons.IH [OF this] obtain st' where
    t: "shut_ctrls st1 q = Inr st'" "\<forall>d \<in> set q. c_s (ctrl st' d) = -1" "\<forall>d. d \<notin> set q \<longrightarrow> ctrl st' d = ctrl st1 d"
      "\<forall>s. epolled st' s = (if s \<in> (\<lambda>c. c_s (ctrl st1 c)) ` set q then None else epolled st1 s)"
      "relay st' = relay st1" "wpeers st' = wpeers st1" "relayarray st' = relayarray st1" "ctrlist st' = []" by blast
  have "c \<notin> set q" using Cons.prems(1) by simp
  moreover have "(\<lambda>c. c_s (ctrl st1 c)) ` set q = (\<lambda>c. c_s (ctrl st c)) ` set q" using same by auto
  ultimately show ?case using s t by auto
qed simp

lemma flag_words:
  "O_NONBLOCK AND SETTABLE = O_NONBLOCK" "O_NONBLOCK AND NOT SETTABLE = 0" "O_NONBLOCK \<noteq> 0"
  by (simp_all add: O_NONBLOCK_def SETTABLE_def)

text \<open>
  After \<open>niounblock\<close> a socket does not block, after \<open>nioblock\<close> it does. But the first clears every other flag that can
  be set, so the second does not give back what there was.
\<close>

lemma niounblock_flags:
  assumes "ks s = Some k"
  shows "niounblock ks s = (0, upd_socket ks s (\<lambda>k. k\<lparr>sk_flags := (sk_flags k AND NOT SETTABLE) OR O_NONBLOCK\<rparr>))"
    "nioisunblock (snd (niounblock ks s)) s = O_NONBLOCK"
  using assms by (simp_all add: niounblock_def set_flags_def nioisunblock_def get_flags_def flag_words
    bit.conj_disj_distrib2 and.assoc and.left_commute)

lemma nioblock_flags:
  assumes "ks s = Some k"
  shows "nioblock ks s = (0, upd_socket ks s (\<lambda>k. k\<lparr>sk_flags := sk_flags k AND NOT O_NONBLOCK\<rparr>))"
proof -
  have "NOT O_NONBLOCK AND NOT SETTABLE = NOT SETTABLE" by (simp add: O_NONBLOCK_def SETTABLE_def)
  then have "(f AND NOT SETTABLE) OR (f AND NOT O_NONBLOCK AND SETTABLE) = f AND NOT O_NONBLOCK" for f
    by (metis (no_types) and.assoc bit.conj_disj_distrib bit.disj_cancel_left or.commute and.right_neutral)
  with assms show ?thesis by (simp add: nioblock_def set_flags_def get_flags_def upd_socket_def and.assoc)
qed

lemma nio_block_same: "snd (nioblock ks s) = nio_block ks s" "snd (niounblock ks s) = nio_unblock ks s"
  by (simp_all add: nioblock_def nio_block_def niounblock_def nio_unblock_def)

section \<open>Properties\<close>

text \<open>C17. A listening socket: niolistensocket, with a descriptor that was free, either returns it, open, bound to the
  address and to the port modulo 2^16, listening and with its address reusable, or a negative code, and then no socket
  is left open; no other socket changes. But a configured size of the receive buffer never reaches it: it is set as the
  size of the send buffer, in place of the one configured for that.\<close>

theorem listen_socket_outcome:
  assumes "0 \<le> la_socket a \<longrightarrow> ks (la_socket a) = None"
  shows "case niolistensocket nd new ks prt addr a of (s, ks') \<Rightarrow>
    if all_answered nd a
    then s = la_socket a \<and> (\<forall>t. t \<noteq> s \<longrightarrow> ks' t = ks t) \<and>
      (\<exists>k. ks' s = Some k \<and> sk_listening k \<and> sk_reuse k \<and> sk_bound k = Some (addr, word_of_int (prt mod 2 ^ 16)) \<and>
        sk_rcvbuf k = sk_rcvbuf new \<and> (0 < nd_rcvbuf nd \<longrightarrow> sk_sndbuf k = nd_rcvbuf nd))
    else s < 0 \<and> ks' = ks"
proof (cases "all_answered nd a")
  case True
  have "(word_of_int (prt mod 2 ^ 16) :: 16 word) = port_of prt"
    by (simp add: port_of_def word_of_int_eq_iff take_bit_eq_mod)
  with niolistensocket_cases [where ks = ks, OF assms, of nd new prt addr] True show ?thesis
    by (auto simp: listening_socket_def)
next
  case False
  with niolistensocket_cases [where ks = ks, OF assms, of nd new prt addr] show ?thesis by auto
qed

definition demo_socket :: tcp_socket where
  "demo_socket = \<lparr>sk_reuse = False, sk_sndbuf = 16384, sk_rcvbuf = 131072, sk_bound = None, sk_listening = False, sk_peer = None, sk_flags = 2\<rparr>"

definition demo_declare :: niodeclare where
  "demo_declare = \<lparr>nd_ctrlport = 70000, nd_relayport = 8002, nd_pyx_ip = 1, nd_sndbuf = 65536, nd_rcvbuf = 4096, nd_maxsock = 100\<rparr>"

definition demo_syscalls :: "int \<Rightarrow> bool \<Rightarrow> socket_answers" where
  "demo_syscalls s b = \<lparr>la_socket = s, la_reuse = True, la_sndbuf = True, la_rcvbuf = True, la_bind = b, la_listen = True\<rparr>"

theorem listen_socket_outcome_witness:
  "case niolistensocket demo_declare demo_socket Map.empty 70000 1 (demo_syscalls 4 True) of (s, ks') \<Rightarrow>
     s = 4 \<and> (\<exists>k. ks' 4 = Some k \<and> sk_bound k = Some (1, 4464) \<and> sk_sndbuf k = 4096 \<and> sk_rcvbuf k = 131072)"
  using listen_socket_outcome [where a = "demo_syscalls 4 True" and ks = Map.empty and nd = demo_declare and new = demo_socket
      and prt = 70000 and addr = 1]
  by (auto simp: demo_syscalls_def demo_declare_def demo_socket_def all_answered_def split: prod.splits)

text \<open>nioinit opens the two listening sockets or fails, and a failure is not undone: when the second socket cannot be opened, nioinit
  returns -1 with the first one open, listening and in the epoll set.\<close>

theorem nioinit_listeners_outcome:
  assumes "0 \<le> efd" "all_answered nd ca" "ks (la_socket ca) = None" "la_socket ca \<noteq> la_socket ra"
    and "0 \<le> la_socket ra \<longrightarrow> ks (la_socket ra) = None"
  shows "case nioinit_listeners nd new ks efd ca True ra radd of (cc, ls, ks', ep) \<Rightarrow>
    cc = (if all_answered nd ra \<and> radd then 0 else -1) \<and>
    ks' (la_socket ca) = Some (listening_socket nd new (nd_ctrlport nd) (nd_pyx_ip nd)) \<and> ep (la_socket ca) = Some EPOLLIN \<and>
    (all_answered nd ra \<longrightarrow> ks' (la_socket ra) = Some (listening_socket nd new (nd_relayport nd) (nd_pyx_ip nd)) \<and>
       ls = [la_socket ca, la_socket ra] \<and> (radd \<longrightarrow> ep = [la_socket ca \<mapsto> EPOLLIN, la_socket ra \<mapsto> EPOLLIN]))"
proof -
  let ?k0 = "ks(la_socket ca \<mapsto> listening_socket nd new (nd_ctrlport nd) (nd_pyx_ip nd))"
  have s0: "niolistensocket nd new ks (nd_ctrlport nd) (nd_pyx_ip nd) ca = (la_socket ca, ?k0)" "0 \<le> la_socket ca"
    using niolistensocket_cases [of ca ks nd new "nd_ctrlport nd" "nd_pyx_ip nd"] assms(2,3) by (auto simp: all_answered_def)
  have "0 \<le> la_socket ra \<longrightarrow> ?k0 (la_socket ra) = None" using assms(4,5) by simp
  note c = niolistensocket_cases [where ks = ?k0, OF this, of nd new "nd_relayport nd" "nd_pyx_ip nd"]
  show ?thesis
  proof (cases "all_answered nd ra")
    case True
    then have "0 \<le> la_socket ra" by (simp add: all_answered_def)
    with True c s0 assms(1,4) show ?thesis by (simp add: nioinit_listeners_def)
  next
    case False
    with c obtain cc where "cc < 0" "niolistensocket nd new ?k0 (nd_relayport nd) (nd_pyx_ip nd) ra = (cc, ?k0)" by auto
    with False s0 assms(1) show ?thesis by (simp add: nioinit_listeners_def)
  qed
qed

theorem nioinit_listeners_outcome_witness:
  "case nioinit_listeners demo_declare demo_socket Map.empty 3 (demo_syscalls 4 True) True (demo_syscalls 5 False) True of (cc, ls, ks', ep) \<Rightarrow>
     cc = -1 \<and> ks' 4 \<noteq> None \<and> ep 4 = Some EPOLLIN"
  using nioinit_listeners_outcome [where efd = 3 and nd = demo_declare and ca = "demo_syscalls 4 True" and ks = Map.empty
      and ra = "demo_syscalls 5 False" and new = demo_socket and radd = True]
  by (auto simp: demo_syscalls_def all_answered_def split: prod.splits)

text \<open>nioshutall shuts less than everything: both listeners are closed, and every control connection in the list of those with a
  complete message, but the list of relays that it goes through is one that nothing is put into. So every session, every waiting relay
  and every control connection without a complete message stay as they are, with their sockets in the epoll set.\<close>

theorem shutall_leaves_sessions:
  assumes "distinct (ctrlist st)" "set (ctrlist st) \<inter> set (ctrlcache st) = {}" "\<forall>c \<in> set (ctrlist st). c_s (ctrl st c) \<noteq> -1"
    and "s0 \<noteq> s1"
  shows "\<exists>ks' st'. nioshutall env ks s0 s1 st [] = Inr (ks', st') \<and> ks' s0 = None \<and> ks' s1 = None \<and>
    (\<forall>c \<in> set (ctrlist st). c_s (ctrl st' c) = -1) \<and> relay st' = relay st \<and> wpeers st' = wpeers st \<and> relayarray st' = relayarray st \<and>
    (\<forall>d. d \<notin> set (ctrlist st) \<longrightarrow> ctrl st' d = ctrl st d) \<and>
    (\<forall>s. s \<notin> (\<lambda>c. c_s (ctrl st c)) ` set (ctrlist st) \<longrightarrow> epolled st' s = epolled st s)"
proof -
  from shut_ctrls_open [OF assms(1-3)] obtain st' where
    "shut_ctrls st (ctrlist st) = Inr st'" "\<forall>c \<in> set (ctrlist st). c_s (ctrl st' c) = -1" "\<forall>d. d \<notin> set (ctrlist st) \<longrightarrow> ctrl st' d = ctrl st d"
      "\<forall>s. epolled st' s = (if s \<in> (\<lambda>c. c_s (ctrl st c)) ` set (ctrlist st) then None else epolled st s)"
      "relay st' = relay st" "wpeers st' = wpeers st" "relayarray st' = relayarray st" by blast
  with assms(4) show ?thesis by (simp add: nioshutall_def closed_def)
qed

theorem shutall_leaves_sessions_witness:
  "\<exists>ks' st'. nioshutall demo_relay_env [4 \<mapsto> demo_socket, 5 \<mapsto> demo_socket] 4 5 demo_pair [] = Inr (ks', st') \<and> ks' 4 = None \<and>
    r_status (relay st' 0) = RELAY_ACTIVE \<and> epolled st' 10 = epolled demo_pair 10"
proof -
  have "ctrlist demo_pair = []" "r_status (relay demo_pair 0) = RELAY_ACTIVE" by code_simp+
  with shutall_leaves_sessions [of demo_pair 4 5 demo_relay_env "[4 \<mapsto> demo_socket, 5 \<mapsto> demo_socket]"] show ?thesis by auto
qed

text \<open>niosocktimer returns exactly when poll has an answer that is not a signal, with that answer; but each signal starts the time
  again: with a signal just before the time is over, any number of times, a time of ms milliseconds lasts any multiple of it.\<close>

theorem socktimer_waits:
  "((\<exists>r. niosocktimer ms as = Inr r) \<longleftrightarrow> (\<exists>a \<in> set as. \<forall>t. a \<noteq> Poll_intr t)) \<and>
   niosocktimer (Suc ms) (replicate n (Poll_intr ms) @ [Poll_timeout]) = Inr (0, n * ms + Suc ms, [])"
proof (rule conjI)
  show "(\<exists>r. niosocktimer ms as = Inr r) \<longleftrightarrow> (\<exists>a \<in> set as. \<forall>t. a \<noteq> Poll_intr t)"
    by (induction ms as rule: niosocktimer.induct) (auto simp: rbind_eq_Inr)
  show "niosocktimer (Suc ms) (replicate n (Poll_intr ms) @ [Poll_timeout]) = Inr (0, n * ms + Suc ms, [])"
    by (induction n) (simp_all add: rbind_def)
qed

end
