(* ===== verification/Spec2Isabelle.thy ===== *)
theory Spec2Isabelle
  imports Link DList Ini Conf Clients Syslog RbServer Resources Resbd Cmd Names Shipped Channel Relay RelayRun RelayProps
    SslChannel SslRelay SslProps Sockets
begin

text \<open>
  A model of the service resource broker, a C program that lends machines to batch queues, with the
  theorems that make it correct and those that show where it is not. All paths are under
  \<open>src/src/\<close> of the repository.

  The program. The broker daemon (\<open>daemon/\<close>) reads a configuration file, listens on a socket, answers
  client requests (status, parameters), registers server daemons, and every ten seconds looks at its
  queues: where enough jobs are pending it asks the first registered server for machines. The server
  daemon (\<open>server/\<close>) reads a list of machines, registers with the broker over a connection that it
  keeps, and answers requests with names of machines. The commands \<open>rbstatus\<close> and \<open>rbparams\<close> (\<open>cmd/\<close>)
  ask the broker through the client library. All of them share \<open>lib/\<close>: a linked list, a parser of .ini
  files, and a network layer whose messages are a header (operation, length) and a buffer.

  The theories, in the order they build on each other:
  \<^item> \<open>RB_Prelude\<close>: faults of C as values, the result type and its bind, \<open>int\<close> with overflow, lists.
  \<^item> \<open>C_String\<close>: the characters, strings and conversions of the C library that the program uses.
  \<^item> \<open>Link\<close> (\<open>lib/link.c\<close>): the list on an explicit heap. \<open>link_rep\<close> relates a head to the sequence of
    stored pointers; each operation is proved against it. The locale \<open>policy_queue\<close> is the queue and
    stack interface, interpreted twice on the list (taking from the front and from the end).
  \<^item> \<open>DList\<close> (\<open>lib/list.c\<close>): the circular doubly linked list on a heap of its nodes, which satisfies the
    same interface (\<open>dq\<close>).
  \<^item> \<open>Nio\<close> (\<open>lib/nio.c\<close>): sockets as event lists, the reading and writing loops, messages, requests. The
    locale \<open>message_format\<close> says that what is printed is read back; it is interpreted for the status
    (\<open>status\<close>), the parameters (\<open>params_fmt\<close>), the registration (\<open>registration\<close>) and the list of
    machines (\<open>machine_fmt\<close>), and gives the end-to-end theorems.
  \<^item> \<open>Ini\<close> (\<open>lib/ini.c\<close>): the parser, with the locale \<open>ini_client\<close> between it and its handler.
  \<^item> \<open>Res\<close> (\<open>daemon/res.h\<close>, \<open>lib/libresb.h\<close>): the broker's data. \<open>Conf\<close> (\<open>daemon/conf.c\<close>): the handler,
    interpreted as a client of the parser, so its invariant holds after every file.
  \<^item> \<open>Clients\<close> (\<open>daemon/clients.c\<close>, \<open>lib/libresb.c\<close>): requests, their buffers, the client library.
  \<^item> \<open>Syslog\<close>: log levels. \<open>RbServer\<close> (\<open>server/\<close>): options, machine file, registration, requests, loop.
  \<^item> \<open>Resources\<close> (\<open>daemon/resources.c\<close>): machines needed, the exchange with a server.
  \<^item> \<open>Resbd\<close> (\<open>daemon/resbd.c\<close>): connections, events, the periodic check, the main loop.
  \<^item> \<open>Cmd\<close> (\<open>cmd/\<close> and the \<open>main\<close> functions): command lines through a model of \<open>getopt\<close>.
  \<^item> \<open>Channel\<close>, \<open>Relay\<close>, \<open>RelayRun\<close>, \<open>RelayProps\<close> (\<open>lib/nio2.c\<close>): the network library of a relay daemon that
    lies beside the broker and is not built with it: clients ask on control connections for a pair
    relays, connect to them, and the daemon copies bytes between the two. \<open>Channel\<close> has the blocking
    loops (\<open>nioreadblock\<close> with the value that the C function returns) and the control connections, \<open>Relay\<close> the operations on relays and their invariant \<open>pyx_ok\<close>,
    \<open>RelayRun\<close> the preservation of it, the event loop and the step relation \<open>relay_steps\<close>, \<open>RelayProps\<close> the
    properties, among them that a pair of relays is two first-in first-out buffers, and that what one client
    sends before the other has come may stay in its buffer.
  \<^item> \<open>SslChannel\<close>, \<open>SslRelay\<close>, \<open>SslProps\<close> (\<open>lib/nio2.c\<close>): the same over SSL. \<open>SslChannel\<close> has the handshake, the
    messages and the blocking loops of control connections, \<open>SslRelay\<close> the relays with their output queues
    and the operation that is to be repeated, \<open>SslProps\<close> the invariant \<open>ssl_pair\<close> of a session (which a new session
    with the mode and queue of an earlier one satisfies), the buffers again as first-in first-out queues, and the
    cases in which the daemon stops, stalls or mixes up data.
  \<^item> \<open>Sockets\<close> (\<open>lib/nio2.c\<close>, \<open>lib/nio.c\<close>): opening and closing sockets, the blocking flag, waiting, address texts. \<open>Names\<close>
    (\<open>lib/libresb.c\<close>, \<open>server/rbserver.c\<close>): address, name and time texts, and the listing of the server.
  \<^item> \<open>Shipped\<close> (\<open>conf/resdb.conf\<close>): the configuration that comes with the program, what is read from it, and that
    a broker started with it never asks for a machine.

  State. The global variables of each process are one record (\<open>broker\<close>, \<open>rb_server\<close>); its descriptors
  and epoll set are the record \<open>net\<close>. Operations take and return both. The main loops are the step
  relations \<open>rbserver_step\<close> and \<open>resbd_step\<close>; what the kernel, the clock and the file system answer are
  arguments, with what the program relies on as hypotheses (\<open>kernel_ok\<close>, \<open>events_ok\<close>). The loop of the server
  gets no further than its first event: \<open>handle_broker_events\<close> takes the index of the event from a variable that was
  never written, which is a fault of the model (\<open>server_first_turn_faults\<close>), so what a request does is stated
  for \<open>process_broker_request\<close>. The relay daemon's
  state is the record \<open>pyx\<close>; the hash table, \<open>freeup\<close> and \<open>syslog_\<close>, which are not in the repository, and the message
  header are fields of \<open>relay_env\<close>: \<open>table_ok\<close> says that the table is a map, \<open>frees_null\<close> that \<open>freeup\<close> leaves NULL
  (a relay is used again and again, and \<open>nioflush2peer\<close> tells by the NULL in \<open>ev\<close> that a peer is not connected), and
  \<open>debug_args\<close> whether \<open>syslog_\<close> evaluates its arguments, on which nothing is assumed. With SSL the state is
  \<open>ssl_pyx\<close>, which contains it as \<open>pl\<close>; what the SSL library answers is an argument of each event, so nothing
  is assumed of it but that a call with a NULL object is a fault.

  Faults. Undefined behaviour is an \<open>Inl\<close>: NULL and dangling pointers, reads of unwritten objects,
  overflow of \<open>int\<close> and of buffers, division by zero, and system calls that never return. A received
  buffer is read as memory: the bytes that arrived and then \<open>junk\<close>, what lies behind them.

  Fuel and bounds. The pointer loops of \<open>link.c\<close> have one more unit of fuel than there are addresses in
  use, so running out means a cycle; the lemmas show it never happens on a represented list. All
  other loops are total recursions, on lists of events, characters or options. \<open>size_t\<close> is a 64 bit
  word; \<open>writeblock_loop\<close> keeps its count as one, and it wraps.

  Theorems. Safety and invariants of the two daemons over every reachable state; the exchanges end to
  end, below and in \<open>Clients\<close>; round trips of the configuration, the machine file and the messages;
  the list operations with their frame; and the behaviour where the code goes wrong (partial writes,
  the comma in \<open>borrow_factor\<close>, parameters reset at every key, dead servers, ignored errors, the uninitialised
  index of the server's event loop, data of an ended session in the queue of the next one).

  Not modelled. Log output, so also that log lines print what \<open>remote_addr\<close> returns (\<open>Names\<close> shows that this
  cannot be read); memory that is never freed; \<open>inf\<close>, \<open>nan\<close> and hexadecimal floating point input; and of
  \<open>lib/nio2.c\<close> the accessors of the two arrays, which are fields of the state.
  \<open>SslChannel\<close> and \<open>SslRelay\<close> leave out the blocking flag of the sockets: what a call
  answers is an argument whether or not it blocks. No makefile builds \<open>lib/nio2.c\<close> or \<open>lib/list.c\<close>, and the header of
  the first is not in the repository: its structures are records of the fields that the code uses.
\<close>

section \<open>The broker and a server\<close>

text \<open>C7. Registration, end to end: a server with a name of one word, whose registration fits its buffer
  of 64 bytes, sends a message from which the broker records a server of that name and number of
  machines; given the broker's empty OK, the server keeps the connection and polls it. Socket calls and writes
  succeed, and the memory behind the text that the broker received, which has no NUL of its own, must not
  continue the number at its end and must hold a NUL (\<open>text_stops\<close>); without this the broker may record another
  number of machines, see \<open>server_register_stale_digit\<close>.\<close>

theorem registration_end_to_end:
  assumes "s_name srv = Some nm" "registration_ok (s_type srv, nm, s_num_machines srv)"
    and "length (registration_text srv nm) < 64"
    and "connects a" "0 \<le> an_epoll_ctl a" "accepts_msg (registration_text srv nm) (wx (an_conn a))"
    and "stream_bytes (rx (an_conn a)) = message (hdr_pad m) BROKER_OK []" "tx (an_conn a) = []"
    and "conns m s = Some c" "takes_all sizeof_header (wx c)" "text_stops (junk m)"
    and "stream_bytes (rx c) = message (hdr_pad n) BROKER_SERVER_REGISTER (registration_text srv nm)"
  shows "\<exists>n' c'. register_with_broker n a srv = Inr (an_socket a, n') \<and> conns n' (an_socket a) = Some c' \<and>
      polled n' = {an_socket a} \<and> tx c' = stream_bytes (rx c) \<and>
    (\<exists>hdr m1 m2 c2. read_header m s = Inr (Some hdr, m1) \<and> opcode hdr = BROKER_SERVER_REGISTER \<and>
      server_register b m1 s hdr = Inr (0, b\<lparr>servers := servers b @ [registered s nm (s_num_machines srv)]\<rparr>, m2) \<and>
      conns m2 s = Some c2 \<and> tx c2 = tx c @ stream_bytes (rx (an_conn a)))"
proof -
  let ?text = "registration_text srv nm"
  let ?h = "\<lparr>opcode = BROKER_SERVER_REGISTER, len = of_nat (length ?text)\<rparr> :: rb_header"
  from register_ok [OF assms(4,5,1,3,6,7), of n] obtain n' c' where
    reg: "register_with_broker n a srv = Inr (an_socket a, n')" "conns n' = (conns n)(an_socket a \<mapsto> c')"
      "polled n' = {an_socket a}" "tx c' = stream_bytes (rx c)"
    using assms(8,12) by auto
  have "stream_bytes (rx c) = encode_header (hdr_pad n) ?h @ ?text" using assms(12) by (simp add: message_def)
  from read_header_ok [OF assms(9) this] obtain es where
    h: "read_header m s = Inr (Some ?h, m\<lparr>conns := (conns m)(s \<mapsto> c\<lparr>rx := es\<rparr>)\<rparr>)" "stream_bytes es = ?text" by blast
  let ?m1 = "m\<lparr>conns := (conns m)(s \<mapsto> c\<lparr>rx := es\<rparr>)\<rparr>"
  have "dec_registration (?text @ junk ?m1) = Inr (s_type srv, nm, s_num_machines srv)"
    using registration.dec_enc [OF assms(2,11)] by (simp add: registration_text_enc)
  from server_register_reads [of ?m1 s "c\<lparr>rx := es\<rparr>" ?text "[]", OF _ _ _ _ this, of b BROKER_SERVER_REGISTER]
  obtain m2 c2 where "server_register b ?m1 s ?h =
      Inr (0, b\<lparr>servers := servers b @ [registered s nm (s_num_machines srv)]\<rparr>, m2)"
    "conns m2 = (conns ?m1)(s \<mapsto> c2)" "tx c2 = tx c @ message (hdr_pad m) BROKER_OK []"
    using h(2) assms(3,10) by auto
  with reg h(1) assms(7) show ?thesis by (intro exI [of _ n'] exI [of _ c']) auto
qed

theorem registration_end_to_end_witness:
  "\<exists>n'. register_with_broker (demo_net [] []) (demo_answers [Data (message [] BROKER_OK [])]) demo_server =
    Inr (7, n') \<and> polled n' = {7}"
proof -
  let ?text = "registration_text demo_server ''node7''"
  let ?c = "demo_conn [Data (message [] BROKER_SERVER_REGISTER ?text)]"
  have len: "length ?text < 64" by code_simp
  then have acc: "accepts_msg ?text (wx (an_conn (demo_answers [Data (message [] BROKER_OK [])])))"
    by (simp add: demo_accepts)
  have ok: "registration_ok (s_type demo_server, ''node7'', s_num_machines demo_server)"
    by (simp add: demo_server_def registration_ok_def int_range_simps type_defs is_word_def isspace_def MAXHOSTNAMELEN_def)
  have nm: "s_name demo_server = Some ''node7''" by (simp add: demo_server_def)
  have ep: "0 \<le> an_epoll_ctl (demo_answers [Data (message [] BROKER_OK [])])" by (simp add: demo_answers_def)
  from registration_end_to_end [OF nm ok len demo_simps(6) ep acc,
      of "demo_net [Data (message [] BROKER_SERVER_REGISTER ?text)] [NUL]" 5 ?c "demo_net [] []" "init_main_data 0 True"]
  show ?thesis by (auto simp: text_stops_NUL demo_conn_def sizeof_header_def)
qed

text \<open>C6. A request for machines, end to end: the broker asks its first server for \<open>num\<close> machines; the
  server answers with the first of its machines, as many as were asked for or all it has, and the
  broker reads back exactly these names, when the two connections carry each other's bytes. Conditions: the
  number is positive; the names are words of less than 64 characters, the whole answer has less than 1024, and
  the server has as many machines as it counts (\<open>names_ok\<close>); writes take all they are given; the memory behind
  the text that the broker received, which has no NUL of its own, starts with a blank or a NUL and has a NUL
  (\<open>name_stops\<close>), or else it continues the last name; and \<open>process_broker_request\<close> is called for the
  connection of the broker (its only caller indexes the events with an uninitialised variable, see
  \<open>server_first_turn_faults\<close>).\<close>

theorem boot_end_to_end:
  assumes "servers b = s # ss" "conns n (srv_socket s) = Some c" "takes_all sizeof_header (wx c)" "tx c = []"
    and "0 < num" "int_range num" "name_stops (junk n)"
    and "length (s_m d) = nat (s_num_machines d)" "ws = take (min (nat num) (length (s_m d))) (map m_name (s_m d))"
    and "names_ok ws" "conns m t = Some e" "accepts_msg (machine_list_text ws) (wx e)" "tx e = []"
    and "stream_bytes (rx e) = encode_header (hdr_pad n) \<lparr>opcode = SERVER_BOOT_RESOURCES, len = of_int num\<rparr>"
    and "stream_bytes (rx c) = message (hdr_pad m) SERVER_RESOURCES_OK (machine_list_text ws)"
  shows "\<exists>n' c' m' e'. get_server_resources b n num = Inr ((0, ws), n') \<and>
    conns n' (srv_socket s) = Some c' \<and> tx c' = stream_bytes (rx e) \<and>
    process_broker_request d m t = Inr (0, m') \<and> conns m' t = Some e' \<and> tx e' = stream_bytes (rx c)"
proof -
  from get_server_resources_ok [OF assms(1-3,10,7,15), of num] assms(4,14) obtain n' c' where
    broker: "get_server_resources b n num = Inr ((0, ws), n')" "conns n' (srv_socket s) = Some c'"
      "tx c' = stream_bytes (rx e)" by auto
  have "unat (of_int num :: 64 word) = nat num"
    using assms(5,6) by (simp add: int_range_simps unsigned_of_int take_bit_int_eq_self)
  then have ws: "ws = take (min (unat (of_int num :: 64 word)) (length (s_m d))) (map m_name (s_m d))"
    using assms(9) by simp
  have "stream_bytes (rx e) = encode_header (hdr_pad n) \<lparr>opcode = SERVER_BOOT_RESOURCES, len = of_int num\<rparr> @ []"
    using assms(14) by simp
  from process_boot_request [OF assms(11) this assms(8) ws assms(10,12)] assms(13,15) obtain m' e' where
    "process_broker_request d m t = Inr (0, m')" "conns m' t = Some e'" "tx e' = stream_bytes (rx c)" by auto
  with broker show ?thesis by blast
qed

theorem boot_end_to_end_witness:
  "\<exists>n' m'. get_server_resources ((init_main_data 0 True)\<lparr>servers := [registered 5 ''node7'' 2]\<rparr>)
      (demo_net [Data (message [] SERVER_RESOURCES_OK (machine_list_text [''rocky9'']))] [NUL]) 1 =
      Inr ((0, [''rocky9'']), n') \<and>
    process_broker_request demo_server
      (demo_net [Data (encode_header [] \<lparr>opcode = SERVER_BOOT_RESOURCES, len = 1\<rparr>)] []) 5 = Inr (0, m')"
proof -
  let ?b = "(init_main_data 0 True)\<lparr>servers := [registered 5 ''node7'' 2]\<rparr>" and ?ws = "[''rocky9'']"
  let ?c = "demo_conn [Data (message [] SERVER_RESOURCES_OK (machine_list_text ?ws))]"
  let ?n = "demo_net [Data (message [] SERVER_RESOURCES_OK (machine_list_text ?ws))] [NUL]"
  let ?e = "demo_conn [Data (encode_header [] \<lparr>opcode = SERVER_BOOT_RESOURCES, len = 1\<rparr>)]"
  let ?m = "demo_net [Data (encode_header [] \<lparr>opcode = SERVER_BOOT_RESOURCES, len = 1\<rparr>)] []"
  have b: "servers ?b = [registered 5 ''node7'' 2]" "srv_socket (registered 5 ''node7'' 2) = 5"
    by (simp_all add: registered_def)
  have len: "length (machine_list_text ?ws) < 1024" by code_simp
  then have ok: "names_ok ?ws" by (simp add: names_ok_def is_word_def isspace_def MAXHOSTNAMELEN_def)
  have take: "takes_all sizeof_header (wx ?c)" by (simp add: demo_conn_def sizeof_header_def)
  have acc: "accepts_msg (machine_list_text ?ws) (wx ?e)" using len by (intro demo_accepts) simp
  have stops: "name_stops (junk ?n)" by (simp add: name_stops_def cstr_def)
  have ws: "?ws = take (min (nat 1) (length (s_m demo_server))) (map m_name (s_m demo_server))"
    by (simp add: demo_server_def machine_entry_def)
  have m: "length (s_m demo_server) = nat (s_num_machines demo_server)" by (simp add: demo_server_def)
  have conn: "conns ?n (srv_socket (registered 5 ''node7'' 2)) = Some ?c" by (simp add: b)
  from boot_end_to_end [OF b(1) conn take _ _ _ stops m ws ok _ acc, of ?m 5]
  show ?thesis by (auto simp: int_range_simps)
qed

end
